(* ===== verification/Aura_Prelude.thy ===== *)
theory Aura_Prelude
  imports Main "HOL-Library.Word" "HOL-Library.AList" "HOL-Library.List_Lexorder"
begin

text \<open>
  Shared vocabulary of the Aura development: machine integers with Rust's overflow
  behaviour, the outcomes of a call (return, panic, blocked on a lock), big-endian byte
  encodings, and the two standard-library containers the crates use, \<open>HashMap\<close>
  (an association list whose order stands for the unspecified iteration order) and
  \<open>BTreeMap\<close>/\<open>BTreeSet\<close> (strictly sorted lists).
\<close>

named_theorems word_ops \<open>reading checked and saturating arithmetic through unat\<close>
named_theorems bytes_simps \<open>lengths and round trips of byte encodings\<close>

section \<open>Machine integers\<close>

type_synonym u8 = "8 word"
type_synonym u16 = "16 word"
type_synonym u32 = "32 word"
type_synonym u64 = "64 word"
type_synonym bytes = "u8 list"

text \<open>
  Rust's \<open>+\<close>, \<open>-\<close> and \<open>*\<close> on integers panic on overflow in a debug build and wrap in a
  release build. The build profile is a parameter; \<open>None\<close> is the panic.
\<close>

datatype profile = Debug | Release

definition add_ck :: "profile \<Rightarrow> 'a::len word \<Rightarrow> 'a word \<Rightarrow> 'a word option" where
  "add_ck p a b =
     (if p = Release \<or> unat a + unat b < 2 ^ LENGTH('a) then Some (a + b) else None)"

definition sub_ck :: "profile \<Rightarrow> 'a::len word \<Rightarrow> 'a word \<Rightarrow> 'a word option" where
  "sub_ck p a b = (if p = Release \<or> b \<le> a then Some (a - b) else None)"

definition mul_ck :: "profile \<Rightarrow> 'a::len word \<Rightarrow> 'a word \<Rightarrow> 'a word option" where
  "mul_ck p a b =
     (if p = Release \<or> unat a * unat b < 2 ^ LENGTH('a) then Some (a * b) else None)"

text \<open>\<open>Iterator::sum\<close> adds from the left, with the profile's overflow behaviour.\<close>

fun sum_from_ck :: "profile \<Rightarrow> 'a::len word \<Rightarrow> 'a word list \<Rightarrow> 'a word option" where
  "sum_from_ck p acc [] = Some acc"
| "sum_from_ck p acc (x # xs) =
     (case add_ck p acc x of None \<Rightarrow> None | Some acc' \<Rightarrow> sum_from_ck p acc' xs)"

definition sum_ck :: "profile \<Rightarrow> 'a::len word list \<Rightarrow> 'a word option" where
  "sum_ck p xs = sum_from_ck p 0 xs"

definition sat_add :: "'a::len word \<Rightarrow> 'a word \<Rightarrow> 'a word" where
  "sat_add a b = (if unat a + unat b < 2 ^ LENGTH('a) then a + b else - 1)"

definition sat_sub :: "'a::len word \<Rightarrow> 'a word \<Rightarrow> 'a word" where
  "sat_sub a b = (if b \<le> a then a - b else 0)"

lemma unat_bound: "unat (w :: 'a::len word) < 2 ^ LENGTH('a)"
  by (rule unsigned_less)

lemma unat_plus_small:
  "unat a + unat b < 2 ^ LENGTH('a) \<Longrightarrow> unat (a + b :: 'a::len word) = unat a + unat b"
  by (simp add: unat_word_ariths)

lemma unat_times_small:
  "unat a * unat b < 2 ^ LENGTH('a) \<Longrightarrow> unat (a * b :: 'a::len word) = unat a * unat b"
  by (simp add: unat_word_ariths)

lemma add_ck_small [word_ops]:
  "unat a + unat b < 2 ^ LENGTH('a) \<Longrightarrow> add_ck p a (b :: 'a::len word) = Some (a + b)"
  by (simp add: add_ck_def)

lemma add_ck_SomeD: "add_ck p a b = Some c \<Longrightarrow> c = a + b"
  by (simp add: add_ck_def split: if_splits)

lemma add_ck_Debug:
  "add_ck Debug a (b :: 'a::len word) = Some c \<longleftrightarrow> c = a + b \<and> unat a + unat b < 2 ^ LENGTH('a)"
  by (auto simp: add_ck_def)

lemma add_ck_Release: "add_ck Release a b = Some (a + b)"
  by (simp add: add_ck_def)

lemma unat_sat_sub [word_ops]: "unat (sat_sub a b) = unat a - unat b"
  by (auto simp: sat_sub_def unat_sub word_le_nat_alt)

lemma unat_sat_add [word_ops]:
  "unat (sat_add a b :: 'a::len word) = min (unat a + unat b) (2 ^ LENGTH('a) - 1)"
  by (auto simp: sat_add_def unat_plus_small unsigned_minus_1_eq_mask mask_eq_exp_minus_1 min_def)

lemma sum_from_ck_exact:
  "unat acc + sum_list (map unat xs) < 2 ^ LENGTH('a) \<Longrightarrow>
     \<exists>s. sum_from_ck p acc (xs :: 'a::len word list) = Some s \<and>
         unat s = unat acc + sum_list (map unat xs)"
proof (induction xs arbitrary: acc)
  case Nil
  then show ?case by simp
next
  case (Cons x xs)
  then have "unat (acc + x) = unat acc + unat x"
    by (intro unat_plus_small) simp
  with Cons.prems Cons.IH [of "acc + x"] show ?case
    by (simp add: add_ck_small add.assoc)
qed

lemma sum_from_ck_Debug:
  "sum_from_ck Debug acc (xs :: 'a::len word list) = Some s \<Longrightarrow>
     unat s = unat acc + sum_list (map unat xs)"
  by (induction xs arbitrary: acc)
     (auto simp: add_ck_Debug unat_plus_small split: option.splits)

lemma sum_ck_exact:
  "sum_list (map unat xs) < 2 ^ LENGTH('a) \<Longrightarrow>
     \<exists>s. sum_ck p (xs :: 'a::len word list) = Some s \<and> unat s = sum_list (map unat xs)"
  using sum_from_ck_exact [of 0 xs p] by (simp add: sum_ck_def)

lemma sum_ck_Debug:
  "sum_ck Debug (xs :: 'a::len word list) = Some s \<Longrightarrow> unat s = sum_list (map unat xs)"
  using sum_from_ck_Debug [of 0 xs s] by (simp add: sum_ck_def)

section \<open>Outcomes of a call\<close>

text \<open>
  A call on shared state \<open>'s\<close> returns a value, panics, or waits for a lock it can never
  get. Mutations made before a panic or a wait stay in the state. \<open>Spin\<close> is a loop that
  never ends.
\<close>

datatype ('a, 's) outcome = Ret 'a 's | Panic 's | Blocked 's | Spin

fun andThen :: "('a, 's) outcome \<Rightarrow> ('a \<Rightarrow> 's \<Rightarrow> ('b, 's) outcome) \<Rightarrow> ('b, 's) outcome" where
  "andThen (Ret a s) k = k a s"
| "andThen (Panic s) k = Panic s"
| "andThen (Blocked s) k = Blocked s"
| "andThen Spin k = Spin"

definition or_panic :: "'a option \<Rightarrow> 's \<Rightarrow> ('a \<Rightarrow> ('b, 's) outcome) \<Rightarrow> ('b, 's) outcome" where
  "or_panic x s k = (case x of None \<Rightarrow> Panic s | Some a \<Rightarrow> k a)"

lemma andThen_Ret_iff:
  "andThen m k = Ret b t \<longleftrightarrow> (\<exists>a s. m = Ret a s \<and> k a s = Ret b t)"
  by (cases m) auto

lemma or_panic_Ret_iff:
  "or_panic x s k = Ret b t \<longleftrightarrow> (\<exists>a. x = Some a \<and> k a = Ret b t)"
  by (auto simp: or_panic_def split: option.splits)

lemma or_panic_simps [simp]:
  "or_panic None s k = Panic s" "or_panic (Some a) s k = k a"
  by (simp_all add: or_panic_def)

text \<open>
  The locks of \<open>parking_lot\<close> are third-party code: whether a request is granted to a
  thread that itself holds guards of the same lock is a parameter, the guards held and the
  guard asked for being its arguments. The crate documents that a write request waits
  until every other guard of the lock is dropped; \<open>exclusive_writes\<close> says so. Requests
  made while the thread holds no guard of the lock are granted and not written out.
\<close>

datatype guard = ReadGuard | WriteGuard

type_synonym lock_policy = "guard list \<Rightarrow> guard \<Rightarrow> bool"

definition exclusive_writes :: "lock_policy \<Rightarrow> bool" where
  "exclusive_writes lk \<longleftrightarrow> (\<forall>held. held \<noteq> [] \<longrightarrow> \<not> lk held WriteGuard)"

definition rwlock :: lock_policy where
  "rwlock held g = (case g of WriteGuard \<Rightarrow> held = [] | ReadGuard \<Rightarrow> WriteGuard \<notin> set held)"

definition reentrant :: lock_policy where
  "reentrant held g = True"

lemma exclusive_writes_rwlock: "exclusive_writes rwlock"
  by (simp add: exclusive_writes_def rwlock_def)

lemma reentrant_simp [simp]: "reentrant held g"
  by (simp add: reentrant_def)

section \<open>Big-endian bytes\<close>

text \<open>\<open>to_be_bytes\<close> and \<open>from_be_bytes\<close>; a fixed array \<open>[u8; n]\<close> is an \<open>8 n\<close>-bit word.\<close>

fun nat_be :: "nat \<Rightarrow> nat \<Rightarrow> bytes" where
  "nat_be 0 k = []"
| "nat_be (Suc n) k = nat_be n (k div 256) @ [word_of_nat k]"

fun be_nat_from :: "nat \<Rightarrow> bytes \<Rightarrow> nat" where
  "be_nat_from acc [] = acc"
| "be_nat_from acc (b # bs) = be_nat_from (acc * 256 + unat b) bs"

definition be_nat :: "bytes \<Rightarrow> nat" where
  "be_nat bs = be_nat_from 0 bs"

definition be_bytes :: "nat \<Rightarrow> 'a::len word \<Rightarrow> bytes" where
  "be_bytes n w = nat_be n (unat w)"

definition of_be_bytes :: "bytes \<Rightarrow> 'a::len word" where
  "of_be_bytes bs = word_of_nat (be_nat bs)"

lemma length_nat_be [simp, bytes_simps]: "length (nat_be n k) = n"
  by (induction n arbitrary: k) auto

lemma length_be_bytes [simp, bytes_simps]: "length (be_bytes n w) = n"
  by (simp add: be_bytes_def)

lemma be_nat_from_append: "be_nat_from acc (xs @ ys) = be_nat_from (be_nat_from acc xs) ys"
  by (induction xs arbitrary: acc) auto

lemma be_nat_snoc: "be_nat (xs @ [b]) = be_nat xs * 256 + unat b"
  by (simp add: be_nat_def be_nat_from_append)

lemma be_nat_bound: "be_nat bs < 256 ^ length bs"
proof (induction bs rule: rev_induct)
  case Nil
  then show ?case by (simp add: be_nat_def)
next
  case (snoc b bs)
  have "unat b < 256" using unat_bound [of b] by simp
  with snoc show ?case by (simp add: be_nat_snoc)
qed

lemma be_nat_nat_be: "be_nat (nat_be n k) = k mod 256 ^ n"
proof (induction n arbitrary: k)
  case 0
  then show ?case by (simp add: be_nat_def)
next
  case (Suc n)
  have "unat (word_of_nat k :: u8) = k mod 256"
    by (simp add: unat_of_nat)
  moreover have "k mod (256 * 256 ^ n) = 256 * (k div 256 mod 256 ^ n) + k mod 256"
    by (rule mod_mult2_eq)
  ultimately show ?case using Suc by (simp add: be_nat_snoc)
qed

lemma nat_be_be_nat: "length bs = n \<Longrightarrow> nat_be n (be_nat bs) = bs"
proof (induction bs arbitrary: n rule: rev_induct)
  case Nil
  then show ?case by simp
next
  case (snoc b bs)
  have "unat b < 256" using unat_bound [of b] by simp
  moreover have "(word_of_nat (be_nat bs * 256 + unat b) :: u8) = b"
  proof -
    have h: "(256 :: u8) = 0" by simp
    show ?thesis
      by (simp only: of_nat_add of_nat_mult of_nat_numeral h mult_zero_right add_0) simp
  qed
  ultimately show ?case using snoc by (auto simp: be_nat_snoc)
qed

lemma of_be_bytes_be_bytes [bytes_simps]:
  assumes "LENGTH('a) = 8 * n"
  shows "of_be_bytes (be_bytes n (w :: 'a::len word)) = w"
proof -
  have "unat w < 256 ^ n"
    using unat_bound [of w] assms by (simp add: power_mult)
  then show ?thesis by (simp add: of_be_bytes_def be_bytes_def be_nat_nat_be)
qed

lemma be_bytes_of_be_bytes [bytes_simps]:
  assumes "LENGTH('a) = 8 * n" and "length bs = n"
  shows "be_bytes n (of_be_bytes bs :: 'a::len word) = bs"
proof -
  have "unat (word_of_nat (be_nat bs) :: 'a word) = be_nat bs"
    using be_nat_bound [of bs] assms by (simp add: unat_of_nat power_mult take_bit_nat_eq_self)
  then show ?thesis using assms by (simp add: of_be_bytes_def be_bytes_def nat_be_be_nat)
qed

lemma be_bytes_inject [bytes_simps]:
  assumes "LENGTH('a) = 8 * n"
  shows "be_bytes n (v :: 'a::len word) = be_bytes n w \<longleftrightarrow> v = w"
  using of_be_bytes_be_bytes [OF assms] by metis

lemma append_be_bytes_inject:
  assumes "LENGTH('a) = 8 * n"
  shows "be_bytes n (v :: 'a::len word) @ xs = be_bytes n w @ ys \<longleftrightarrow> v = w \<and> xs = ys"
  using assms by (auto simp: append_eq_append_conv be_bytes_inject)

text \<open>\<open>read_exact\<close>: the bytes read and those left, or nothing when the input ends before.\<close>

definition read_exact :: "nat \<Rightarrow> bytes \<Rightarrow> (bytes \<times> bytes) option" where
  "read_exact n inp = (if length inp < n then None else Some (take n inp, drop n inp))"

lemma read_exact_append [simp]: "length xs = n \<Longrightarrow> read_exact n (xs @ ys) = Some (xs, ys)"
  by (simp add: read_exact_def)

lemma read_exact_length: "read_exact n inp = Some (xs, ys) \<Longrightarrow> length inp = n + length ys"
  by (auto simp: read_exact_def split: if_splits)

section \<open>Standard-library containers\<close>

lemma map_of_rev_distinct: "distinct (map fst m) \<Longrightarrow> map_of (rev m) = map_of m"
proof
  fix k
  assume d: "distinct (map fst m)"
  then have "distinct (map fst (rev m))" by (simp add: rev_map [symmetric])
  with d have "map_of (rev m) k = Some v \<longleftrightarrow> map_of m k = Some v" for v
    by (simp add: map_of_eq_Some_iff)
  then show "map_of (rev m) k = map_of m k"
    by (cases "map_of m k"; cases "map_of (rev m) k") auto
qed

lemma map_add_rev_Cons: "L ++ map_of (rev (e # es)) = L(fst e \<mapsto> snd e) ++ map_of (rev es)"
  by (cases e) (simp add: fun_eq_iff map_add_def split: option.split)

text \<open>
  The laws both maps keep: what a lookup returns after an insertion or a removal, and that
  well-formedness is kept.
\<close>

locale map_ops =
  fixes lookup :: "'m \<Rightarrow> 'k \<Rightarrow> 'v option"
    and insert :: "'k \<Rightarrow> 'v \<Rightarrow> 'm \<Rightarrow> 'm"
    and remove :: "'k \<Rightarrow> 'm \<Rightarrow> 'm"
    and ok :: "'m \<Rightarrow> bool"
  assumes lookup_insert: "ok m \<Longrightarrow> lookup (insert k v m) = (lookup m)(k \<mapsto> v)"
    and lookup_remove: "ok m \<Longrightarrow> lookup (remove k m) = (lookup m)(k := None)"
    and ok_insert: "ok m \<Longrightarrow> ok (insert k v m)"
    and ok_remove: "ok m \<Longrightarrow> ok (remove k m)"
begin

lemma ok_fold_insert: "ok m \<Longrightarrow> ok (fold (\<lambda>(k, v). insert k v) kvs m)"
  by (induction kvs arbitrary: m) (auto intro: ok_insert)

lemma lookup_fold_insert:
  "ok m \<Longrightarrow> lookup (fold (\<lambda>(k, v). insert k v) kvs m) = lookup m ++ map_of (rev kvs)"
  by (induction kvs arbitrary: m)
     (auto simp: lookup_insert ok_insert map_add_assoc)

lemma lookup_fold_insert_other:
  "ok m \<Longrightarrow> k \<notin> fst ` set kvs \<Longrightarrow> lookup (fold (\<lambda>(k, v). insert k v) kvs m) k = lookup m k"
  by (simp add: lookup_fold_insert map_add_dom_app_simps map_of_eq_None_iff
      dom_map_of_conv_image_fst)

lemma lookup_insert_remove_commute:
  "ok m \<Longrightarrow> k \<noteq> k' \<Longrightarrow> lookup (insert k v (remove k' m)) = lookup (remove k' (insert k v m))"
  by (simp add: lookup_insert lookup_remove ok_insert ok_remove fun_upd_twist)

end

text \<open>\<open>HashMap\<close>: an association list with distinct keys, in any order.\<close>

definition hm_ok :: "('k \<times> 'v) list \<Rightarrow> bool" where
  "hm_ok m \<longleftrightarrow> distinct (map fst m)"

definition hm_get :: "('k \<times> 'v) list \<Rightarrow> 'k \<Rightarrow> 'v option" where
  "hm_get m k = map_of m k"

definition hm_insert :: "'k \<Rightarrow> 'v \<Rightarrow> ('k \<times> 'v) list \<Rightarrow> ('k \<times> 'v) list" where
  "hm_insert k v m = AList.update k v m"

definition hm_remove :: "'k \<Rightarrow> ('k \<times> 'v) list \<Rightarrow> ('k \<times> 'v) list" where
  "hm_remove k m = AList.delete k m"

interpretation hm: map_ops hm_get hm_insert hm_remove hm_ok
  by unfold_locales
     (auto simp: hm_get_def [abs_def] hm_insert_def hm_remove_def hm_ok_def update_conv' delete_conv'
       distinct_update distinct_delete)

lemma hm_get_Nil [simp]: "hm_get [] k = None"
  by (simp add: hm_get_def)

lemma hm_ok_Nil [simp]: "hm_ok []"
  by (simp add: hm_ok_def)

lemma hm_get_insert: "hm_get (hm_insert k v m) k' = (if k' = k then Some v else hm_get m k')"
  by (simp add: hm_get_def hm_insert_def update_conv')

lemma hm_get_remove: "hm_get (hm_remove k m) k' = (if k' = k then None else hm_get m k')"
  by (simp add: hm_get_def hm_remove_def delete_conv')

lemma hm_get_iff: "hm_ok m \<Longrightarrow> hm_get m k = Some v \<longleftrightarrow> (k, v) \<in> set m"
  by (simp add: hm_get_def hm_ok_def)

lemma length_hm_remove: "hm_get m k = Some v \<Longrightarrow> length (hm_remove k m) < length m"
proof (induction m)
  case Nil
  then show ?case by simp
next
  case (Cons p m)
  have le: "length (AList.delete k m) \<le> length m" by (rule length_delete_le)
  from Cons le show ?case
    by (cases p) (auto simp: hm_get_def hm_remove_def less_Suc_eq_le split: if_splits)
qed

lemma set_hm_remove: "set (hm_remove k m) = {p \<in> set m. fst p \<noteq> k}"
  by (auto simp: hm_remove_def AList.delete_eq)

lemma hm_insert_fresh: "hm_get m k = None \<Longrightarrow> hm_insert k v m = m @ [(k, v)]"
  unfolding hm_get_def hm_insert_def
  by (induction m) (auto split: if_splits)

lemma sum_list_hm_remove:
  assumes "hm_ok m" and "(k, v) \<in> set m"
  shows "sum_list (map f (hm_remove k m)) + (f (k, v) :: nat) = sum_list (map f m)"
  using assms
proof (induction m)
  case Nil
  then show ?case by simp
next
  case (Cons p m)
  show ?case
  proof (cases "p = (k, v)")
    case True
    with Cons.prems have "k \<notin> fst ` set m" by (simp add: hm_ok_def)
    then have "hm_remove k m = m" by (simp add: hm_remove_def)
    with True show ?thesis by (simp add: hm_remove_def)
  next
    case False
    with Cons.prems have "(k, v) \<in> set m" "hm_ok m" by (auto simp: hm_ok_def)
    moreover from this Cons.prems have "fst p \<noteq> k" by (auto simp: hm_ok_def image_iff)
    ultimately show ?thesis
      using Cons.IH by (cases p) (simp add: hm_remove_def)
  qed
qed

text \<open>\<open>BTreeMap\<close>: an association list whose keys are strictly increasing.\<close>

fun om_insert :: "'k::linorder \<Rightarrow> 'v \<Rightarrow> ('k \<times> 'v) list \<Rightarrow> ('k \<times> 'v) list" where
  "om_insert k v [] = [(k, v)]"
| "om_insert k v (p # m) =
     (if fst p < k then p # om_insert k v m
      else if fst p = k then (k, v) # m
      else (k, v) # p # m)"

definition om_remove :: "'k::linorder \<Rightarrow> ('k \<times> 'v) list \<Rightarrow> ('k \<times> 'v) list" where
  "om_remove k m = filter (\<lambda>p. fst p \<noteq> k) m"

definition om_get :: "('k::linorder \<times> 'v) list \<Rightarrow> 'k \<Rightarrow> 'v option" where
  "om_get m k = map_of m k"

definition om_ok :: "('k::linorder \<times> 'v) list \<Rightarrow> bool" where
  "om_ok m \<longleftrightarrow> sorted_wrt (<) (map fst m)"

lemma set_om_insert_subset: "set (om_insert k v m) \<subseteq> {(k, v)} \<union> set m"
  by (induction m) auto

lemma fst_set_om_insert: "fst ` set (om_insert k v m) = {k} \<union> fst ` set m"
  by (induction m) (auto simp: image_iff)

lemma om_get_fun_insert: "om_ok m \<Longrightarrow> om_get (om_insert k v m) = (om_get m)(k \<mapsto> v)"
proof (induction m)
  case Nil
  then show ?case by (auto simp: om_get_def [abs_def])
next
  case (Cons p m)
  obtain a b where p: "p = (a, b)" by (cases p)
  from Cons show ?case
    by (auto simp: p om_get_def [abs_def] om_ok_def fun_eq_iff)
qed

lemma om_ok_insert: "om_ok m \<Longrightarrow> om_ok (om_insert k v m)"
proof (induction m)
  case Nil
  then show ?case by (simp add: om_ok_def)
next
  case (Cons p m)
  have "set (map fst (om_insert k v m)) = {k} \<union> set (map fst m)"
    using fst_set_om_insert [of k v m] by simp
  with Cons show ?case
    by (auto simp: om_ok_def simp del: set_map intro: less_trans)
qed

lemma om_get_fun_remove: "om_get (om_remove k m) = (om_get m)(k := None)"
  by (induction m) (auto simp: om_get_def [abs_def] om_remove_def fun_eq_iff)

lemma om_ok_remove: "om_ok m \<Longrightarrow> om_ok (om_remove k m)"
  by (induction m) (auto simp: om_ok_def om_remove_def)

interpretation om: map_ops om_get om_insert om_remove om_ok
  by unfold_locales
     (auto simp: om_get_fun_insert om_get_fun_remove om_ok_insert om_ok_remove)

lemma om_ok_Nil [simp]: "om_ok []"
  by (simp add: om_ok_def)

lemma om_get_Nil [simp]: "om_get [] k = None"
  by (simp add: om_get_def)

lemma om_ok_distinct: "om_ok m \<Longrightarrow> distinct (map fst m)"
  by (simp add: om_ok_def strict_sorted_iff)

lemma om_get_iff: "om_ok m \<Longrightarrow> om_get m k = Some v \<longleftrightarrow> (k, v) \<in> set m"
  by (simp add: om_get_def om_ok_distinct)

text \<open>\<open>BTreeSet\<close>: a strictly increasing list.\<close>

fun os_insert :: "'k::linorder \<Rightarrow> 'k list \<Rightarrow> 'k list" where
  "os_insert k [] = [k]"
| "os_insert k (x # s) =
     (if x < k then x # os_insert k s else if x = k then x # s else k # x # s)"

definition os_remove :: "'k::linorder \<Rightarrow> 'k list \<Rightarrow> 'k list" where
  "os_remove k s = filter (\<lambda>x. x \<noteq> k) s"

definition os_ok :: "'k::linorder list \<Rightarrow> bool" where
  "os_ok s \<longleftrightarrow> sorted_wrt (<) s"

lemma set_os_insert [simp]: "set (os_insert k s) = {k} \<union> set s"
  by (induction s) auto

lemma set_os_remove [simp]: "set (os_remove k s) = set s - {k}"
  by (auto simp: os_remove_def)

lemma os_ok_insert: "os_ok s \<Longrightarrow> os_ok (os_insert k s)"
  by (induction s) (auto simp: os_ok_def)

lemma os_ok_remove: "os_ok s \<Longrightarrow> os_ok (os_remove k s)"
  by (simp add: os_ok_def os_remove_def sorted_wrt_filter)

lemma os_ok_Nil [simp]: "os_ok []"
  by (simp add: os_ok_def)

end
