(* ===== verification/Crypto.thy ===== *)
theory Crypto
  imports Aura_Prelude
begin

text \<open>
  \<open>aura-crypto\<close>: the newtypes \<open>Hash\<close>, \<open>Address\<close>, \<open>PublicKey\<close>, \<open>Signature\<close> (an array
  \<open>[u8; n]\<close> is an \<open>8 n\<close>-bit word, most significant byte first, so the derived
  lexicographic order is the order of the words), domain-separated hashing, textual
  parsing, key pairs and SLIP-0010 derivation. BLAKE3, Ed25519, HMAC-SHA512, hex and
  bech32 are third-party crates: fields of the record \<open>env\<close>, together with the build
  profile and the lock policy.
\<close>

record env =
  prof :: profile
  locks :: lock_policy
  blake3 :: "bytes \<Rightarrow> 256 word"
  vk_error :: "256 word \<Rightarrow> string option"
  verify_strict :: "256 word \<Rightarrow> bytes \<Rightarrow> 512 word \<Rightarrow> bool"
  ed_public :: "256 word \<Rightarrow> 256 word"
  ed_sign :: "256 word \<Rightarrow> bytes \<Rightarrow> 512 word"
  hmac512 :: "bytes \<Rightarrow> bytes \<Rightarrow> 512 word option"
  hex_encode :: "bytes \<Rightarrow> string"
  hex_decode :: "string \<Rightarrow> string + bytes"
  hrp_error :: "string \<Rightarrow> string option"
  bech32_encode :: "string \<Rightarrow> bytes \<Rightarrow> string + string"
  bech32_decode :: "string \<Rightarrow> string + (string \<times> bytes)"

text \<open>A string is its UTF-8 bytes; \<open>b"..."\<close> and \<open>as_bytes\<close> read them.\<close>

definition str_bytes :: "string \<Rightarrow> bytes" where
  "str_bytes s = map (\<lambda>c. word_of_nat (of_char c)) s"

lemma length_str_bytes [simp, bytes_simps]: "length (str_bytes s) = length s"
  by (simp add: str_bytes_def)

lemma str_bytes_inject [simp]: "str_bytes s = str_bytes t \<longleftrightarrow> s = t"
proof -
  have "unat (word_of_nat (of_char c) :: u8) = of_char c" for c
    using nat_of_char_less_256 [of c] by (simp add: unat_of_nat)
  then have "inj (\<lambda>c. word_of_nat (of_char c) :: u8)"
    by (intro injI) (metis of_char_eq_iff)
  then show ?thesis by (auto simp: str_bytes_def inj_map_eq_map)
qed

section \<open>Hash\<close>

datatype hash = Hash (hash_word: "256 word")

instantiation hash :: linorder
begin

definition less_eq_hash :: "hash \<Rightarrow> hash \<Rightarrow> bool" where
  "less_eq_hash a b \<longleftrightarrow> hash_word a \<le> hash_word b"

definition less_hash :: "hash \<Rightarrow> hash \<Rightarrow> bool" where
  "less_hash a b \<longleftrightarrow> hash_word a < hash_word b"

instance
  by standard (auto simp: less_eq_hash_def less_hash_def hash.expand)

end

definition HASH_ZERO :: hash where
  "HASH_ZERO = Hash 0"

definition hash_bytes_of :: "hash \<Rightarrow> bytes" where
  "hash_bytes_of h = be_bytes 32 (hash_word h)"

datatype hash_error = InvalidLength | HashHexDecode string

definition hash_from_bytes :: "bytes \<Rightarrow> hash_error + hash" where
  "hash_from_bytes bs =
     (if length bs \<noteq> 32 then Inl InvalidLength else Inr (Hash (of_be_bytes bs)))"

definition hash_to_hex :: "env \<Rightarrow> hash \<Rightarrow> string" where
  "hash_to_hex E h = hex_encode E (hash_bytes_of h)"

definition strip_0x :: "string \<Rightarrow> string" where
  "strip_0x s = (if take 2 s = ''0x'' then drop 2 s else s)"

text \<open>\<open>copy_from_slice\<close> panics (\<open>None\<close>) when the slice has another length than the array.\<close>

definition copy_from_slice :: "nat \<Rightarrow> bytes \<Rightarrow> 'a::len word option" where
  "copy_from_slice n bs = (if length bs = n then Some (of_be_bytes bs) else None)"

definition hash_from_str :: "env \<Rightarrow> string \<Rightarrow> (hash_error + hash) option" where
  "hash_from_str E s =
     (let clean = strip_0x s in
      if length clean \<noteq> 64 then Some (Inl InvalidLength)
      else case hex_decode E clean of
        Inl e \<Rightarrow> Some (Inl (HashHexDecode e))
      | Inr bs \<Rightarrow> map_option (\<lambda>w. Inr (Hash w)) (copy_from_slice 32 bs))"

text \<open>
  Wire forms: a human-readable serializer gets the hex string, the others the raw bytes.
\<close>

datatype wire = WireStr string | WireBytes bytes

definition hash_serialize :: "env \<Rightarrow> bool \<Rightarrow> hash \<Rightarrow> wire" where
  "hash_serialize E human h =
     (if human then WireStr (hash_to_hex E h) else WireBytes (hash_bytes_of h))"

definition hash_deserialize :: "env \<Rightarrow> wire \<Rightarrow> hash option option" where
  "hash_deserialize E w =
     (case w of
        WireStr s \<Rightarrow>
          (case hash_from_str E s of
             None \<Rightarrow> None
           | Some (Inl e) \<Rightarrow> Some None
           | Some (Inr h) \<Rightarrow> Some (Some h))
      | WireBytes bs \<Rightarrow>
          (if length bs \<noteq> 32 then Some None
           else map_option (\<lambda>v. Some (Hash v)) (copy_from_slice 32 bs)))"

section \<open>Hashing\<close>

definition DOMAIN_TX :: bytes where "DOMAIN_TX = str_bytes ''AURA_TX_v1''"
definition DOMAIN_BLOCK_HEADER :: bytes where "DOMAIN_BLOCK_HEADER = str_bytes ''AURA_HEADER_v1''"
definition DOMAIN_MERKLE_LEAF :: bytes where "DOMAIN_MERKLE_LEAF = str_bytes ''AURA_LEAF_v1''"
definition DOMAIN_MERKLE_NODE :: bytes where "DOMAIN_MERKLE_NODE = str_bytes ''AURA_NODE_v1''"
definition DOMAIN_SMT_LEAF :: bytes where "DOMAIN_SMT_LEAF = str_bytes ''AURA_SMT_LEAF_v1''"
definition DOMAIN_SMT_NODE :: bytes where "DOMAIN_SMT_NODE = str_bytes ''AURA_SMT_NODE_v1''"
definition DOMAIN_VOTE :: bytes where "DOMAIN_VOTE = str_bytes ''AURA_VOTE_v1''"
definition DOMAIN_ADDRESS :: bytes where "DOMAIN_ADDRESS = str_bytes ''AURA_ADDRESS_v1''"

definition le_len :: "bytes \<Rightarrow> bytes" where
  "le_len d = rev (be_bytes 8 (word_of_nat (length d) :: u64))"

definition hash_bytes :: "env \<Rightarrow> bytes \<Rightarrow> hash" where
  "hash_bytes E data = Hash (blake3 E data)"

definition domain_preimage :: "bytes \<Rightarrow> bytes \<Rightarrow> bytes" where
  "domain_preimage d data = le_len d @ d @ data"

definition hash_with_domain :: "env \<Rightarrow> bytes \<Rightarrow> bytes \<Rightarrow> hash" where
  "hash_with_domain E d data = Hash (blake3 E (domain_preimage d data))"

definition hash_two :: "env \<Rightarrow> bytes \<Rightarrow> hash \<Rightarrow> hash \<Rightarrow> hash" where
  "hash_two E d l r = Hash (blake3 E (le_len d @ d @ hash_bytes_of l @ hash_bytes_of r))"

section \<open>Keys and signatures\<close>

datatype public_key = PublicKey (pk_word: "256 word")
datatype signature = Signature (sig_word: "512 word")

definition pk_bytes :: "public_key \<Rightarrow> bytes" where
  "pk_bytes pk = be_bytes 32 (pk_word pk)"

definition sig_bytes :: "signature \<Rightarrow> bytes" where
  "sig_bytes sg = be_bytes 64 (sig_word sg)"

datatype crypto_error =
    InvalidKeyLength
  | InvalidSignatureLength
  | SignatureVerificationFailed
  | InvalidPublicKey string
  | CryptoHexDecode string

definition pk_verify :: "env \<Rightarrow> public_key \<Rightarrow> bytes \<Rightarrow> signature \<Rightarrow> crypto_error + unit" where
  "pk_verify E pk msg sg =
     (case vk_error E (pk_word pk) of
        Some e \<Rightarrow> Inl (InvalidPublicKey e)
      | None \<Rightarrow>
          if verify_strict E (pk_word pk) msg (sig_word sg) then Inr ()
          else Inl SignatureVerificationFailed)"

definition pubkey_from_str :: "env \<Rightarrow> string \<Rightarrow> (crypto_error + public_key) option" where
  "pubkey_from_str E s =
     (let clean = strip_0x s in
      if length clean \<noteq> 64 then Some (Inl InvalidKeyLength)
      else case hex_decode E clean of
        Inl e \<Rightarrow> Some (Inl (CryptoHexDecode e))
      | Inr bs \<Rightarrow> map_option (\<lambda>w. Inr (PublicKey w)) (copy_from_slice 32 bs))"

definition signature_from_str :: "env \<Rightarrow> string \<Rightarrow> (crypto_error + signature) option" where
  "signature_from_str E s =
     (let clean = strip_0x s in
      if length clean \<noteq> 128 then Some (Inl InvalidSignatureLength)
      else case hex_decode E clean of
        Inl e \<Rightarrow> Some (Inl (CryptoHexDecode e))
      | Inr bs \<Rightarrow> map_option (\<lambda>w. Inr (Signature w)) (copy_from_slice 64 bs))"

record key_pair =
  signing_key :: "256 word"
  kp_public :: public_key

definition keypair_from_secret_bytes :: "env \<Rightarrow> 256 word \<Rightarrow> key_pair" where
  "keypair_from_secret_bytes E sk =
     \<lparr>signing_key = sk, kp_public = PublicKey (ed_public E sk)\<rparr>"

definition kp_sign :: "env \<Rightarrow> key_pair \<Rightarrow> bytes \<Rightarrow> signature" where
  "kp_sign E kp msg = Signature (ed_sign E (signing_key kp) msg)"

section \<open>Address\<close>

datatype address = Address (addr_word: "160 word")

instantiation address :: linorder
begin

definition less_eq_address :: "address \<Rightarrow> address \<Rightarrow> bool" where
  "less_eq_address a b \<longleftrightarrow> addr_word a \<le> addr_word b"

definition less_address :: "address \<Rightarrow> address \<Rightarrow> bool" where
  "less_address a b \<longleftrightarrow> addr_word a < addr_word b"

instance
  by standard (auto simp: less_eq_address_def less_address_def address.expand)

end

instantiation address :: finite
begin

instance
proof
  have "(UNIV :: address set) = range Address"
    by (metis address.exhaust_sel surjI)
  then show "finite (UNIV :: address set)" by (metis finite finite_imageI)
qed

end

definition ADDRESS_ZERO :: address where
  "ADDRESS_ZERO = Address 0"

definition addr_bytes :: "address \<Rightarrow> bytes" where
  "addr_bytes a = be_bytes 20 (addr_word a)"

definition DEFAULT_HRP :: string where "DEFAULT_HRP = ''aura''"

datatype address_error =
    InvalidPayloadLength
  | Bech32Error string
  | InvalidPrefix string string

definition address_from_pubkey :: "env \<Rightarrow> public_key \<Rightarrow> address" where
  "address_from_pubkey E pk =
     Address (of_be_bytes (take 20 (hash_bytes_of (hash_with_domain E DOMAIN_ADDRESS (pk_bytes pk)))))"

definition to_bech32 :: "env \<Rightarrow> address \<Rightarrow> string \<Rightarrow> address_error + string" where
  "to_bech32 E a hrp =
     (case hrp_error E hrp of
        Some e \<Rightarrow> Inl (Bech32Error e)
      | None \<Rightarrow>
          (case bech32_encode E hrp (addr_bytes a) of
             Inl e \<Rightarrow> Inl (Bech32Error e)
           | Inr s \<Rightarrow> Inr s))"

definition from_bech32 :: "env \<Rightarrow> string \<Rightarrow> string \<Rightarrow> (address_error + address) option" where
  "from_bech32 E s expected_hrp =
     (case bech32_decode E s of
        Inl e \<Rightarrow> Some (Inl (Bech32Error e))
      | Inr (hrp, data) \<Rightarrow>
          if hrp \<noteq> expected_hrp then Some (Inl (InvalidPrefix expected_hrp hrp))
          else if length data \<noteq> 20 then Some (Inl InvalidPayloadLength)
          else map_option (\<lambda>w. Inr (Address w)) (copy_from_slice 20 data))"

definition address_from_str :: "env \<Rightarrow> string \<Rightarrow> (address_error + address) option" where
  "address_from_str E s =
     (if take 4 s = DEFAULT_HRP then from_bech32 E s DEFAULT_HRP
      else let clean = strip_0x s in
        if length clean \<noteq> 40 then Some (Inl InvalidPayloadLength)
        else case hex_decode E clean of
          Inl e \<Rightarrow> Some (Inl (Bech32Error e))
        | Inr bs \<Rightarrow> map_option (\<lambda>w. Inr (Address w)) (copy_from_slice 20 bs))"

section \<open>Fixed-size byte arrays\<close>

text \<open>
  What the encoders rely on in each newtype: a fixed length and distinct bytes for distinct
  values, so that a concatenation of such fields can be taken apart again.
\<close>

locale byte_array =
  fixes to_bytes :: "'a \<Rightarrow> bytes"
    and size :: nat
  assumes length_to_bytes: "length (to_bytes a) = size"
    and to_bytes_inject: "to_bytes a = to_bytes b \<Longrightarrow> a = b"
begin

lemma append_inject: "to_bytes a @ xs = to_bytes b @ ys \<longleftrightarrow> a = b \<and> xs = ys"
  using to_bytes_inject by (auto simp: append_eq_append_conv length_to_bytes)

lemma take_to_bytes: "take size (to_bytes a @ xs) = to_bytes a"
  by (simp add: length_to_bytes)

end

interpretation hash_arr: byte_array hash_bytes_of 32
  by unfold_locales (auto simp: hash_bytes_of_def be_bytes_inject hash.expand)

interpretation pk_arr: byte_array pk_bytes 32
  by unfold_locales (auto simp: pk_bytes_def be_bytes_inject public_key.expand)

interpretation sig_arr: byte_array sig_bytes 64
  by unfold_locales (auto simp: sig_bytes_def be_bytes_inject signature.expand)

interpretation addr_arr: byte_array addr_bytes 20
  by unfold_locales (auto simp: addr_bytes_def be_bytes_inject address.expand)

interpretation u64_arr: byte_array "be_bytes 8 :: u64 \<Rightarrow> bytes" 8
  by unfold_locales (auto simp: be_bytes_inject)

interpretation u32_arr: byte_array "be_bytes 4 :: u32 \<Rightarrow> bytes" 4
  by unfold_locales (auto simp: be_bytes_inject)

lemmas array_append_inject =
  hash_arr.append_inject pk_arr.append_inject sig_arr.append_inject addr_arr.append_inject
  u64_arr.append_inject u32_arr.append_inject

lemmas array_lengths [simp] =
  hash_arr.length_to_bytes pk_arr.length_to_bytes sig_arr.length_to_bytes
  addr_arr.length_to_bytes

lemma hash_from_bytes_of [bytes_simps]: "hash_from_bytes (hash_bytes_of h) = Inr h"
  by (cases h) (simp add: hash_from_bytes_def hash_bytes_of_def of_be_bytes_be_bytes)

lemma word_of_nat_u64_inject:
  "m < 2 ^ 64 \<Longrightarrow> n < 2 ^ 64 \<Longrightarrow> (word_of_nat m :: u64) = word_of_nat n \<longleftrightarrow> m = n"
  by (auto dest!: arg_cong [where f = unat] simp: unat_of_nat)

lemma word_of_nat_u32_inject:
  "m < 2 ^ 32 \<Longrightarrow> n < 2 ^ 32 \<Longrightarrow> (word_of_nat m :: u32) = word_of_nat n \<longleftrightarrow> m = n"
  by (auto dest!: arg_cong [where f = unat] simp: unat_of_nat)

lemma length_le_len [simp]: "length (le_len d) = 8"
  by (simp add: le_len_def)

lemma le_len_inject:
  "length d < 2 ^ 64 \<Longrightarrow> length d' < 2 ^ 64 \<Longrightarrow> le_len d = le_len d' \<longleftrightarrow> length d = length d'"
  by (simp add: le_len_def be_bytes_inject word_of_nat_u64_inject)

lemma domain_preimage_inject:
  assumes "length d < 2 ^ 64" and "length d' < 2 ^ 64"
  shows "domain_preimage d x = domain_preimage d' y \<longleftrightarrow> d = d' \<and> x = y"
  using assms by (auto simp: domain_preimage_def append_eq_append_conv le_len_inject)

lemma hash_two_eq:
  "hash_two E d l r = hash_with_domain E d (hash_bytes_of l @ hash_bytes_of r)"
  by (simp add: hash_two_def hash_with_domain_def domain_preimage_def)

text \<open>
  Documented behaviour of the hex crate: decoding yields one byte for two characters, and
  reads back what encoding wrote, with hexadecimal digits only (so no \<open>0x\<close> prefix).
\<close>

definition hex_laws :: "env \<Rightarrow> bool" where
  "hex_laws E \<longleftrightarrow>
     (\<forall>s bs. hex_decode E s = Inr bs \<longrightarrow> length s = 2 * length bs) \<and>
     (\<forall>bs. hex_decode E (hex_encode E bs) = Inr bs) \<and>
     (\<forall>bs. take 2 (hex_encode E bs) \<noteq> ''0x'')"

lemma hex_lawsD:
  assumes "hex_laws E"
  shows "hex_decode E s = Inr bs \<Longrightarrow> length s = 2 * length bs"
    and "hex_decode E (hex_encode E bs) = Inr bs"
    and "take 2 (hex_encode E bs) \<noteq> ''0x''"
    and "length (hex_encode E bs) = 2 * length bs"
  using assms unfolding hex_laws_def by blast+

lemma strip_0x_encode: "hex_laws E \<Longrightarrow> strip_0x (hex_encode E bs) = hex_encode E bs"
  by (simp add: strip_0x_def hex_lawsD)


section \<open>A sample environment\<close>

text \<open>
  Concrete stand-ins for the third-party functions, for evaluating examples only: nothing
  is claimed about the real ones beyond the hypotheses a statement names.
\<close>

fun sample_hex :: "bytes \<Rightarrow> string" where
  "sample_hex [] = []"
| "sample_hex (b # bs) = char_of (unat b) # CHR ''.'' # sample_hex bs"

fun sample_unhex :: "string \<Rightarrow> string + bytes" where
  "sample_unhex [] = Inr []"
| "sample_unhex [c] = Inl ''odd''"
| "sample_unhex (c # d # s) =
     (case sample_unhex s of Inl e \<Rightarrow> Inl e | Inr bs \<Rightarrow> Inr (word_of_nat (of_char c) # bs))"

definition toy_env :: env where
  "toy_env =
     \<lparr>prof = Debug, locks = rwlock, blake3 = of_be_bytes, vk_error = (\<lambda>_. None),
      verify_strict = (\<lambda>pk m s. s = of_be_bytes m), ed_public = (\<lambda>sk. sk),
      ed_sign = (\<lambda>sk m. of_be_bytes m), hmac512 = (\<lambda>k d. Some (of_be_bytes (k @ d))),
      hex_encode = sample_hex, hex_decode = sample_unhex, hrp_error = (\<lambda>_. None),
      bech32_encode = (\<lambda>hrp bs. Inr (hrp @ sample_hex bs)),
      bech32_decode = (\<lambda>s. case sample_unhex (drop 4 s) of
         Inl e \<Rightarrow> Inl e | Inr bs \<Rightarrow> Inr (take 4 s, bs))\<rparr>"

lemma toy_env_simps [simp]:
  "prof toy_env = Debug" "locks toy_env = rwlock" "blake3 toy_env = of_be_bytes"
  "vk_error toy_env pk = None" "verify_strict toy_env pk m s \<longleftrightarrow> s = of_be_bytes m"
  "ed_public toy_env sk = sk" "ed_sign toy_env sk m = of_be_bytes m"
  "hmac512 toy_env k d = Some (of_be_bytes (k @ d))"
  "hex_encode toy_env = sample_hex" "hex_decode toy_env = sample_unhex"
  by (simp_all add: toy_env_def)

lemma sample_unhex_hex [simp]: "sample_unhex (sample_hex bs) = Inr bs"
proof (induction bs)
  case (Cons b bs)
  have "unat b < 256" using unat_bound [of b] by simp
  with Cons show ?case by simp
qed simp

lemma sample_unhex_length: "sample_unhex s = Inr bs \<Longrightarrow> length s = 2 * length bs"
  by (induction s arbitrary: bs rule: sample_unhex.induct) (auto split: sum.splits)

lemma hex_laws_toy: "hex_laws toy_env"
proof -
  have "take 2 (sample_hex bs) \<noteq> ''0x''" for bs
    by (cases bs) auto
  then show ?thesis by (simp add: hex_laws_def sample_unhex_length)
qed

section \<open>Properties\<close>

text \<open>
  Hashing under a domain reads the domain and the data unambiguously: two calls agree
  on the bytes given to BLAKE3 only when domain and data agree, and the three-argument
  form for inner nodes is the general one on the concatenation.
\<close>
theorem domain_separation:
  assumes "length d < 2 ^ 64" and "length d' < 2 ^ 64"
  shows "(hash_with_domain E d x = hash_with_domain E d' y \<longleftrightarrow>
            blake3 E (domain_preimage d x) = blake3 E (domain_preimage d' y)) \<and>
         (domain_preimage d x = domain_preimage d' y \<longleftrightarrow> d = d' \<and> x = y) \<and>
         hash_two E d l r = hash_with_domain E d (hash_bytes_of l @ hash_bytes_of r)"
  using domain_preimage_inject [OF assms, of x y]
  by (simp add: hash_two_eq) (simp add: hash_with_domain_def)

theorem domain_separation_witness:
  "domain_preimage DOMAIN_TX [1] \<noteq> domain_preimage DOMAIN_VOTE [1]"
  using domain_separation [of DOMAIN_TX DOMAIN_VOTE toy_env "[1]" "[1]"]
  by (simp add: DOMAIN_TX_def DOMAIN_VOTE_def)

text \<open>
  With a hex codec that keeps its documented laws, reading a hash from text never
  panics, accepts what \<open>to_hex\<close> wrote with or without a \<open>0x\<close> prefix, and both wire forms
  read back the hash they were written from.
\<close>
theorem hash_text_roundtrip:
  assumes "hex_laws E"
  shows "hash_from_str E s \<noteq> None \<and>
    hash_from_str E (hash_to_hex E h) = Some (Inr h) \<and>
    hash_from_str E (''0x'' @ hash_to_hex E h) = Some (Inr h) \<and>
    hash_deserialize E (hash_serialize E human h) = Some (Some h)"
proof -
  have "Hash (of_be_bytes (hash_bytes_of h)) = h"
    by (cases h) (simp add: hash_bytes_of_def of_be_bytes_be_bytes)
  then have enc: "hash_from_str E (hash_to_hex E h) = Some (Inr h)"
    by (simp add: hash_from_str_def hash_to_hex_def strip_0x_encode [OF assms] Let_def
        hex_lawsD [OF assms] copy_from_slice_def)
  then have "hash_from_str E (''0x'' @ hash_to_hex E h) = Some (Inr h)"
    by (simp add: hash_from_str_def hash_to_hex_def strip_0x_encode [OF assms])
       (simp add: strip_0x_def)
  moreover have "hash_from_str E s \<noteq> None"
    by (auto simp: hash_from_str_def Let_def copy_from_slice_def split: sum.split
        dest: hex_lawsD(1) [OF assms])
  moreover have "hash_deserialize E (hash_serialize E human h) = Some (Some h)"
    using enc \<open>Hash (of_be_bytes (hash_bytes_of h)) = h\<close>
    by (simp add: hash_serialize_def hash_deserialize_def copy_from_slice_def)
  ultimately show ?thesis using enc by simp
qed

theorem hash_text_roundtrip_witness:
  "hex_laws toy_env \<and> hash_from_str toy_env (hash_to_hex toy_env (Hash 7)) = Some (Inr (Hash 7))"
  using hash_text_roundtrip [OF hex_laws_toy, of _ "Hash 7"] hex_laws_toy by blast

end
