(* ===== verification/Wallet.thy ===== *)
theory Wallet
  imports Crypto
begin

unbundle bit_operations_syntax

text \<open>
  \<open>aura-crypto/src/hd.rs\<close>: SLIP-0010 derivation of an Ed25519 key pair along
  \<open>m/44'/1234'/account'/change'/index'\<close>.
\<close>

definition AURA_COIN_TYPE :: u32 where "AURA_COIN_TYPE = 1234"
definition ED25519_KEY :: bytes where "ED25519_KEY = str_bytes ''ed25519 seed''"

datatype hd_error = InvalidMnemonic string | InvalidDerivationPath string | HmacError

definition hardened :: "u32 \<Rightarrow> u32" where
  "hardened i = i OR 0x80000000"

definition hd_path :: "u32 \<Rightarrow> u32 \<Rightarrow> u32 \<Rightarrow> u32 list" where
  "hd_path account change index =
     [hardened 44, hardened AURA_COIN_TYPE, hardened account, hardened change, hardened index]"

text \<open>One round: the key and chain code are the two halves of the MAC.\<close>

definition split_mac :: "512 word \<Rightarrow> bytes \<times> bytes" where
  "split_mac m = (take 32 (be_bytes 64 m), drop 32 (be_bytes 64 m))"

fun derive_path :: "env \<Rightarrow> bytes \<times> bytes \<Rightarrow> u32 list \<Rightarrow> hd_error + bytes \<times> bytes" where
  "derive_path E (key, chain_code) [] = Inr (key, chain_code)"
| "derive_path E (key, chain_code) (child_index # path) =
     (case hmac512 E chain_code (0 # key @ be_bytes 4 child_index) of
        None \<Rightarrow> Inl HmacError
      | Some child_out \<Rightarrow> derive_path E (split_mac child_out) path)"

definition derive_keypair ::
  "env \<Rightarrow> 512 word \<Rightarrow> u32 \<Rightarrow> u32 \<Rightarrow> u32 \<Rightarrow> hd_error + key_pair" where
  "derive_keypair E seed account change index =
     (case hmac512 E ED25519_KEY (be_bytes 64 seed) of
        None \<Rightarrow> Inl HmacError
      | Some master \<Rightarrow>
          (case derive_path E (split_mac master) (hd_path account change index) of
             Inl e \<Rightarrow> Inl e
           | Inr (key, chain_code) \<Rightarrow> Inr (keypair_from_secret_bytes E (of_be_bytes key))))"

text \<open>
  Mnemonic phrases are those of the \<open>bip39\<close> crate, a parameter: \<open>new_phrase\<close> makes a phrase of
  so many words from the random bytes drawn, \<open>from_phrase\<close> checks one, \<open>phrase_seed\<close> is the
  seed of a phrase and a password.
\<close>

record 'm bip39 =
  new_phrase :: "nat \<Rightarrow> bytes \<Rightarrow> string"
  from_phrase :: "string \<Rightarrow> string + 'm"
  phrase_seed :: "'m \<Rightarrow> string \<Rightarrow> bytes"

definition generate_mnemonic :: "'m bip39 \<Rightarrow> bytes \<Rightarrow> nat \<Rightarrow> hd_error + string" where
  "generate_mnemonic B drawn word_count =
     (if word_count = 12 \<or> word_count = 24 then Inr (new_phrase B word_count drawn)
      else Inl (InvalidMnemonic ''supported word counts are 12 and 24''))"

definition seed_from_mnemonic :: "'m bip39 \<Rightarrow> string \<Rightarrow> string \<Rightarrow> (hd_error + 512 word) option" where
  "seed_from_mnemonic B mnemonic_str passphrase =
     (case from_phrase B mnemonic_str of
        Inl e \<Rightarrow> Some (Inl (InvalidMnemonic e))
      | Inr m \<Rightarrow> map_option Inr (copy_from_slice 64 (phrase_seed B m passphrase)))"

text \<open>
  Documented behaviour of the crate: a phrase it makes is one it accepts, and seeds have
  64 bytes.
\<close>

definition bip39_laws :: "'m bip39 \<Rightarrow> bool" where
  "bip39_laws B \<longleftrightarrow>
     (\<forall>n drawn. n = 12 \<or> n = 24 \<longrightarrow> (\<exists>m. from_phrase B (new_phrase B n drawn) = Inr m)) \<and>
     (\<forall>m pass. length (phrase_seed B m pass) = 64)"

lemma mnemonic_seed:
  assumes "bip39_laws B" and "generate_mnemonic B drawn n = Inr phrase"
  shows "\<exists>seed. seed_from_mnemonic B phrase pass = Some (Inr seed)"
proof -
  have n: "n = 12 \<or> n = 24" "phrase = new_phrase B n drawn"
    using assms(2) by (auto simp: generate_mnemonic_def split: if_splits)
  then obtain m where "from_phrase B phrase = Inr m" using assms(1) unfolding bip39_laws_def by blast
  moreover have "length (phrase_seed B m pass) = 64" using assms(1) by (simp add: bip39_laws_def)
  ultimately show ?thesis by (simp add: seed_from_mnemonic_def copy_from_slice_def)
qed

lemma derive_path_total:
  assumes "\<And>k d. hmac512 E k d \<noteq> None"
  shows "\<exists>kc. derive_path E (key, cc) path = Inr kc"
  using assms by (induction path arbitrary: key cc) (auto simp: split_mac_def split: option.split)

lemma derive_keypair_total:
  "(\<And>k d. hmac512 E k d \<noteq> None) \<Longrightarrow> \<exists>kp. derive_keypair E seed account change index = Inr kp"
  using derive_path_total [of E] unfolding derive_keypair_def
  by (auto simp: split_mac_def split: option.split sum.split) (metis Inl_Inr_False)

lemma hardened_idem: "hardened (hardened i) = hardened i"
  by (simp add: hardened_def or.assoc)

lemma hardened_top_bit: "bit (hardened i) 31"
proof -
  have "bit (0x80000000 :: u32) 31" by simp
  then show ?thesis by (simp add: hardened_def bit_or_iff)
qed

text \<open>
  With an HMAC that accepts keys of any length, derivation never fails, every index of
  the path is hardened, and an index with its top bit already set derives the same key pair
  as the index without it.
\<close>
theorem derive_keypair_hardened:
  assumes "\<And>k d. hmac512 E k d \<noteq> None"
  shows "(\<exists>kp. derive_keypair E seed account change index = Inr kp) \<and>
    (\<forall>i \<in> set (hd_path account change index). bit i 31) \<and>
    derive_keypair E seed (hardened account) (hardened change) (hardened index) =
      derive_keypair E seed account change index"
proof -
  obtain m where m: "hmac512 E ED25519_KEY (be_bytes 64 seed) = Some m"
    using assms by blast
  obtain k c where "derive_path E (split_mac m) (hd_path account change index) = Inr (k, c)"
    using derive_path_total [OF assms] by (metis split_mac_def surj_pair)
  with m show ?thesis
    by (auto simp: derive_keypair_def hd_path_def hardened_idem hardened_top_bit)
qed

theorem derive_keypair_hardened_witness:
  "bit (hd (hd_path 0 0 7)) 31 \<and>
   derive_keypair toy_env 9 (hardened 0) (hardened 0) (hardened 7) = derive_keypair toy_env 9 0 0 7"
  using derive_keypair_hardened [of toy_env 9 0 0 7] by (simp add: hd_path_def)

end
