(* ===== verification/Wal.thy ===== *)
theory Wal
  imports Crypto "HOL-Library.Sublist"
begin

text \<open>
  \<open>aura-storage/src/wal.rs\<close>: the write-ahead log. The file is its bytes (\<open>None\<close> when the
  path does not exist yet); the CRC of \<open>crc32fast\<close> is a parameter \<open>crc\<close>. Every operation
  holds the one mutex for its whole body and seeks before it reads or writes, so the file
  position is not part of the state. An interrupted write leaves a prefix of what was
  being written: the argument \<open>fault\<close> of an append is the number of bytes that reached the
  disk when the call failed.
\<close>

definition WAL_MAGIC :: bytes where
  "WAL_MAGIC = str_bytes ''AWAL''"

datatype wal_error = WalIo | InvalidMagic | CorruptedRecord

section \<open>Operations\<close>

definition wal_open :: "bytes option \<Rightarrow> bytes" where
  "wal_open f = (case f of None \<Rightarrow> WAL_MAGIC | Some bs \<Rightarrow> if length bs = 0 then WAL_MAGIC else bs)"

definition wal_frame :: "(bytes \<Rightarrow> u32) \<Rightarrow> bytes \<Rightarrow> bytes" where
  "wal_frame crc rec_bytes =
     be_bytes 4 (word_of_nat (length rec_bytes) :: u32) @ be_bytes 4 (crc rec_bytes) @ rec_bytes"

definition wal_append ::
  "(bytes \<Rightarrow> u32) \<Rightarrow> nat option \<Rightarrow> bytes \<Rightarrow> bytes \<Rightarrow> (wal_error + unit) \<times> bytes" where
  "wal_append crc fault rec_bytes file =
     (case fault of
        None \<Rightarrow> (Inr (), file @ wal_frame crc rec_bytes)
      | Some n \<Rightarrow> (Inl WalIo, file @ take n (wal_frame crc rec_bytes)))"

text \<open>One turn of the recovery loop: a valid record and the rest, or the \<open>break\<close>.\<close>

definition wal_read_record :: "(bytes \<Rightarrow> u32) \<Rightarrow> bytes \<Rightarrow> (bytes \<times> bytes) option" where
  "wal_read_record crc bs =
     (case read_exact 4 bs of
        None \<Rightarrow> None
      | Some (len_buf, bs1) \<Rightarrow>
          (case read_exact 4 bs1 of
             None \<Rightarrow> None
           | Some (crc_buf, bs2) \<Rightarrow>
               (case read_exact (unat (of_be_bytes len_buf :: u32)) bs2 of
                  None \<Rightarrow> None
                | Some (payload, bs3) \<Rightarrow>
                    if crc payload \<noteq> of_be_bytes crc_buf then None else Some (payload, bs3))))"

lemma wal_read_record_shrinks:
  "wal_read_record crc bs = Some (payload, rest) \<Longrightarrow> length bs = 8 + length payload + length rest"
  by (auto simp: wal_read_record_def read_exact_def split: if_splits)

function wal_recover_loop ::
  "(bytes \<Rightarrow> u32) \<Rightarrow> bytes \<Rightarrow> bytes list \<Rightarrow> nat \<Rightarrow> bytes list \<times> nat" where
  "wal_recover_loop crc bs records off =
     (case wal_read_record crc bs of
        None \<Rightarrow> (records, off)
      | Some (payload, rest) \<Rightarrow>
          wal_recover_loop crc rest (records @ [payload]) (off + (8 + length payload)))"
  by pat_completeness auto

termination
  by (relation "measure (\<lambda>(crc, bs, records, off). length bs)")
     (auto dest: wal_read_record_shrinks)

declare wal_recover_loop.simps [simp del]

definition wal_recover :: "(bytes \<Rightarrow> u32) \<Rightarrow> bytes \<Rightarrow> (wal_error + bytes list) \<times> bytes" where
  "wal_recover crc file =
     (case read_exact 4 file of
        None \<Rightarrow> (Inl InvalidMagic, file)
      | Some (magic, rest) \<Rightarrow>
          if magic \<noteq> WAL_MAGIC then (Inl InvalidMagic, file)
          else let (records, last_valid_offset) = wal_recover_loop crc rest [] 4
               in (Inr records, take last_valid_offset file))"

section \<open>Reading frames\<close>

definition frames :: "(bytes \<Rightarrow> u32) \<Rightarrow> bytes list \<Rightarrow> bytes" where
  "frames crc rs = concat (map (wal_frame crc) rs)"

lemma frames_simps [simp]:
  "frames crc [] = []" "frames crc (r # rs) = wal_frame crc r @ frames crc rs"
  "frames crc (rs @ ss) = frames crc rs @ frames crc ss"
  by (simp_all add: frames_def)

lemma length_WAL_MAGIC [simp]: "length WAL_MAGIC = 4"
  by (simp add: WAL_MAGIC_def)

lemma length_wal_frame [simp]: "length (wal_frame crc r) = 8 + length r"
  by (simp add: wal_frame_def)

lemma unat_len_u32: "length r < 2 ^ 32 \<Longrightarrow> unat (word_of_nat (length r) :: u32) = length r"
  by (simp add: unat_of_nat)

lemma wal_read_record_frame:
  "length r < 2 ^ 32 \<Longrightarrow> wal_read_record crc (wal_frame crc r @ bs) = Some (r, bs)"
  by (simp add: wal_read_record_def wal_frame_def read_exact_append of_be_bytes_be_bytes
      unat_len_u32)

lemma word_of_nat_unat: "word_of_nat (unat w) = (w :: 'a::len word)"
  by simp

lemma be_bytes_take_u32: "4 \<le> length bs \<Longrightarrow> be_bytes 4 (of_be_bytes (take 4 bs) :: u32) = take 4 bs"
  by (rule be_bytes_of_be_bytes) simp_all

lemma wal_read_record_SomeD:
  assumes "wal_read_record crc bs = Some (r, rest)"
  shows "bs = wal_frame crc r @ rest \<and> length r < 2 ^ 32"
proof -
  let ?len = "of_be_bytes (take 4 bs) :: u32"
  from assms have len: "4 \<le> length bs" "4 \<le> length (drop 4 bs)"
      "unat ?len \<le> length (drop 4 (drop 4 bs))"
    and r: "r = take (unat ?len) (drop 4 (drop 4 bs))"
    and rest: "rest = drop (unat ?len) (drop 4 (drop 4 bs))"
    and crc: "crc r = of_be_bytes (take 4 (drop 4 bs))"
    by (auto simp: wal_read_record_def read_exact_def not_less split: if_splits)
  have lr: "length r = unat ?len" using len(3) by (simp add: r)
  have "wal_frame crc r = take 4 bs @ take 4 (drop 4 bs) @ r"
    unfolding wal_frame_def lr crc by (simp only: be_bytes_take_u32 [OF len(1)]
        be_bytes_take_u32 [OF len(2)] word_of_nat_unat)
  moreover have "r @ rest = drop 4 (drop 4 bs)" unfolding r rest by (rule append_take_drop_id)
  ultimately have "wal_frame crc r @ rest = bs"
    by (simp only: append_assoc append_take_drop_id)
  with lr unat_bound [of ?len] show ?thesis by simp
qed

lemma wal_read_record_None_prefix:
  assumes "n < length (wal_frame crc r)" and "length r < 2 ^ 32"
  shows "wal_read_record crc (take n (wal_frame crc r)) = None"
proof (rule ccontr)
  assume "wal_read_record crc (take n (wal_frame crc r)) \<noteq> None"
  then obtain s rest where "wal_read_record crc (take n (wal_frame crc r)) = Some (s, rest)" by auto
  from wal_read_record_SomeD [OF this]
  have s: "take n (wal_frame crc r) = wal_frame crc s @ rest" "length s < 2 ^ 32" by auto
  then have "wal_frame crc r = wal_frame crc s @ rest @ drop n (wal_frame crc r)"
    by (metis append_assoc append_take_drop_id)
  then have "wal_read_record crc (wal_frame crc r @ []) =
      wal_read_record crc (wal_frame crc s @ rest @ drop n (wal_frame crc r))" by simp
  then have "(r, []) = (s, rest @ drop n (wal_frame crc r))"
    unfolding wal_read_record_frame [OF assms(2)] wal_read_record_frame [OF s(2)] by auto
  then have "r = s" "drop n (wal_frame crc r) = []" by auto
  with assms(1) show False by (simp del: length_wal_frame)
qed

lemma wal_recover_loop_frames:
  "list_all (\<lambda>r. length r < 2 ^ 32) rs \<Longrightarrow>
     wal_recover_loop crc (frames crc rs @ bs) acc off =
       wal_recover_loop crc bs (acc @ rs) (off + length (frames crc rs))"
proof (induction rs arbitrary: acc off)
  case (Cons r rs)
  then show ?case
    by (subst wal_recover_loop.simps) (simp add: wal_read_record_frame add.assoc)
qed simp

lemma wal_recover_loop_stop:
  "wal_read_record crc bs = None \<Longrightarrow> wal_recover_loop crc bs acc off = (acc, off)"
  by (subst wal_recover_loop.simps) simp

lemma wal_recover_loop_result:
  "wal_recover_loop crc bs acc off = (records, off') \<Longrightarrow>
     \<exists>rs tail. records = acc @ rs \<and> list_all (\<lambda>r. length r < 2 ^ 32) rs \<and>
       bs = frames crc rs @ tail \<and> wal_read_record crc tail = None \<and>
       off' = off + length (frames crc rs)"
proof (induction crc bs acc off rule: wal_recover_loop.induct)
  case (1 crc bs acc off)
  show ?case
  proof (cases "wal_read_record crc bs")
    case None
    with 1(2) show ?thesis
      by (intro exI [of _ "[]"] exI [of _ bs]) (simp add: wal_recover_loop_stop)
  next
    case (Some pr)
    then obtain r rest where r: "wal_read_record crc bs = Some (r, rest)" by (cases pr) auto
    from 1(2) r have "wal_recover_loop crc rest (acc @ [r]) (off + (8 + length r)) = (records, off')"
      by (subst (asm) wal_recover_loop.simps) simp
    from 1(1) [OF r refl this] obtain rs tail where "records = (acc @ [r]) @ rs"
      "list_all (\<lambda>r. length r < 2 ^ 32) rs" "rest = frames crc rs @ tail"
      "wal_read_record crc tail = None" "off' = off + (8 + length r) + length (frames crc rs)"
      by blast
    with wal_read_record_SomeD [OF r] show ?thesis
      by (intro exI [of _ "r # rs"]) auto
  qed
qed

text \<open>A well-formed log followed by a tail at which the loop breaks.\<close>

lemma wal_recover_log:
  assumes "list_all (\<lambda>r. length r < 2 ^ 32) rs" and "wal_read_record crc tail = None"
  shows "wal_recover crc (WAL_MAGIC @ frames crc rs @ tail) = (Inr rs, WAL_MAGIC @ frames crc rs)"
  using assms
  by (simp add: wal_recover_def read_exact_append wal_recover_loop_frames wal_recover_loop_stop)

lemma wal_read_record_Nil [simp]: "wal_read_record crc [] = None"
  by (simp add: wal_read_record_def read_exact_def)

lemma wal_recover_InrD:
  assumes "wal_recover crc file = (Inr rs, file')"
  obtains tail where "file = WAL_MAGIC @ frames crc rs @ tail" "file' = WAL_MAGIC @ frames crc rs"
    "wal_read_record crc tail = None" "list_all (\<lambda>r. length r < 2 ^ 32) rs"
proof -
  from assms have len: "length file \<ge> 4" and magic: "take 4 file = WAL_MAGIC"
    by (auto simp: wal_recover_def read_exact_def split: if_splits)
  obtain rec' off where loop: "wal_recover_loop crc (drop 4 file) [] 4 = (rec', off)" by fastforce
  with assms len magic have rs: "rec' = rs" "file' = take off file"
    by (auto simp: wal_recover_def read_exact_def)
  from wal_recover_loop_result [OF loop] rs obtain tail where
    tail: "list_all (\<lambda>r. length r < 2 ^ 32) rs" "drop 4 file = frames crc rs @ tail"
      "wal_read_record crc tail = None" "off = 4 + length (frames crc rs)" by auto
  have "file = WAL_MAGIC @ frames crc rs @ tail"
    using magic tail(2) by (metis append_take_drop_id)
  with tail rs that show ?thesis by simp
qed

definition wal_append_all :: "(bytes \<Rightarrow> u32) \<Rightarrow> bytes list \<Rightarrow> bytes \<Rightarrow> bytes" where
  "wal_append_all crc rs file = fold (\<lambda>r f. snd (wal_append crc None r f)) rs file"

lemma wal_append_all_frames: "wal_append_all crc rs file = file @ frames crc rs"
  unfolding wal_append_all_def
  by (induction rs arbitrary: "file") (simp_all add: wal_append_def)

section \<open>Properties\<close>

text \<open>
  A new log to which records of less than four gigabytes were appended recovers to
  exactly those records, in order, and recovery leaves the file as it was.
\<close>
theorem wal_append_recover:
  assumes "list_all (\<lambda>r. length r < 2 ^ 32) rs"
  shows "wal_recover crc (wal_append_all crc rs (wal_open None)) =
    (Inr rs, wal_append_all crc rs (wal_open None))"
  using wal_recover_log [OF assms wal_read_record_Nil, of crc]
  by (simp add: wal_append_all_frames wal_open_def)

text \<open>
  C20: an append that a crash interrupted anywhere before its last byte is undone by
  recovery: the earlier records come back, the torn bytes are cut off, and the next
  append and recovery give the earlier records followed by the new one.
\<close>
theorem wal_crash_recovery:
  assumes "list_all (\<lambda>r. length r < 2 ^ 32) rs" and "length r < 2 ^ 32" and "length r' < 2 ^ 32"
    and "n < length (wal_frame crc r)"
  shows "let file = wal_append_all crc rs (wal_open None);
             torn = snd (wal_append crc (Some n) r file)
         in wal_recover crc torn = (Inr rs, file) \<and>
            fst (wal_recover crc (snd (wal_append crc None r' (snd (wal_recover crc torn))))) =
              Inr (rs @ [r'])"
proof -
  have "wal_recover crc (WAL_MAGIC @ frames crc rs @ take n (wal_frame crc r)) =
      (Inr rs, WAL_MAGIC @ frames crc rs)"
    using assms wal_recover_log wal_read_record_None_prefix by blast
  moreover have "wal_recover crc (WAL_MAGIC @ frames crc (rs @ [r']) @ []) =
      (Inr (rs @ [r']), WAL_MAGIC @ frames crc (rs @ [r']))"
    using assms by (intro wal_recover_log) simp_all
  ultimately show ?thesis
    by (simp add: wal_append_all_frames wal_open_def wal_append_def Let_def)
qed

text \<open>
  Whatever bytes a file holds, recovery fails only on a bad magic, leaving it
  unchanged; otherwise the file is cut to the longest prefix of intact records, each
  returned record has the checksum stored with it, and recovering again changes nothing.
\<close>
theorem wal_recover_sound:
  shows "if take 4 file = WAL_MAGIC
    then \<exists>rs tail. wal_recover crc file = (Inr rs, WAL_MAGIC @ frames crc rs) \<and>
       file = WAL_MAGIC @ frames crc rs @ tail \<and> wal_read_record crc tail = None \<and>
       wal_recover crc (WAL_MAGIC @ frames crc rs) = (Inr rs, WAL_MAGIC @ frames crc rs)
    else wal_recover crc file = (Inl InvalidMagic, file)"
proof (cases "take 4 file = WAL_MAGIC")
  case False
  then show ?thesis by (simp add: wal_recover_def read_exact_def)
next
  case True
  then have "length file \<ge> 4" by (metis length_WAL_MAGIC length_take min.cobounded1)
  moreover obtain rs off where "wal_recover_loop crc (drop 4 file) [] 4 = (rs, off)" by fastforce
  ultimately have "wal_recover crc file = (Inr rs, take off file)"
    using True by (simp add: wal_recover_def read_exact_def)
  then show ?thesis
    by (rule wal_recover_InrD)
       (use True \<open>wal_recover crc file = (Inr rs, take off file)\<close> wal_recover_log [of rs crc "[]"] in simp)
qed

text \<open>
  One record whose stored checksum does not match its bytes ends recovery: every
  record behind it is cut off as well, intact or not.
\<close>
theorem wal_corrupt_record_truncates:
  assumes "list_all (\<lambda>r. length r < 2 ^ 32) rs" and "length bad < 2 ^ 32"
    and "crc bad \<noteq> stored"
  shows "wal_recover crc (WAL_MAGIC @ frames crc rs @
      (be_bytes 4 (word_of_nat (length bad) :: u32) @ be_bytes 4 stored @ bad) @ frames crc later) =
    (Inr rs, WAL_MAGIC @ frames crc rs)"
proof (rule wal_recover_log [OF assms(1)])
  show "wal_read_record crc
      ((be_bytes 4 (word_of_nat (length bad) :: u32) @ be_bytes 4 stored @ bad) @ frames crc later) = None"
    using assms(2,3)
    by (simp add: wal_read_record_def read_exact_append of_be_bytes_be_bytes unat_len_u32)
qed

section \<open>Examples\<close>

definition sample_crc :: "bytes \<Rightarrow> u32" where
  "sample_crc bs = ucast (sum_list bs)"

theorem wal_append_recover_witness:
  "fst (wal_recover sample_crc (wal_append_all sample_crc [[1, 2], []] (wal_open None))) =
     Inr [[1, 2], []]"
  using wal_append_recover [of "[[1, 2], []]" sample_crc] by simp

theorem wal_crash_recovery_witness:
  "wal_recover sample_crc (snd (wal_append sample_crc (Some 9) [3, 4]
       (wal_append_all sample_crc [[1]] (wal_open None)))) =
     (Inr [[1]], wal_append_all sample_crc [[1]] (wal_open None))"
  using wal_crash_recovery [of "[[1]]" "[3, 4]" "[5]" 9 sample_crc] by (simp add: Let_def)

theorem wal_corrupt_record_truncates_witness:
  "fst (wal_recover sample_crc (WAL_MAGIC @ frames sample_crc [[1]] @
      (be_bytes 4 (word_of_nat (length [2 :: u8]) :: u32) @ be_bytes 4 (9 :: u32) @ [2]) @
      frames sample_crc [[3]])) = Inr [[1]]"
  using wal_corrupt_record_truncates [of "[[1]]" "[2]" sample_crc 9 "[[3]]"]
  by (simp add: sample_crc_def)

end
