(* ===== verification/Merkle.thy ===== *)
theory Merkle
  imports Crypto
begin

text \<open>
  \<open>aura-primitives/src/merkle.rs\<close>: leaf and node hashing, the tree as the list of its
  levels, proof generation and verification. Indexing a level out of range panics in the
  code, so generating a path is partial (\<open>None\<close>).
\<close>

record merkle_proof =
  leaf_index :: nat
  total_leaves :: nat
  audit_path :: "(hash \<times> bool) list"

record merkle_tree =
  leaves :: "hash list"
  levels :: "hash list list"

definition leaf_input :: "bytes \<Rightarrow> bytes" where
  "leaf_input data = domain_preimage DOMAIN_MERKLE_LEAF (0x00 # data)"

definition hash_leaf :: "env \<Rightarrow> bytes \<Rightarrow> hash" where
  "hash_leaf E data = hash_with_domain E DOMAIN_MERKLE_LEAF (0x00 # data)"

definition node_input :: "hash \<Rightarrow> hash \<Rightarrow> bytes" where
  "node_input l r = domain_preimage DOMAIN_MERKLE_NODE (0x01 # hash_bytes_of l @ hash_bytes_of r)"

definition hash_internal_node :: "env \<Rightarrow> hash \<Rightarrow> hash \<Rightarrow> hash" where
  "hash_internal_node E l r =
     hash_with_domain E DOMAIN_MERKLE_NODE (0x01 # hash_bytes_of l @ hash_bytes_of r)"

section \<open>Verification\<close>

fun climb :: "env \<Rightarrow> hash \<Rightarrow> (hash \<times> bool) list \<Rightarrow> hash" where
  "climb E current [] = current"
| "climb E current ((sibling, is_sibling_right) # path) =
     climb E (if is_sibling_right then hash_internal_node E current sibling
              else hash_internal_node E sibling current) path"

definition proof_verify :: "env \<Rightarrow> merkle_proof \<Rightarrow> hash \<Rightarrow> bytes \<Rightarrow> bool" where
  "proof_verify E p expected_root leaf_data \<longleftrightarrow>
     climb E (hash_leaf E leaf_data) (audit_path p) = expected_root"

section \<open>Construction\<close>

fun next_level :: "env \<Rightarrow> hash list \<Rightarrow> hash list" where
  "next_level E (a # b # rest) = hash_internal_node E a b # next_level E rest"
| "next_level E [a] = [hash_internal_node E a a]"
| "next_level E [] = []"

lemma length_next_level [simp]: "length (next_level E xs) = (length xs + 1) div 2"
  by (induction E xs rule: next_level.induct) auto

function build_levels :: "env \<Rightarrow> hash list \<Rightarrow> hash list list" where
  "build_levels E level =
     (if 1 < length level then level # build_levels E (next_level E level) else [level])"
  by pat_completeness auto
termination
  by (relation "measure (\<lambda>(E, level). length level)") auto

declare build_levels.simps [simp del]

definition from_leaf_hashes :: "env \<Rightarrow> hash list \<Rightarrow> merkle_tree" where
  "from_leaf_hashes E ls =
     (if ls = [] then \<lparr>leaves = [], levels = [[HASH_ZERO]]\<rparr>
      else \<lparr>leaves = ls, levels = build_levels E ls\<rparr>)"

definition from_leaf_payloads :: "env \<Rightarrow> bytes list \<Rightarrow> merkle_tree" where
  "from_leaf_payloads E payloads = from_leaf_hashes E (map (hash_leaf E) payloads)"

definition tree_root :: "merkle_tree \<Rightarrow> hash" where
  "tree_root t =
     (if levels t = [] then HASH_ZERO
      else case last (levels t) of [] \<Rightarrow> HASH_ZERO | h # _ \<Rightarrow> h)"

fun audit_from :: "hash list list \<Rightarrow> nat \<Rightarrow> (hash \<times> bool) list option" where
  "audit_from [] index = Some []"
| "audit_from (level # rest) index =
     (let is_right = (index mod 2 = 0);
          sibling = (if is_right then (if index + 1 < length level then index + 1 else index)
                     else index - 1)
      in if sibling < length level
         then map_option (\<lambda>p. (level ! sibling, is_right) # p) (audit_from rest (index div 2))
         else None)"

definition generate_proof :: "merkle_tree \<Rightarrow> nat \<Rightarrow> merkle_proof option option" where
  "generate_proof t i =
     (if length (leaves t) \<le> i then Some None
      else map_option
        (\<lambda>path. Some \<lparr>leaf_index = i, total_leaves = length (leaves t), audit_path = path\<rparr>)
        (audit_from (butlast (levels t)) i))"

section \<open>Lemmas\<close>

lemma next_level_nth:
  "j < (length xs + 1) div 2 \<Longrightarrow>
     next_level E xs ! j =
       hash_internal_node E (xs ! (2 * j)) (xs ! (if 2 * j + 1 < length xs then 2 * j + 1 else 2 * j))"
proof (induction E xs arbitrary: j rule: next_level.induct)
  case (1 E a b rest)
  then show ?case by (cases j) auto
qed auto

lemma build_levels_ne [simp]: "build_levels E level \<noteq> []"
  by (subst build_levels.simps) simp

lemma last_build_levels: "level \<noteq> [] \<Longrightarrow> \<exists>h. last (build_levels E level) = [h]"
proof (induction E level rule: build_levels.induct)
  case (1 E level)
  show ?case
  proof (cases "1 < length level")
    case True
    then have "length (next_level E level) \<noteq> 0" by simp
    then have "next_level E level \<noteq> []" by (metis list.size(3))
    with 1 True show ?thesis by (subst build_levels.simps) simp
  next
    case False
    with 1 obtain h where "level = [h]" by (cases level) auto
    then show ?thesis by (simp add: build_levels.simps)
  qed
qed

text \<open>The pair of nodes an audit path joins at one level is the next level's entry.\<close>

lemma climb_build_levels:
  "i < length level \<Longrightarrow>
     \<exists>path. audit_from (butlast (build_levels E level)) i = Some path \<and>
            climb E (level ! i) path = hd (last (build_levels E level))"
proof (induction E level arbitrary: i rule: build_levels.induct)
  case (1 E level)
  show ?case
  proof (cases "1 < length level")
    case False
    with "1.prems" obtain h where "level = [h]" by (cases level) auto
    with "1.prems" show ?thesis by (simp add: build_levels.simps)
  next
    case True
    let ?next = "next_level E level"
    have i2: "i div 2 < length ?next" using "1.prems" by simp
    from "1.IH" [OF True i2] obtain path where
      path: "audit_from (butlast (build_levels E ?next)) (i div 2) = Some path"
        "climb E (?next ! (i div 2)) path = hd (last (build_levels E ?next))" by blast
    have unfold: "build_levels E level = level # build_levels E ?next"
      using True by (subst build_levels.simps) simp
    show ?thesis
    proof (cases "even i")
      case even: True
      then have "2 * (i div 2) = i" by simp
      with path even "1.prems" show ?thesis
        by (auto simp: unfold next_level_nth Let_def)
    next
      case odd: False
      then have "2 * (i div 2) = i - 1" "2 * (i div 2) + 1 = i" "0 < i" by presburger+
      with path odd "1.prems" show ?thesis
        by (auto simp: unfold next_level_nth Let_def)
    qed
  qed
qed

lemma tree_root_from_leaf_hashes:
  "ls \<noteq> [] \<Longrightarrow> tree_root (from_leaf_hashes E ls) = hd (last (build_levels E ls))"
  using last_build_levels [of ls E] by (auto simp: tree_root_def from_leaf_hashes_def)

lemma generate_proof_climb:
  assumes "i < length ls"
  shows "\<exists>p. generate_proof (from_leaf_hashes E ls) i = Some (Some p) \<and>
             climb E (ls ! i) (audit_path p) = tree_root (from_leaf_hashes E ls)"
proof -
  from assms have ne: "ls \<noteq> []" by auto
  obtain path where "audit_from (butlast (build_levels E ls)) i = Some path"
    "climb E (ls ! i) path = hd (last (build_levels E ls))"
    using climb_build_levels [OF assms] by blast
  with assms ne show ?thesis
    by (simp add: generate_proof_def tree_root_from_leaf_hashes) (simp add: from_leaf_hashes_def)
qed

lemma next_level_duplicate_last:
  "odd (length xs) \<Longrightarrow> next_level E (xs @ [last xs]) = next_level E xs"
  by (induction E xs rule: next_level.induct) auto

section \<open>Binding\<close>

text \<open>
  A collision finder: given two leaf hashes and two audit paths of the same shape, the
  first level at which both climbs meet shows two different inputs of BLAKE3.
\<close>

definition step_input :: "hash \<Rightarrow> hash \<Rightarrow> bool \<Rightarrow> bytes" where
  "step_input current sibling right =
     (if right then node_input current sibling else node_input sibling current)"

fun clash :: "env \<Rightarrow> hash \<Rightarrow> hash \<Rightarrow> (hash \<times> bool) list \<Rightarrow> (hash \<times> bool) list
  \<Rightarrow> (bytes \<times> bytes) option" where
  "clash E a b ((s, r) # p) ((t, q) # p') =
     (if blake3 E (step_input a s r) = blake3 E (step_input b t q)
      then Some (step_input a s r, step_input b t q)
      else clash E (Hash (blake3 E (step_input a s r))) (Hash (blake3 E (step_input b t q))) p p')"
| "clash E a b p p' = None"

definition blake3_collision :: "env \<Rightarrow> bytes \<Rightarrow> bytes \<Rightarrow> bool" where
  "blake3_collision E x y \<longleftrightarrow> x \<noteq> y \<and> blake3 E x = blake3 E y"

lemma node_input_inject: "node_input l r = node_input l' r' \<longleftrightarrow> l = l' \<and> r = r'"
  by (auto simp: node_input_def domain_preimage_def array_append_inject
      dest: hash_arr.to_bytes_inject)

lemma step_input_inject:
  "step_input a s r = step_input b t r \<Longrightarrow> a = b"
  by (auto simp: step_input_def node_input_inject split: if_splits)

lemma climb_step:
  "climb E a ((s, r) # p) = climb E (Hash (blake3 E (step_input a s r))) p"
  by (simp add: step_input_def hash_internal_node_def node_input_def hash_with_domain_def)

lemma clash_sound:
  assumes "a \<noteq> b" and "map snd p = map snd p'" and "climb E a p = climb E b p'"
  shows "\<exists>x y. clash E a b p p' = Some (x, y) \<and> blake3_collision E x y"
  using assms
proof (induction p arbitrary: a b p')
  case Nil
  then show ?case by simp
next
  case (Cons sr p)
  obtain s r where sr: "sr = (s, r)" by (cases sr)
  from Cons.prems(2) obtain t p2 where p': "p' = (t, r) # p2" "map snd p = map snd p2"
    by (cases p') (auto simp: sr)
  let ?x = "step_input a s r" and ?y = "step_input b t r"
  show ?case
  proof (cases "blake3 E ?x = blake3 E ?y")
    case True
    moreover have "?x \<noteq> ?y" using Cons.prems(1) step_input_inject by blast
    ultimately show ?thesis by (simp add: sr p' blake3_collision_def)
  next
    case False
    have "climb E (Hash (blake3 E ?x)) p = climb E (Hash (blake3 E ?y)) p2"
      using Cons.prems(3) by (simp only: sr p' climb_step)
    from Cons.IH [OF _ p'(2) this] False show ?thesis by (simp add: sr p')
  qed
qed


text \<open>
  A level of odd length is completed by repeating its last entry, so three or more leaves
  of odd number have the same root as the leaves with the last one repeated.
\<close>

lemma tree_root_duplicate_last:
  assumes "odd (length ls)" and "1 < length ls"
  shows "tree_root (from_leaf_hashes E (ls @ [last ls])) = tree_root (from_leaf_hashes E ls)"
proof -
  have ne: "ls \<noteq> []" using assms by auto
  have "build_levels E (ls @ [last ls]) = (ls @ [last ls]) # build_levels E (next_level E ls)"
    using assms ne by (subst build_levels.simps) (simp add: next_level_duplicate_last)
  moreover have "build_levels E ls = ls # build_levels E (next_level E ls)"
    using assms by (subst build_levels.simps) simp
  ultimately show ?thesis using ne by (simp add: tree_root_from_leaf_hashes)
qed

text \<open>
  The same for whole trees: two lists of leaves of one length and one root differ only
  together with a collision, found level by level.
\<close>

fun pair_clash :: "env \<Rightarrow> hash list \<Rightarrow> hash list \<Rightarrow> (bytes \<times> bytes) option" where
  "pair_clash E (a # b # xs) (c # d # ys) =
     (if node_input a b \<noteq> node_input c d then Some (node_input a b, node_input c d)
      else pair_clash E xs ys)"
| "pair_clash E [a] [c] =
     (if node_input a a \<noteq> node_input c c then Some (node_input a a, node_input c c) else None)"
| "pair_clash E xs ys = None"

function tree_clash :: "env \<Rightarrow> hash list \<Rightarrow> hash list \<Rightarrow> (bytes \<times> bytes) option" where
  "tree_clash E xs ys =
     (if length xs \<le> 1 then None
      else if next_level E xs = next_level E ys then pair_clash E xs ys
      else tree_clash E (next_level E xs) (next_level E ys))"
  by pat_completeness auto
termination
  by (relation "measure (\<lambda>(E, xs, ys). length xs)") auto

declare tree_clash.simps [simp del]

lemma hash_internal_node_input: "hash_internal_node E l r = Hash (blake3 E (node_input l r))"
  by (simp add: hash_internal_node_def hash_with_domain_def node_input_def)

lemma pair_clash_sound:
  "length xs = length ys \<Longrightarrow> xs \<noteq> ys \<Longrightarrow> next_level E xs = next_level E ys \<Longrightarrow>
     \<exists>u v. pair_clash E xs ys = Some (u, v) \<and> blake3_collision E u v"
  by (induction E xs ys rule: pair_clash.induct)
     (auto simp: hash_internal_node_input blake3_collision_def node_input_inject)

lemma tree_clash_sound:
  "length xs = length ys \<Longrightarrow> xs \<noteq> ys \<Longrightarrow>
     hd (last (build_levels E xs)) = hd (last (build_levels E ys)) \<Longrightarrow>
     \<exists>u v. tree_clash E xs ys = Some (u, v) \<and> blake3_collision E u v"
proof (induction E xs ys rule: tree_clash.induct)
  case (1 E xs ys)
  show ?case
  proof (cases "1 < length xs")
    case False
    with "1.prems" obtain x y where "xs = [x]" "ys = [y]"
      by (cases xs; cases ys) auto
    with "1.prems" show ?thesis by (simp add: build_levels.simps)
  next
    case True
    with "1.prems" have "hd (last (build_levels E (next_level E xs))) =
        hd (last (build_levels E (next_level E ys)))"
      by (simp add: build_levels.simps [of E xs] build_levels.simps [of E ys])
    with True "1.prems" "1.IH" pair_clash_sound [of xs ys E] show ?thesis
      by (subst tree_clash.simps) auto
  qed
qed

definition merkle_collision ::
  "env \<Rightarrow> merkle_proof \<Rightarrow> merkle_proof \<Rightarrow> bytes \<Rightarrow> bytes \<Rightarrow> (bytes \<times> bytes) option" where
  "merkle_collision E p q x y =
     (if hash_leaf E x = hash_leaf E y then Some (leaf_input x, leaf_input y)
      else clash E (hash_leaf E x) (hash_leaf E y) (audit_path p) (audit_path q))"

lemma leaf_input_inject: "leaf_input x = leaf_input y \<longleftrightarrow> x = y"
  by (simp add: leaf_input_def domain_preimage_def)

section \<open>Properties\<close>

text \<open>
  C16: for every leaf of a tree built from payloads, proof generation returns without a
  panic, and the proof verifies that payload against the root of the tree.
\<close>
theorem merkle_proof_complete:
  assumes "i < length payloads"
  shows "\<exists>p. generate_proof (from_leaf_payloads E payloads) i = Some (Some p) \<and>
             leaf_index p = i \<and> total_leaves p = length payloads \<and>
             proof_verify E p (tree_root (from_leaf_payloads E payloads)) (payloads ! i)"
proof -
  let ?ls = "map (hash_leaf E) payloads"
  from assms obtain p where p: "generate_proof (from_leaf_hashes E ?ls) i = Some (Some p)"
    "climb E (?ls ! i) (audit_path p) = tree_root (from_leaf_hashes E ?ls)"
    using generate_proof_climb [of i ?ls E] by auto
  from p(1) assms have "leaf_index p = i" "total_leaves p = length payloads"
    by (auto simp: generate_proof_def from_leaf_hashes_def split: if_splits)
  with p assms show ?thesis by (auto simp: from_leaf_payloads_def proof_verify_def)
qed

theorem merkle_proof_complete_witness:
  "2 < length [[1], [2], [3 :: u8]] \<and>
   (\<exists>p. generate_proof (from_leaf_payloads toy_env [[1], [2], [3]]) 2 = Some (Some p) \<and>
        proof_verify toy_env p (tree_root (from_leaf_payloads toy_env [[1], [2], [3]])) [3])"
proof -
  have h: "2 < length [[1], [2], [3 :: u8]]" by simp
  from merkle_proof_complete [OF h, of toy_env] show ?thesis
    by (auto simp: numeral_2_eq_2)
qed

text \<open>
  An index past the last leaf gets no proof, and no index makes proof generation panic.
\<close>
theorem generate_proof_total:
  "(generate_proof (from_leaf_hashes E ls) i = Some None \<longleftrightarrow> length ls \<le> i) \<and>
   generate_proof (from_leaf_hashes E ls) i \<noteq> None"
proof (cases "i < length ls")
  case True
  with generate_proof_climb [OF True, of E] show ?thesis by auto
next
  case False
  then show ?thesis by (simp add: generate_proof_def from_leaf_hashes_def)
qed

text \<open>
  C15: two proofs of the same shape that verify different payloads against one root give an
  explicit collision of BLAKE3: a root binds every position to one payload.
\<close>
theorem merkle_proof_binding:
  assumes "proof_verify E p root x" and "proof_verify E q root y"
    and "map snd (audit_path p) = map snd (audit_path q)" and "x \<noteq> y"
  shows "\<exists>u v. merkle_collision E p q x y = Some (u, v) \<and> blake3_collision E u v"
proof (cases "hash_leaf E x = hash_leaf E y")
  case True
  with assms(4) show ?thesis
    by (simp add: merkle_collision_def blake3_collision_def leaf_input_inject)
       (simp add: hash_leaf_def hash_with_domain_def leaf_input_def)
next
  case False
  from assms(1,2) have "climb E (hash_leaf E x) (audit_path p) = climb E (hash_leaf E y) (audit_path q)"
    by (simp add: proof_verify_def)
  from clash_sound [OF False assms(3) this] False show ?thesis
    by (simp add: merkle_collision_def)
qed

theorem merkle_proof_binding_witness:
  "\<exists>u v. merkle_collision (toy_env\<lparr>blake3 := \<lambda>_. 0\<rparr>)
      \<lparr>leaf_index = 0, total_leaves = 2, audit_path = [(Hash 5, True)]\<rparr>
      \<lparr>leaf_index = 0, total_leaves = 2, audit_path = [(Hash 6, True)]\<rparr> [1] [2] = Some (u, v) \<and>
    blake3_collision (toy_env\<lparr>blake3 := \<lambda>_. 0\<rparr>) u v"
  by (rule merkle_proof_binding [where root = "Hash 0"])
     (simp_all add: proof_verify_def hash_internal_node_def hash_with_domain_def)

end
