(* ===== verification/Transaction.thy ===== *)
theory Transaction
  imports Crypto
begin

text \<open>
  \<open>aura-primitives/src/transaction.rs\<close>: the account transaction, the bytes its sender
  signs, its hash, signing and verification, and the sizes the mempool ranks by. The field
  names carry a \<open>tx_\<close> prefix, record fields being global in HOL.
\<close>

datatype primitive_error =
    CryptoE crypto_error
  | InvalidSignature
  | AddressMismatch
  | PrimInvalidAmount
  | PrimInsufficientFee
  | MerkleRootMismatch hash hash
  | InvalidBlockHeight u64 u64
  | InvalidPrevHash hash hash

datatype transaction_type = Transfer | Stake | Unstake | RegisterValidator

record transaction =
  tx_sender :: address
  tx_recipient :: address
  tx_amount :: u64
  tx_fee :: u64
  tx_nonce :: u64
  tx_type :: transaction_type
  tx_payload :: bytes
  tx_pubkey :: public_key
  tx_signature :: signature

definition tx_new_unsigned ::
  "address \<Rightarrow> address \<Rightarrow> u64 \<Rightarrow> u64 \<Rightarrow> u64 \<Rightarrow> transaction_type \<Rightarrow> bytes \<Rightarrow> public_key \<Rightarrow> transaction" where
  "tx_new_unsigned sender rcp amount fee nonce ty payload pk =
     \<lparr>tx_sender = sender, tx_recipient = rcp, tx_amount = amount, tx_fee = fee, tx_nonce = nonce,
      tx_type = ty, tx_payload = payload, tx_pubkey = pk, tx_signature = Signature 0\<rparr>"

fun type_byte :: "transaction_type \<Rightarrow> u8" where
  "type_byte Transfer = 0"
| "type_byte Stake = 1"
| "type_byte Unstake = 2"
| "type_byte RegisterValidator = 3"

definition tx_signing_bytes :: "transaction \<Rightarrow> bytes" where
  "tx_signing_bytes tx =
     addr_bytes (tx_sender tx) @ addr_bytes (tx_recipient tx) @ be_bytes 8 (tx_amount tx) @
     be_bytes 8 (tx_fee tx) @ be_bytes 8 (tx_nonce tx) @ [type_byte (tx_type tx)] @
     be_bytes 4 (word_of_nat (length (tx_payload tx)) :: u32) @ tx_payload tx @
     pk_bytes (tx_pubkey tx)"

definition tx_sign :: "env \<Rightarrow> key_pair \<Rightarrow> transaction \<Rightarrow> primitive_error + transaction" where
  "tx_sign E kp tx =
     (if address_from_pubkey E (kp_public kp) \<noteq> tx_sender tx then Inl AddressMismatch
      else let tx' = tx\<lparr>tx_pubkey := kp_public kp\<rparr>
           in Inr (tx'\<lparr>tx_signature := kp_sign E kp (tx_signing_bytes tx')\<rparr>))"

definition tx_hash :: "env \<Rightarrow> transaction \<Rightarrow> hash" where
  "tx_hash E tx =
     hash_with_domain E DOMAIN_TX (tx_signing_bytes tx @ sig_bytes (tx_signature tx))"

definition tx_verify :: "env \<Rightarrow> transaction \<Rightarrow> primitive_error + unit" where
  "tx_verify E tx =
     (if address_from_pubkey E (tx_pubkey tx) \<noteq> tx_sender tx then Inl AddressMismatch
      else case pk_verify E (tx_pubkey tx) (tx_signing_bytes tx) (tx_signature tx) of
        Inl _ \<Rightarrow> Inl InvalidSignature
      | Inr _ \<Rightarrow> Inr ())"

definition size_bytes :: "transaction \<Rightarrow> nat" where
  "size_bytes tx = 165 + length (tx_payload tx)"

definition fee_per_byte :: "transaction \<Rightarrow> u64" where
  "fee_per_byte tx =
     (let size = size_bytes tx in if size = 0 then 0 else tx_fee tx div word_of_nat size)"

section \<open>Lemmas\<close>

lemma type_byte_inject: "type_byte s = type_byte t \<longleftrightarrow> s = t"
  by (cases s; cases t) simp_all

text \<open>
  Documented behaviour of Ed25519 as the code uses it: the public key of a secret key is
  valid, and strict verification accepts what the secret key signed.
\<close>

definition ed25519_laws :: "env \<Rightarrow> bool" where
  "ed25519_laws E \<longleftrightarrow>
     (\<forall>sk. vk_error E (ed_public E sk) = None) \<and>
     (\<forall>sk m. verify_strict E (ed_public E sk) m (ed_sign E sk m))"

definition kp_ok :: "env \<Rightarrow> key_pair \<Rightarrow> bool" where
  "kp_ok E kp \<longleftrightarrow> kp_public kp = PublicKey (ed_public E (signing_key kp))"

lemma kp_ok_from_secret [simp]: "kp_ok E (keypair_from_secret_bytes E sk)"
  by (simp add: kp_ok_def keypair_from_secret_bytes_def)

lemma pk_verify_kp_sign:
  "ed25519_laws E \<Longrightarrow> kp_ok E kp \<Longrightarrow> pk_verify E (kp_public kp) m (kp_sign E kp m) = Inr ()"
  by (simp add: pk_verify_def kp_ok_def kp_sign_def ed25519_laws_def)

lemma ed25519_laws_toy: "ed25519_laws toy_env"
  by (simp add: ed25519_laws_def)

lemma tx_signing_bytes_signature [simp]:
  "tx_signing_bytes (tx\<lparr>tx_signature := sg\<rparr>) = tx_signing_bytes tx"
  by (simp add: tx_signing_bytes_def)

lemma tx_verify_Inr:
  "tx_verify E tx = Inr () \<longleftrightarrow>
     address_from_pubkey E (tx_pubkey tx) = tx_sender tx \<and>
     vk_error E (pk_word (tx_pubkey tx)) = None \<and>
     verify_strict E (pk_word (tx_pubkey tx)) (tx_signing_bytes tx) (sig_word (tx_signature tx))"
  by (auto simp: tx_verify_def pk_verify_def split: sum.splits option.splits if_splits)

lemma length_tx_signing_bytes:
  "length (tx_signing_bytes tx) + 64 = size_bytes tx"
  by (simp add: tx_signing_bytes_def size_bytes_def)

lemma tx_signing_bytes_inject:
  assumes "length (tx_payload t) < 2 ^ 32" and "length (tx_payload u) < 2 ^ 32"
  shows "tx_signing_bytes t = tx_signing_bytes u \<longleftrightarrow> t\<lparr>tx_signature := tx_signature u\<rparr> = u"
  using assms
  by (cases t; cases u)
     (auto simp: tx_signing_bytes_def array_append_inject type_byte_inject
       word_of_nat_u32_inject append_eq_append_conv dest: pk_arr.to_bytes_inject)

lemma tx_full_bytes_inject:
  assumes "length (tx_payload t) < 2 ^ 32" and "length (tx_payload u) < 2 ^ 32"
  shows "tx_signing_bytes t @ sig_bytes (tx_signature t) =
    tx_signing_bytes u @ sig_bytes (tx_signature u) \<longleftrightarrow> t = u"
proof -
  have "tx_signing_bytes t @ sig_bytes (tx_signature t) =
      tx_signing_bytes u @ sig_bytes (tx_signature u) \<longleftrightarrow>
      tx_signing_bytes t = tx_signing_bytes u \<and> tx_signature t = tx_signature u"
    by (auto simp: append_eq_append_conv dest: sig_arr.to_bytes_inject)
  with tx_signing_bytes_inject [OF assms] show ?thesis by (cases t; cases u) auto
qed

section \<open>Properties\<close>

text \<open>
  C38: the bytes a sender signs determine every signed field, payload included, for payloads
  below four gigabytes: no two transactions that differ in more than their signature share
  a preimage, and the transaction hash covers the signature as well.
\<close>
theorem tx_signing_bytes_injective:
  assumes "length (tx_payload t) < 2 ^ 32" and "length (tx_payload u) < 2 ^ 32"
  shows "(tx_signing_bytes t = tx_signing_bytes u \<longleftrightarrow> t\<lparr>tx_signature := tx_signature u\<rparr> = u) \<and>
    (tx_signing_bytes t @ sig_bytes (tx_signature t) =
       tx_signing_bytes u @ sig_bytes (tx_signature u) \<longleftrightarrow> t = u)"
  using tx_signing_bytes_inject [OF assms] tx_full_bytes_inject [OF assms] by blast

text \<open>
  A sender signs only its own transactions; what it signs verifies, keeps every other
  field, and verification depends on every signed field through the bytes alone.
\<close>
theorem tx_sign_verify:
  assumes "ed25519_laws E" and "kp_ok E kp"
  shows "(address_from_pubkey E (kp_public kp) \<noteq> tx_sender tx \<longrightarrow>
            tx_sign E kp tx = Inl AddressMismatch) \<and>
    (address_from_pubkey E (kp_public kp) = tx_sender tx \<longrightarrow>
       (\<exists>t. tx_sign E kp tx = Inr t \<and> tx_verify E t = Inr () \<and>
            t = tx\<lparr>tx_pubkey := kp_public kp, tx_signature := tx_signature t\<rparr>))"
  using pk_verify_kp_sign [OF assms] by (simp add: tx_sign_def tx_verify_def Let_def)

definition sample_tx :: "u64 \<Rightarrow> u64 \<Rightarrow> u64 \<Rightarrow> transaction" where
  "sample_tx amount fee nonce =
     tx_new_unsigned (address_from_pubkey toy_env (PublicKey 7)) (Address 9) amount fee nonce
       Transfer [] (PublicKey 7)"

theorem tx_signing_bytes_injective_witness:
  "length (tx_payload (sample_tx 1 100 1)) < 2 ^ 32 \<and>
   tx_signing_bytes (sample_tx 1 100 1) \<noteq> tx_signing_bytes (sample_tx 2 100 1)"
  using tx_signing_bytes_injective [of "sample_tx 1 100 1" "sample_tx 2 100 1"]
  by (simp add: sample_tx_def tx_new_unsigned_def)

theorem tx_sign_verify_witness:
  "\<exists>t. tx_sign toy_env (keypair_from_secret_bytes toy_env 7) (sample_tx 5 100 1) = Inr t \<and>
       tx_verify toy_env t = Inr ()"
  using tx_sign_verify [OF ed25519_laws_toy kp_ok_from_secret, of 7 "sample_tx 5 100 1"]
  by (auto simp: sample_tx_def tx_new_unsigned_def keypair_from_secret_bytes_def)

text \<open>
  The fee density never exceeds the fee and is the exact quotient by the size,
  which is the number of bytes the transaction hash is computed over.
\<close>
theorem fee_per_byte_exact:
  assumes "size_bytes tx < 2 ^ 64"
  shows "unat (fee_per_byte tx) = unat (tx_fee tx) div size_bytes tx \<and>
    fee_per_byte tx \<le> tx_fee tx \<and>
    length (tx_signing_bytes tx @ sig_bytes (tx_signature tx)) = size_bytes tx"
proof -
  have "unat (word_of_nat (size_bytes tx) :: u64) = size_bytes tx"
    using assms by (simp add: unat_of_nat)
  then have "unat (fee_per_byte tx) = unat (tx_fee tx) div size_bytes tx"
    by (simp add: fee_per_byte_def Let_def unat_div size_bytes_def)
  then show ?thesis
    using length_tx_signing_bytes [of tx] by (simp add: word_le_nat_alt)
qed

theorem fee_per_byte_exact_witness:
  "size_bytes (sample_tx 5 1000 1) < 2 ^ 64 \<and> unat (fee_per_byte (sample_tx 5 1000 1)) = 6"
  using fee_per_byte_exact [of "sample_tx 5 1000 1"]
  by (simp add: size_bytes_def sample_tx_def tx_new_unsigned_def)

end
