(* ===== verification/Block.thy ===== *)
theory Block
  imports Merkle Transaction
begin

text \<open>
  \<open>aura-primitives\<close>: block headers (\<open>header.rs\<close>), votes and quorum certificates
  (\<open>qc.rs\<close>), blocks and their structural check (\<open>block.rs\<close>), the genesis block
  (\<open>genesis.rs\<close>).
\<close>

section \<open>Header\<close>

record header =
  h_version :: u32
  h_chain_id :: string
  h_height :: u64
  h_round :: u32
  h_prev_hash :: hash
  h_merkle_root :: hash
  h_state_root :: hash
  h_validator_set_hash :: hash
  h_timestamp :: u64
  h_proposer :: address
  h_signature :: signature

definition header_new_unsigned ::
  "u32 \<Rightarrow> string \<Rightarrow> u64 \<Rightarrow> u32 \<Rightarrow> hash \<Rightarrow> hash \<Rightarrow> hash \<Rightarrow> hash \<Rightarrow> u64 \<Rightarrow> address \<Rightarrow> header" where
  "header_new_unsigned version chain_id height round prev_hash merkle_root state_root vset
     timestamp proposer =
     \<lparr>h_version = version, h_chain_id = chain_id, h_height = height, h_round = round,
      h_prev_hash = prev_hash, h_merkle_root = merkle_root, h_state_root = state_root,
      h_validator_set_hash = vset, h_timestamp = timestamp, h_proposer = proposer,
      h_signature = Signature 0\<rparr>"

definition header_signing_bytes :: "header \<Rightarrow> bytes" where
  "header_signing_bytes h =
     be_bytes 4 (h_version h) @ be_bytes 4 (word_of_nat (length (h_chain_id h)) :: u32) @
     str_bytes (h_chain_id h) @ be_bytes 8 (h_height h) @ be_bytes 4 (h_round h) @
     hash_bytes_of (h_prev_hash h) @ hash_bytes_of (h_merkle_root h) @
     hash_bytes_of (h_state_root h) @ hash_bytes_of (h_validator_set_hash h) @
     be_bytes 8 (h_timestamp h) @ addr_bytes (h_proposer h)"

definition header_sign :: "env \<Rightarrow> key_pair \<Rightarrow> header \<Rightarrow> primitive_error + header" where
  "header_sign E kp h =
     (if address_from_pubkey E (kp_public kp) \<noteq> h_proposer h then Inl AddressMismatch
      else Inr (h\<lparr>h_signature := kp_sign E kp (header_signing_bytes h)\<rparr>))"

definition header_hash :: "env \<Rightarrow> header \<Rightarrow> hash" where
  "header_hash E h =
     hash_with_domain E DOMAIN_BLOCK_HEADER
       (header_signing_bytes h @ sig_bytes (h_signature h))"

definition header_verify_signature :: "env \<Rightarrow> header \<Rightarrow> public_key \<Rightarrow> primitive_error + unit" where
  "header_verify_signature E h pk =
     (if address_from_pubkey E pk \<noteq> h_proposer h then Inl AddressMismatch
      else case pk_verify E pk (header_signing_bytes h) (h_signature h) of
        Inl _ \<Rightarrow> Inl InvalidSignature
      | Inr _ \<Rightarrow> Inr ())"

section \<open>Votes and quorum certificates\<close>

datatype vote_type = PreVoteType | PreCommitType

record vote =
  v_block_hash :: hash
  v_height :: u64
  v_round :: u32
  v_type :: vote_type
  v_validator :: address
  v_pubkey :: public_key
  v_signature :: signature

definition vote_signing_bytes :: "hash \<Rightarrow> u64 \<Rightarrow> u32 \<Rightarrow> vote_type \<Rightarrow> address \<Rightarrow> bytes" where
  "vote_signing_bytes block_hash height round ty validator =
     hash_bytes_of block_hash @ be_bytes 8 height @ be_bytes 4 round @
     [case ty of PreVoteType \<Rightarrow> 0 | PreCommitType \<Rightarrow> 1] @ addr_bytes validator"

definition vote_new_signed :: "env \<Rightarrow> hash \<Rightarrow> u64 \<Rightarrow> u32 \<Rightarrow> vote_type \<Rightarrow> key_pair \<Rightarrow> vote" where
  "vote_new_signed E block_hash height round ty kp =
     (let validator = address_from_pubkey E (kp_public kp)
      in \<lparr>v_block_hash = block_hash, v_height = height, v_round = round, v_type = ty,
          v_validator = validator, v_pubkey = kp_public kp,
          v_signature = kp_sign E kp (vote_signing_bytes block_hash height round ty validator)\<rparr>)"

definition vote_data :: "vote \<Rightarrow> bytes" where
  "vote_data v =
     vote_signing_bytes (v_block_hash v) (v_height v) (v_round v) (v_type v) (v_validator v)"

definition vote_verify :: "env \<Rightarrow> vote \<Rightarrow> primitive_error + unit" where
  "vote_verify E v =
     (if address_from_pubkey E (v_pubkey v) \<noteq> v_validator v then Inl AddressMismatch
      else case pk_verify E (v_pubkey v) (vote_data v) (v_signature v) of
        Inl _ \<Rightarrow> Inl InvalidSignature
      | Inr _ \<Rightarrow> Inr ())"

definition vote_hash :: "env \<Rightarrow> vote \<Rightarrow> hash" where
  "vote_hash E v = hash_with_domain E DOMAIN_VOTE (vote_data v)"

record quorum_certificate =
  qc_block_hash :: hash
  qc_height :: u64
  qc_round :: u32
  qc_votes :: "vote list"
  qc_total_voting_power :: u64
  qc_signers_voting_power :: u64

text \<open>The comparison is made on 128-bit integers, where neither product can overflow.\<close>

definition exceeds_two_thirds :: "u64 \<Rightarrow> u64 \<Rightarrow> bool" where
  "exceeds_two_thirds part whole \<longleftrightarrow>
     (ucast part :: 128 word) * 3 > (ucast whole :: 128 word) * 2"

definition is_valid_quorum :: "quorum_certificate \<Rightarrow> bool" where
  "is_valid_quorum qc =
     (if qc_total_voting_power qc = 0 then False
      else exceeds_two_thirds (qc_signers_voting_power qc) (qc_total_voting_power qc))"

section \<open>Blocks\<close>

record block =
  b_header :: header
  b_transactions :: "transaction list"
  b_last_commit_qc :: "quorum_certificate option"

definition compute_merkle_root :: "env \<Rightarrow> block \<Rightarrow> hash" where
  "compute_merkle_root E b =
     tree_root (from_leaf_hashes E (map (tx_hash E) (b_transactions b)))"

definition block_hash :: "env \<Rightarrow> block \<Rightarrow> hash" where
  "block_hash E b = header_hash E (b_header b)"

fun verify_all :: "env \<Rightarrow> transaction list \<Rightarrow> primitive_error + unit" where
  "verify_all E [] = Inr ()"
| "verify_all E (tx # txs) =
     (case tx_verify E tx of Inl e \<Rightarrow> Inl e | Inr _ \<Rightarrow> verify_all E txs)"

definition validate_basic :: "env \<Rightarrow> block \<Rightarrow> primitive_error + unit" where
  "validate_basic E b =
     (let calculated_root = compute_merkle_root E b in
      if calculated_root \<noteq> h_merkle_root (b_header b)
      then Inl (MerkleRootMismatch (h_merkle_root (b_header b)) calculated_root)
      else verify_all E (b_transactions b))"

section \<open>Genesis\<close>

record genesis_account =
  ga_address :: address
  ga_balance :: u64

record genesis_validator =
  gv_address :: address
  gv_pubkey :: public_key
  gv_stake :: u64

record genesis_config =
  g_chain_id :: string
  g_timestamp :: u64
  g_accounts :: "genesis_account list"
  g_validators :: "genesis_validator list"
  g_initial_state_root :: hash

definition validator_set_hash :: "env \<Rightarrow> genesis_config \<Rightarrow> hash" where
  "validator_set_hash E g =
     hash_bytes E (concat (map (\<lambda>v. addr_bytes (gv_address v) @ pk_bytes (gv_pubkey v) @
       be_bytes 8 (gv_stake v)) (g_validators g)))"

definition to_genesis_block :: "env \<Rightarrow> genesis_config \<Rightarrow> block" where
  "to_genesis_block E g =
     \<lparr>b_header =
        \<lparr>h_version = 1, h_chain_id = g_chain_id g, h_height = 0, h_round = 0,
         h_prev_hash = HASH_ZERO, h_merkle_root = HASH_ZERO,
         h_state_root = g_initial_state_root g,
         h_validator_set_hash = validator_set_hash E g, h_timestamp = g_timestamp g,
         h_proposer = ADDRESS_ZERO, h_signature = Signature 0\<rparr>,
      b_transactions = [], b_last_commit_qc = None\<rparr>"

section \<open>Lemmas\<close>

lemma header_signing_bytes_signature [simp]:
  "header_signing_bytes (h\<lparr>h_signature := sg\<rparr>) = header_signing_bytes h"
  by (simp add: header_signing_bytes_def)

lemma vote_signing_bytes_inject:
  "vote_signing_bytes bh ht r ty v = vote_signing_bytes bh' ht' r' ty' v' \<longleftrightarrow>
     bh = bh' \<and> ht = ht' \<and> r = r' \<and> ty = ty' \<and> v = v'"
  by (auto simp: vote_signing_bytes_def array_append_inject split: vote_type.splits
      dest: addr_arr.to_bytes_inject)

lemma verify_all_Inr: "verify_all E txs = Inr () \<longleftrightarrow> (\<forall>tx \<in> set txs. tx_verify E tx = Inr ())"
  by (induction txs) (auto split: sum.splits)

lemma validate_basic_Inr:
  "validate_basic E b = Inr () \<longleftrightarrow>
     compute_merkle_root E b = h_merkle_root (b_header b) \<and>
     (\<forall>tx \<in> set (b_transactions b). tx_verify E tx = Inr ())"
  by (auto simp: validate_basic_def Let_def verify_all_Inr)

lemma exceeds_two_thirds_unat:
  "exceeds_two_thirds part whole \<longleftrightarrow> 2 * unat whole < 3 * unat part"
proof -
  have "unat ((ucast w :: 128 word) * n) = unat w * unat n" if "unat n \<le> 3" for w :: u64 and n
  proof -
    have "unat w < 2 ^ 64" using unat_bound [of w] by simp
    then have u: "unat (ucast w :: 128 word) = unat w"
      by (simp add: unsigned_ucast_eq take_bit_nat_eq_self)
    have "unat w * unat n \<le> 2 ^ 64 * 3"
      using \<open>unat w < 2 ^ 64\<close> that by (intro mult_le_mono) auto
    then show ?thesis using unat_times_small [of "ucast w" n] by (simp add: u)
  qed
  from this [of 3 part] this [of 2 whole] show ?thesis
    by (simp add: exceeds_two_thirds_def word_less_nat_alt mult.commute)
qed

section \<open>Quorums\<close>

text \<open>
  Sets of voters above two thirds of the total power overlap in more than a third of it:
  the arithmetic every certificate rests on.
\<close>

locale quorum_weights =
  fixes members :: "'v set"
    and power :: "'v \<Rightarrow> nat"
  assumes finite_members: "finite members"
begin

lemma quorum_overlap:
  assumes "A \<subseteq> members" and "B \<subseteq> members"
    and "2 * sum power members < 3 * sum power A" and "2 * sum power members < 3 * sum power B"
  shows "sum power members < 3 * sum power (A \<inter> B)"
proof -
  from assms(1,2) finite_members have fin: "finite A" "finite B" by (auto intro: finite_subset)
  have "sum power A + sum power B = sum power (A \<union> B) + sum power (A \<inter> B)"
    using fin by (rule sum.union_inter [symmetric])
  moreover have "sum power (A \<union> B) \<le> sum power members"
    using assms(1,2) finite_members by (intro sum_mono2) auto
  ultimately show ?thesis using assms(3,4) by linarith
qed

lemma quorum_honest_overlap:
  assumes "A \<subseteq> members" and "B \<subseteq> members" and "F \<subseteq> members"
    and "2 * sum power members < 3 * sum power A" and "2 * sum power members < 3 * sum power B"
    and "3 * sum power F \<le> sum power members"
  shows "\<exists>v \<in> A \<inter> B. v \<notin> F"
proof (rule ccontr)
  assume "\<not> (\<exists>v \<in> A \<inter> B. v \<notin> F)"
  then have "A \<inter> B \<subseteq> F" by blast
  moreover have "finite F" using assms(3) finite_members by (rule finite_subset)
  ultimately have "sum power (A \<inter> B) \<le> sum power F" by (intro sum_mono2) auto
  with quorum_overlap [OF assms(1,2,4,5)] assms(6) show False by linarith
qed

lemma sub_quorum_power:
  "A \<subseteq> members \<Longrightarrow> sum power A \<le> sum power members"
  using finite_members by (intro sum_mono2) auto

end

section \<open>Properties\<close>

text \<open>
  The bytes a proposer signs determine every header field but the signature, for chain
  identifiers below four gigabytes, and the header hash covers the signature as well; the
  bytes a validator signs determine block, height, round, phase and voter.
\<close>
theorem header_signing_bytes_injective:
  assumes "length (h_chain_id h) < 2 ^ 32" and "length (h_chain_id g) < 2 ^ 32"
  shows "(header_signing_bytes h = header_signing_bytes g \<longleftrightarrow> h\<lparr>h_signature := h_signature g\<rparr> = g) \<and>
    (header_signing_bytes h @ sig_bytes (h_signature h) =
       header_signing_bytes g @ sig_bytes (h_signature g) \<longleftrightarrow> h = g)"
proof -
  have sb: "header_signing_bytes h = header_signing_bytes g \<longleftrightarrow> h\<lparr>h_signature := h_signature g\<rparr> = g"
    using assms
    by (cases h; cases g)
       (auto simp: header_signing_bytes_def array_append_inject word_of_nat_u32_inject
         append_eq_append_conv dest: addr_arr.to_bytes_inject)
  have "header_signing_bytes h @ sig_bytes (h_signature h) =
      header_signing_bytes g @ sig_bytes (h_signature g) \<longleftrightarrow>
      header_signing_bytes h = header_signing_bytes g \<and> h_signature h = h_signature g"
    by (auto simp: append_eq_append_conv dest: sig_arr.to_bytes_inject)
  with sb show ?thesis by (cases h; cases g) auto
qed

definition sample_header :: "u64 \<Rightarrow> header" where
  "sample_header height =
     header_new_unsigned 1 ''aura'' height 0 HASH_ZERO HASH_ZERO HASH_ZERO HASH_ZERO 17
       (address_from_pubkey toy_env (PublicKey 7))"

theorem header_signing_bytes_injective_witness:
  "length (h_chain_id (sample_header 1)) < 2 ^ 32 \<and>
   header_signing_bytes (sample_header 1) \<noteq> header_signing_bytes (sample_header 2)"
  using header_signing_bytes_injective [of "sample_header 1" "sample_header 2"]
  by (simp add: sample_header_def header_new_unsigned_def)

text \<open>
  A header signed by its proposer's key verifies with that key, any other key is
  refused for the proposer's address, and signing changes neither the signed bytes nor any
  field but the signature.
\<close>
theorem header_sign_verify:
  assumes "ed25519_laws E" and "kp_ok E kp" and "address_from_pubkey E (kp_public kp) = h_proposer h"
  shows "\<exists>g. header_sign E kp h = Inr g \<and> g = h\<lparr>h_signature := h_signature g\<rparr> \<and>
    header_signing_bytes g = header_signing_bytes h \<and>
    header_verify_signature E g (kp_public kp) = Inr () \<and>
    (\<forall>pk. address_from_pubkey E pk \<noteq> h_proposer h \<longrightarrow>
       header_verify_signature E g pk = Inl AddressMismatch)"
  using pk_verify_kp_sign [OF assms(1,2)] assms(3)
  by (simp add: header_sign_def header_verify_signature_def)

theorem header_sign_verify_witness:
  "\<exists>g. header_sign toy_env (keypair_from_secret_bytes toy_env 7) (sample_header 3) = Inr g \<and>
     header_verify_signature toy_env g (PublicKey 7) = Inr ()"
  using header_sign_verify [OF ed25519_laws_toy kp_ok_from_secret, of 7 "sample_header 3"]
  by (auto simp: keypair_from_secret_bytes_def sample_header_def header_new_unsigned_def)

text \<open>
  A vote made by a key pair names that key's address as its voter and verifies; and a
  vote is bound to one block hash, height, round, phase and voter by its signed bytes.
\<close>
theorem vote_sign_verify:
  assumes "ed25519_laws E" and "kp_ok E kp"
  shows "vote_verify E (vote_new_signed E bh ht r ty kp) = Inr () \<and>
    v_validator (vote_new_signed E bh ht r ty kp) = address_from_pubkey E (kp_public kp) \<and>
    (vote_data v = vote_data w \<longleftrightarrow>
       v_block_hash v = v_block_hash w \<and> v_height v = v_height w \<and> v_round v = v_round w \<and>
       v_type v = v_type w \<and> v_validator v = v_validator w)"
  using pk_verify_kp_sign [OF assms]
  by (simp add: vote_new_signed_def vote_verify_def Let_def vote_data_def vote_signing_bytes_inject)

theorem vote_sign_verify_witness:
  "vote_verify toy_env (vote_new_signed toy_env (Hash 3) 5 0 PreVoteType
     (keypair_from_secret_bytes toy_env 7)) = Inr ()"
  using vote_sign_verify [OF ed25519_laws_toy kp_ok_from_secret] by blast

text \<open>
  A certificate is a valid quorum exactly when its total power is not zero and three
  times the signers' power exceeds twice the total, over the integers: the 128-bit products
  never wrap.
\<close>
theorem is_valid_quorum_exact:
  "is_valid_quorum qc \<longleftrightarrow>
     0 < unat (qc_total_voting_power qc) \<and>
     2 * unat (qc_total_voting_power qc) < 3 * unat (qc_signers_voting_power qc)"
  by (auto simp: is_valid_quorum_def exceeds_two_thirds_unat unat_gt_0)

section \<open>Block bodies\<close>

definition tx_input :: "transaction \<Rightarrow> bytes" where
  "tx_input tx = domain_preimage DOMAIN_TX (tx_signing_bytes tx @ sig_bytes (tx_signature tx))"

definition body_clash ::
  "env \<Rightarrow> transaction list \<Rightarrow> transaction list \<Rightarrow> (bytes \<times> bytes) option" where
  "body_clash E ts us =
     (if map (tx_hash E) ts = map (tx_hash E) us
      then map_option (\<lambda>(t, u). (tx_input t, tx_input u)) (List.find (\<lambda>(t, u). t \<noteq> u) (zip ts us))
      else tree_clash E (map (tx_hash E) ts) (map (tx_hash E) us))"


lemma tx_hash_input: "tx_hash E tx = Hash (blake3 E (tx_input tx))"
  by (simp add: tx_hash_def tx_input_def hash_with_domain_def)

definition short_payloads :: "transaction list \<Rightarrow> bool" where
  "short_payloads ts \<longleftrightarrow> (\<forall>t \<in> set ts. length (tx_payload t) < 2 ^ 32)"

lemma tx_input_inject:
  "length (tx_payload t) < 2 ^ 32 \<Longrightarrow> length (tx_payload u) < 2 ^ 32 \<Longrightarrow>
     tx_input t = tx_input u \<longleftrightarrow> t = u"
  using tx_full_bytes_inject [of t u] by (simp add: tx_input_def domain_preimage_def)

lemma find_difference:
  "length ts = length us \<Longrightarrow> ts \<noteq> us \<Longrightarrow>
     \<exists>t u. List.find (\<lambda>(t, u). t \<noteq> u) (zip ts us) = Some (t, u) \<and> t \<noteq> u \<and> (t, u) \<in> set (zip ts us)"
  by (induction ts us rule: list_induct2) auto

lemma body_clash_sound:
  assumes len: "length ts = length us" and ne: "ts \<noteq> us"
    and short: "short_payloads ts" "short_payloads us"
    and root: "tree_root (from_leaf_hashes E (map (tx_hash E) ts)) =
      tree_root (from_leaf_hashes E (map (tx_hash E) us))"
  shows "\<exists>u v. body_clash E ts us = Some (u, v) \<and> blake3_collision E u v"
proof (cases "map (tx_hash E) ts = map (tx_hash E) us")
  case True
  obtain t u where tu: "List.find (\<lambda>(t, u). t \<noteq> u) (zip ts us) = Some (t, u)" "t \<noteq> u"
    "(t, u) \<in> set (zip ts us)"
    using find_difference [OF len ne] by blast
  then have "t \<in> set ts" "u \<in> set us" by (auto dest: set_zip_leftD set_zip_rightD)
  with short tu(2) have "tx_input t \<noteq> tx_input u"
    by (simp add: short_payloads_def tx_input_inject)
  moreover have "tx_hash E t = tx_hash E u"
    using True tu(3) len by (auto simp: in_set_zip list_eq_iff_nth_eq)
  ultimately show ?thesis using True tu(1)
    by (simp add: body_clash_def blake3_collision_def tx_hash_input)
next
  case False
  from ne len have "ts \<noteq> []" "us \<noteq> []" by auto
  with root tree_clash_sound [OF _ False] False len show ?thesis
    by (simp add: body_clash_def tree_root_from_leaf_hashes)
qed

text \<open>
  C21: two blocks with the same number of transactions that both pass the structural check
  under headers with one Merkle root have the same transactions, or the two bodies yield an
  explicit collision of BLAKE3.
\<close>
theorem block_body_binding:
  assumes "validate_basic E b = Inr ()" and "validate_basic E c = Inr ()"
    and "h_merkle_root (b_header b) = h_merkle_root (b_header c)"
    and "length (b_transactions b) = length (b_transactions c)"
    and "short_payloads (b_transactions b)" and "short_payloads (b_transactions c)"
  shows "b_transactions b = b_transactions c \<or>
    (\<exists>u v. body_clash E (b_transactions b) (b_transactions c) = Some (u, v) \<and> blake3_collision E u v)"
  using assms body_clash_sound [of "b_transactions b" "b_transactions c" E]
  by (auto simp: validate_basic_Inr compute_merkle_root_def)

definition sample_signed :: "u64 \<Rightarrow> transaction" where
  "sample_signed amount =
     (sample_tx amount 100 1)
       \<lparr>tx_signature := Signature (of_be_bytes (tx_signing_bytes (sample_tx amount 100 1)))\<rparr>"

lemma sample_signed_verifies: "tx_verify toy_env (sample_signed amount) = Inr ()"
  by (simp add: tx_verify_Inr sample_signed_def)
     (simp add: sample_tx_def tx_new_unsigned_def)

definition sample_block :: "transaction list \<Rightarrow> block" where
  "sample_block txs =
     \<lparr>b_header = (sample_header 1)\<lparr>h_merkle_root :=
        tree_root (from_leaf_hashes toy_env (map (tx_hash toy_env) txs))\<rparr>,
      b_transactions = txs, b_last_commit_qc = None\<rparr>"

lemma sample_block_valid:
  "\<forall>tx \<in> set txs. tx_verify toy_env tx = Inr () \<Longrightarrow> validate_basic toy_env (sample_block txs) = Inr ()"
  by (simp add: validate_basic_Inr sample_block_def compute_merkle_root_def)

text \<open>With a hash that is constant two different bodies share a root, and the clash is found.\<close>

definition flat_hash_env :: env where
  "flat_hash_env = toy_env\<lparr>blake3 := (\<lambda>_. 0)\<rparr>"

definition flat_tx :: "u64 \<Rightarrow> transaction" where
  "flat_tx amount =
     (let tx = (sample_tx amount 100 1)\<lparr>tx_sender := address_from_pubkey flat_hash_env (tx_pubkey (sample_tx amount 100 1))\<rparr>
      in tx\<lparr>tx_signature := Signature (of_be_bytes (tx_signing_bytes tx))\<rparr>)"

definition flat_block :: "u64 \<Rightarrow> block" where
  "flat_block amount =
     \<lparr>b_header = (sample_header 1)\<lparr>h_merkle_root := Hash 0\<rparr>, b_transactions = [flat_tx amount], b_last_commit_qc = None\<rparr>"

lemma flat_block_valid: "validate_basic flat_hash_env (flat_block amount) = Inr ()"
proof -
  have "tx_verify flat_hash_env (flat_tx amount) = Inr ()"
    by (simp add: tx_verify_Inr flat_tx_def Let_def) (simp add: sample_tx_def tx_new_unsigned_def flat_hash_env_def)
  moreover have "tx_hash flat_hash_env (flat_tx amount) = Hash 0"
    by (simp add: tx_hash_def hash_with_domain_def flat_hash_env_def)
  ultimately show ?thesis
    by (simp add: validate_basic_Inr compute_merkle_root_def flat_block_def from_leaf_hashes_def build_levels.simps tree_root_def)
qed

theorem block_body_binding_witness:
  "b_transactions (flat_block 1) \<noteq> b_transactions (flat_block 2) \<and>
   (\<exists>u v. body_clash flat_hash_env (b_transactions (flat_block 1)) (b_transactions (flat_block 2)) = Some (u, v) \<and>
      blake3_collision flat_hash_env u v)"
proof -
  have "tx_amount (flat_tx 1) \<noteq> tx_amount (flat_tx 2)"
    by (simp add: flat_tx_def Let_def sample_tx_def tx_new_unsigned_def)
  then have ne: "b_transactions (flat_block 1) \<noteq> b_transactions (flat_block 2)" by (auto simp: flat_block_def)
  have p: "short_payloads (b_transactions (flat_block n))" for n
    by (simp add: short_payloads_def flat_block_def flat_tx_def sample_tx_def tx_new_unsigned_def Let_def)
  have "h_merkle_root (b_header (flat_block 1)) = h_merkle_root (b_header (flat_block 2))"
    "length (b_transactions (flat_block 1)) = length (b_transactions (flat_block 2))" by (simp_all add: flat_block_def)
  from block_body_binding [OF flat_block_valid flat_block_valid this p p] ne show ?thesis by blast
qed

text \<open>
  A valid block with an odd number of transactions, at least three, stays valid under
  the same header and block hash when its last transaction is repeated: the block hash
  does not determine the block.
\<close>
theorem block_duplicate_last_valid:
  assumes "validate_basic E b = Inr ()" and "odd (length (b_transactions b))"
    and "1 < length (b_transactions b)"
  shows "validate_basic E (b\<lparr>b_transactions := b_transactions b @ [last (b_transactions b)]\<rparr>) = Inr () \<and>
    block_hash E (b\<lparr>b_transactions := b_transactions b @ [last (b_transactions b)]\<rparr>) = block_hash E b"
proof -
  let ?ts = "b_transactions b"
  have "?ts \<noteq> []" using assms(3) by auto
  then have "tree_root (from_leaf_hashes E (map (tx_hash E) (?ts @ [last ?ts]))) =
      tree_root (from_leaf_hashes E (map (tx_hash E) ?ts))"
    using tree_root_duplicate_last [of "map (tx_hash E) ?ts" E] assms(2,3) by (simp add: last_map)
  with assms(1) \<open>?ts \<noteq> []\<close> show ?thesis
    by (simp add: validate_basic_Inr compute_merkle_root_def block_hash_def)
qed

theorem block_duplicate_last_valid_witness:
  "validate_basic toy_env
     (sample_block [sample_signed 1, sample_signed 2, sample_signed 3]
        \<lparr>b_transactions := [sample_signed 1, sample_signed 2, sample_signed 3, sample_signed 3]\<rparr>) = Inr ()"
  using block_duplicate_last_valid
    [OF sample_block_valid [of "[sample_signed 1, sample_signed 2, sample_signed 3]"]]
  by (simp add: sample_signed_verifies sample_block_def)

text \<open>
  The structural check accepts exactly the blocks whose header carries the root of the
  body and whose transactions all verify; a wrong root is reported with both roots before
  any signature is looked at, and the genesis block of any configuration is accepted, at
  height 0 and without a parent.
\<close>
theorem validate_basic_exact:
  "(validate_basic E b = Inr () \<longleftrightarrow>
      compute_merkle_root E b = h_merkle_root (b_header b) \<and>
      (\<forall>tx \<in> set (b_transactions b). tx_verify E tx = Inr ())) \<and>
   (compute_merkle_root E b \<noteq> h_merkle_root (b_header b) \<longrightarrow>
      validate_basic E b =
        Inl (MerkleRootMismatch (h_merkle_root (b_header b)) (compute_merkle_root E b))) \<and>
   validate_basic E (to_genesis_block E g) = Inr () \<and>
   h_height (b_header (to_genesis_block E g)) = 0 \<and>
   h_prev_hash (b_header (to_genesis_block E g)) = HASH_ZERO"
proof -
  have "validate_basic E (to_genesis_block E g) = Inr ()"
    by (simp add: validate_basic_Inr to_genesis_block_def compute_merkle_root_def
        from_leaf_hashes_def tree_root_def)
  then show ?thesis
    by (simp add: validate_basic_Inr) (simp add: validate_basic_def to_genesis_block_def)
qed

theorem validate_basic_exact_witness:
  "validate_basic toy_env (sample_block [] \<lparr>b_header := sample_header 1\<lparr>h_merkle_root := Hash 1\<rparr>\<rparr>) =
     Inl (MerkleRootMismatch (Hash 1) HASH_ZERO)"
proof -
  let ?b = "sample_block [] \<lparr>b_header := sample_header 1\<lparr>h_merkle_root := Hash 1\<rparr>\<rparr>"
  have r: "compute_merkle_root toy_env ?b = HASH_ZERO"
    by (simp add: compute_merkle_root_def sample_block_def from_leaf_hashes_def tree_root_def)
  then have "compute_merkle_root toy_env ?b \<noteq> h_merkle_root (b_header ?b)"
    by (simp add: HASH_ZERO_def)
  with validate_basic_exact [of toy_env ?b] r show ?thesis by simp
qed

end
