(* ===== verification/Smt.thy ===== *)
theory Smt
  imports Crypto
begin

unbundle bit_operations_syntax

text \<open>
  \<open>aura-storage/src/smt.rs\<close>: the sparse Merkle tree over 256-bit keys, kept as the map of
  its non-empty leaves, and its root, computed by splitting that map bit by bit. The
  reference it is compared with is the full binary tree of depth 256.
\<close>

definition SMT_DEPTH :: nat where "SMT_DEPTH = 256"

definition hash_smt_leaf :: "env \<Rightarrow> hash \<Rightarrow> bytes \<Rightarrow> hash" where
  "hash_smt_leaf E key value = hash_with_domain E DOMAIN_SMT_LEAF (hash_bytes_of key @ value)"

definition hash_smt_node :: "env \<Rightarrow> hash \<Rightarrow> hash \<Rightarrow> hash" where
  "hash_smt_node E l r =
     hash_with_domain E DOMAIN_SMT_NODE (hash_bytes_of l @ hash_bytes_of r)"

text \<open>The table of empty roots: entry 0 is zero, each further entry joins the one before.\<close>

fun empty_at :: "env \<Rightarrow> nat \<Rightarrow> hash" where
  "empty_at E 0 = HASH_ZERO"
| "empty_at E (Suc i) = hash_smt_node E (empty_at E i) (empty_at E i)"

definition empty_root :: "env \<Rightarrow> nat \<Rightarrow> hash" where
  "empty_root E level = (if level \<le> SMT_DEPTH then empty_at E level else HASH_ZERO)"

record smt =
  smt_leaves :: "(hash \<times> hash) list"

definition smt_new :: smt where
  "smt_new = \<lparr>smt_leaves = []\<rparr>"

definition smt_update :: "env \<Rightarrow> hash \<Rightarrow> bytes \<Rightarrow> smt \<Rightarrow> smt" where
  "smt_update E key value s =
     (if value = [] then s\<lparr>smt_leaves := hm_remove key (smt_leaves s)\<rparr>
      else s\<lparr>smt_leaves := hm_insert key (hash_smt_leaf E key value) (smt_leaves s)\<rparr>)"

definition smt_delete :: "hash \<Rightarrow> smt \<Rightarrow> smt" where
  "smt_delete key s = s\<lparr>smt_leaves := hm_remove key (smt_leaves s)\<rparr>"

definition key_bit :: "nat \<Rightarrow> hash \<Rightarrow> u8" where
  "key_bit depth key =
     drop_bit (7 - depth mod 8) (hash_bytes_of key ! (depth div 8)) AND 1"

text \<open>Depths beyond 256 are not reached from the root; the code stops at exactly 256.\<close>

function compute_subtree_root :: "env \<Rightarrow> (hash \<times> hash) list \<Rightarrow> nat \<Rightarrow> hash" where
  "compute_subtree_root E nodes depth =
     (if nodes = [] then empty_root E (SMT_DEPTH - depth)
      else if SMT_DEPTH \<le> depth then snd (hd nodes)
      else let left_group = filter (\<lambda>(k, _). key_bit depth k = 0) nodes;
               right_group = filter (\<lambda>(k, _). key_bit depth k \<noteq> 0) nodes;
               left_hash = compute_subtree_root E left_group (depth + 1);
               right_hash = compute_subtree_root E right_group (depth + 1)
           in if left_hash = empty_root E (SMT_DEPTH - depth - 1) \<and>
                 right_hash = empty_root E (SMT_DEPTH - depth - 1)
              then empty_root E (SMT_DEPTH - depth)
              else hash_smt_node E left_hash right_hash)"
  by pat_completeness auto
termination
  by (relation "measure (\<lambda>(E, nodes, depth). SMT_DEPTH - depth)") auto

declare compute_subtree_root.simps [simp del]

definition smt_root :: "env \<Rightarrow> smt \<Rightarrow> hash" where
  "smt_root E s =
     (if smt_leaves s = [] then empty_root E SMT_DEPTH
      else compute_subtree_root E (smt_leaves s) 0)"

section \<open>The full tree\<close>

definition key_path :: "hash \<Rightarrow> bool list" where
  "key_path k = map (\<lambda>d. key_bit d k \<noteq> 0) [0..<SMT_DEPTH]"

definition leaf_at :: "(hash \<times> hash) list \<Rightarrow> bool list \<Rightarrow> hash" where
  "leaf_at nodes path =
     (case filter (\<lambda>(k, _). key_path k = path) nodes of [] \<Rightarrow> HASH_ZERO | kv # _ \<Rightarrow> snd kv)"

fun full_root :: "env \<Rightarrow> (hash \<times> hash) list \<Rightarrow> nat \<Rightarrow> bool list \<Rightarrow> hash" where
  "full_root E nodes 0 path = leaf_at nodes path"
| "full_root E nodes (Suc r) path =
     hash_smt_node E (full_root E nodes r (path @ [False])) (full_root E nodes r (path @ [True]))"

definition under :: "bool list \<Rightarrow> hash \<times> hash \<Rightarrow> bool" where
  "under path kv \<longleftrightarrow> take (length path) (key_path (fst kv)) = path"

lemma length_key_path [simp]: "length (key_path k) = SMT_DEPTH"
  by (simp add: key_path_def)

lemma under_Nil [simp]: "under [] kv"
  by (simp add: under_def)

lemma under_snoc:
  "length path < SMT_DEPTH \<Longrightarrow>
     under (path @ [b]) kv \<longleftrightarrow> under path kv \<and> (key_bit (length path) (fst kv) \<noteq> 0) = b"
  by (auto simp: under_def take_Suc_conv_app_nth key_path_def)

lemma leaf_at_under:
  assumes "length path = SMT_DEPTH"
  shows "leaf_at nodes path =
    (case filter (under path) nodes of [] \<Rightarrow> HASH_ZERO | kv # _ \<Rightarrow> snd kv)"
proof -
  have "under path = (\<lambda>(k, v). key_path k = path)"
    using assms by (auto simp: under_def fun_eq_iff)
  then show ?thesis by (simp add: leaf_at_def)
qed

lemma full_root_empty:
  "filter (under path) nodes = [] \<Longrightarrow> length path + r = SMT_DEPTH \<Longrightarrow>
     full_root E nodes r path = empty_at E r"
proof (induction r arbitrary: path)
  case 0
  then show ?case by (simp add: leaf_at_under)
next
  case (Suc r)
  then have "filter (under (path @ [b])) nodes = []" for b
    by (auto simp: filter_empty_conv under_snoc)
  with Suc show ?case by simp
qed

lemma compute_subtree_root_full:
  "length path \<le> SMT_DEPTH \<Longrightarrow>
     compute_subtree_root E (filter (under path) nodes) (length path) =
       full_root E nodes (SMT_DEPTH - length path) path"
proof (induction "SMT_DEPTH - length path" arbitrary: path)
  case 0
  then have len: "length path = SMT_DEPTH" by simp
  show ?case
    by (cases "filter (under path) nodes")
       (simp_all add: compute_subtree_root.simps len leaf_at_under empty_root_def)
next
  case (Suc r)
  then have lt: "length path < SMT_DEPTH" and r: "SMT_DEPTH - length path = Suc r" by auto
  have r': "SMT_DEPTH - length (path @ [b]) = r" for b using Suc by simp
  have IH: "compute_subtree_root E (filter (under (path @ [b])) nodes) (Suc (length path)) =
      full_root E nodes r (path @ [b])" for b
    using Suc.hyps(1) [of "path @ [b]"] lt r' [of b] by simp
  have L: "filter (\<lambda>(k, _). key_bit (length path) k = 0) (filter (under path) nodes) =
      filter (under (path @ [False])) nodes"
    using lt by (auto simp: filter_filter under_snoc intro: filter_cong)
  have R: "filter (\<lambda>(k, _). key_bit (length path) k \<noteq> 0) (filter (under path) nodes) =
      filter (under (path @ [True])) nodes"
    using lt by (auto simp: filter_filter under_snoc intro: filter_cong)
  show ?case
  proof (cases "filter (under path) nodes = []")
    case True
    have "length path + Suc r = SMT_DEPTH" "Suc r \<le> SMT_DEPTH" using lt r by auto
    with full_root_empty [OF True, of "Suc r" E] True r show ?thesis
      by (simp add: compute_subtree_root.simps empty_root_def)
  next
    case False
    have "Suc r \<le> SMT_DEPTH" using r by simp
    define ns where "ns = filter (under path) nodes"
    have "compute_subtree_root E ns (length path) =
        hash_smt_node E (full_root E nodes r (path @ [False])) (full_root E nodes r (path @ [True]))"
      using False lt r \<open>Suc r \<le> SMT_DEPTH\<close> L R IH [of False] IH [of True]
      unfolding ns_def [symmetric]
      by (subst compute_subtree_root.simps) (simp add: empty_root_def Let_def)
    then show ?thesis by (simp add: r ns_def)
  qed
qed

lemma key_bit_iff: "key_bit d k \<noteq> 0 \<longleftrightarrow> bit (hash_bytes_of k ! (d div 8)) (7 - d mod 8)"
  by (simp add: key_bit_def and_one_eq bit_iff_odd_drop_bit odd_iff_mod_2_eq_one)

lemma key_path_inject: "key_path j = key_path k \<Longrightarrow> j = k"
proof -
  assume eq: "key_path j = key_path k"
  have bits: "bit (hash_bytes_of j ! i) n = bit (hash_bytes_of k ! i) n" if "i < 32" "n < 8" for i n
  proof -
    define m where "m = 7 - n"
    have m: "m < 8" "7 - m = n" using that by (auto simp: m_def)
    have d: "8 * i + m < SMT_DEPTH" using that m by (simp add: SMT_DEPTH_def)
    have "(8 * i + m) div 8 = i" "(8 * i + m) mod 8 = m" using m(1) by simp_all
    moreover from eq have "key_path j ! (8 * i + m) = key_path k ! (8 * i + m)" by simp
    ultimately show ?thesis using d m(2) by (simp add: key_path_def key_bit_iff)
  qed
  have "hash_bytes_of j ! i = hash_bytes_of k ! i" if "i < 32" for i
    by (rule bit_word_eqI) (use bits that in simp)
  then have "hash_bytes_of j = hash_bytes_of k" by (intro nth_equalityI) simp_all
  then show "j = k" by (rule hash_arr.to_bytes_inject)
qed

lemma leaf_at_Some:
  assumes "hm_ok nodes" and "hm_get nodes k = Some v"
  shows "leaf_at nodes (key_path k) = v"
proof (cases "filter (\<lambda>(j, _). key_path j = key_path k) nodes")
  case Nil
  with assms show ?thesis by (force simp: filter_empty_conv hm_get_iff)
next
  case (Cons kv rest)
  obtain j w where kv: "kv = (j, w)" by (cases kv)
  with Cons have "(j, w) \<in> set (filter (\<lambda>(j, _). key_path j = key_path k) nodes)" by simp
  then have "(j, w) \<in> set nodes" "j = k" by (auto dest: key_path_inject)
  with assms have "w = v" by (simp add: hm_get_iff [symmetric])
  with Cons kv show ?thesis by (simp add: leaf_at_def)
qed

lemma leaf_at_None:
  assumes "hm_ok nodes" and "\<And>k. key_path k = path \<Longrightarrow> hm_get nodes k = None"
  shows "leaf_at nodes path = HASH_ZERO"
proof -
  have "(k, v) \<notin> set nodes" if "key_path k = path" for k v
    using assms(2) [OF that] hm_get_iff [OF assms(1), of k v] by simp
  then have "filter (\<lambda>(k, _). key_path k = path) nodes = []"
    by (auto simp: filter_empty_conv)
  then show ?thesis by (simp add: leaf_at_def)
qed

lemma leaf_at_cong:
  assumes "hm_ok m" and "hm_ok n" and "hm_get m = hm_get n"
  shows "leaf_at m path = leaf_at n path"
proof (cases "\<exists>k v. key_path k = path \<and> hm_get m k = Some v")
  case True
  then obtain k v where "key_path k = path" "hm_get m k = Some v" by blast
  with leaf_at_Some [OF assms(1)] leaf_at_Some [OF assms(2)] assms(3) show ?thesis by metis
next
  case False
  then have "\<And>k. key_path k = path \<Longrightarrow> hm_get m k = None" by auto
  with leaf_at_None [OF assms(1)] leaf_at_None [OF assms(2)] assms(3) show ?thesis by metis
qed

lemma full_root_cong:
  assumes "hm_ok m" and "hm_ok n" and "hm_get m = hm_get n"
  shows "full_root E m r path = full_root E n r path"
proof (induction r arbitrary: path)
  case 0
  show ?case by (simp add: leaf_at_cong [OF assms])
next
  case (Suc r)
  then show ?case by simp
qed

lemma smt_root_full: "smt_root E s = full_root E (smt_leaves s) SMT_DEPTH []"
proof (cases "smt_leaves s = []")
  case True
  then show ?thesis
    using full_root_empty [of "[]" "[]" SMT_DEPTH E] by (simp add: smt_root_def empty_root_def)
next
  case False
  then show ?thesis
    using compute_subtree_root_full [of "[]" E "smt_leaves s"] by (simp add: smt_root_def)
qed

lemma smt_root_cong:
  "hm_ok (smt_leaves s) \<Longrightarrow> hm_ok (smt_leaves t) \<Longrightarrow> hm_get (smt_leaves s) = hm_get (smt_leaves t) \<Longrightarrow>
     smt_root E s = smt_root E t"
  unfolding smt_root_full by (rule full_root_cong)

lemma smt_ok_update: "hm_ok (smt_leaves s) \<Longrightarrow> hm_ok (smt_leaves (smt_update E k v s))"
  by (simp add: smt_update_def hm.ok_insert hm.ok_remove)

lemma smt_get_update:
  "hm_get (smt_leaves (smt_update E k v s)) =
     (hm_get (smt_leaves s))(k := (if v = [] then None else Some (hash_smt_leaf E k v)))"
  by (auto simp: smt_update_def hm_get_insert hm_get_remove fun_eq_iff)

section \<open>The reference tree\<close>

text \<open>
  The full binary tree of depth 256 over a map from keys to values, written from BLAKE3 alone.
  A leaf is reached by the 256 bits of its key, the most significant first, so the key of a
  path is the number the path spells. A key without a value has the zero leaf.
\<close>

definition path_key :: "bool list \<Rightarrow> hash" where
  "path_key path = Hash (horner_sum of_bool 2 (rev path))"

definition reference_leaf :: "env \<Rightarrow> (hash \<Rightarrow> bytes) \<Rightarrow> hash \<Rightarrow> hash" where
  "reference_leaf E vals k =
     (if vals k = [] then Hash 0
      else Hash (blake3 E (domain_preimage (str_bytes ''AURA_SMT_LEAF_v1'') (hash_bytes_of k @ vals k))))"

fun reference_tree :: "env \<Rightarrow> (hash \<Rightarrow> bytes) \<Rightarrow> nat \<Rightarrow> bool list \<Rightarrow> hash" where
  "reference_tree E vals 0 path = reference_leaf E vals (path_key path)"
| "reference_tree E vals (Suc r) path =
     Hash (blake3 E (domain_preimage (str_bytes ''AURA_SMT_NODE_v1'')
       (hash_bytes_of (reference_tree E vals r (path @ [False])) @
        hash_bytes_of (reference_tree E vals r (path @ [True])))))"

text \<open>A sequence of updates (\<open>Some\<close> value) and deletions (\<open>None\<close>), on the tree and on the map.\<close>

fun smt_change :: "env \<Rightarrow> hash \<times> bytes option \<Rightarrow> smt \<Rightarrow> smt" where
  "smt_change E (k, Some v) s = smt_update E k v s"
| "smt_change E (k, None) s = smt_delete k s"

fun map_change :: "hash \<times> bytes option \<Rightarrow> (hash \<Rightarrow> bytes) \<Rightarrow> hash \<Rightarrow> bytes" where
  "map_change (k, Some v) m = m(k := v)"
| "map_change (k, None) m = m(k := [])"

lemma bit_nat_be: "i < n \<Longrightarrow> j < 8 \<Longrightarrow> bit (nat_be n k ! i) j \<longleftrightarrow> bit k (8 * (n - 1 - i) + j)"
proof (induction n arbitrary: k)
  case (Suc n)
  have shift: "bit (k div 256) m = bit k (m + 8)" for m
    using bit_drop_bit_eq [of 8 k] by (simp add: drop_bit_eq_div add.commute fun_eq_iff)
  show ?case
  proof (cases "i = n")
    case True
    with Suc.prems show ?thesis by (simp add: nth_append bit_simps)
  next
    case False
    with Suc.prems have "i < n" and e: "8 * (n - 1 - i) + j + 8 = 8 * (Suc n - 1 - i) + j" by auto
    with Suc.IH [OF this(1) Suc.prems(2), of "k div 256"] show ?thesis
      unfolding shift e by (simp add: nth_append)
  qed
qed simp

lemma key_bit_word: "d < 256 \<Longrightarrow> key_bit d k \<noteq> 0 \<longleftrightarrow> bit (hash_word k) (255 - d)"
proof -
  assume d: "d < 256"
  then have "d div 8 < 32" "7 - d mod 8 < 8" by auto
  moreover from this have "8 * (32 - 1 - d div 8) + (7 - d mod 8) = 255 - d"
    using div_mult_mod_eq [of d 8] by linarith
  ultimately show ?thesis
    using bit_nat_be [of "d div 8" 32 "7 - d mod 8" "unat (hash_word k)"]
    by (simp add: key_bit_iff hash_bytes_of_def be_bytes_def bit_unsigned_iff)
qed

lemma key_path_path_key: "length path = 256 \<Longrightarrow> key_path (path_key path) = path"
proof (rule nth_equalityI)
  fix i assume len: "length path = 256" and "i < length (key_path (path_key path))"
  then have "i < 256" by (simp add: SMT_DEPTH_def)
  with len show "key_path (path_key path) ! i = path ! i"
    by (simp add: key_path_def SMT_DEPTH_def key_bit_word path_key_def bit_horner_sum_bit_word_iff rev_nth less_imp_diff_less)
qed (simp add: SMT_DEPTH_def)

definition represents :: "env \<Rightarrow> (hash \<times> hash) list \<Rightarrow> (hash \<Rightarrow> bytes) \<Rightarrow> bool" where
  "represents E nodes vals \<longleftrightarrow> hm_ok nodes \<and>
     (\<forall>k. hm_get nodes k = (if vals k = [] then None else Some (hash_smt_leaf E k (vals k))))"

lemma represents_change:
  "represents E (smt_leaves s) vals \<Longrightarrow> represents E (smt_leaves (smt_change E c s)) (map_change c vals)"
  by (cases "(E, c, s)" rule: smt_change.cases)
     (auto simp: represents_def smt_update_def smt_delete_def hm.ok_insert hm.ok_remove hm_get_insert hm_get_remove)

lemma represents_fold:
  "represents E (smt_leaves s) vals \<Longrightarrow>
     represents E (smt_leaves (fold (smt_change E) cs s)) (fold map_change cs vals)"
  by (induction cs arbitrary: s vals) (simp_all add: represents_change)

lemma leaf_at_reference:
  assumes "represents E nodes vals" and "length path = 256"
  shows "leaf_at nodes path = reference_leaf E vals (path_key path)"
proof (cases "vals (path_key path) = []")
  case True
  have "hm_get nodes k = None" if "key_path k = path" for k
    using key_path_inject [of k "path_key path"] that key_path_path_key [OF assms(2)] True assms(1)
    by (simp add: represents_def)
  with leaf_at_None [of nodes path] assms(1) True show ?thesis
    by (simp add: represents_def reference_leaf_def HASH_ZERO_def)
next
  case False
  with leaf_at_Some [of nodes "path_key path"] assms show ?thesis
    by (simp add: represents_def reference_leaf_def key_path_path_key hash_smt_leaf_def hash_with_domain_def
        DOMAIN_SMT_LEAF_def)
qed

lemma full_root_reference:
  "represents E nodes vals \<Longrightarrow> length path + r = 256 \<Longrightarrow> full_root E nodes r path = reference_tree E vals r path"
  by (induction r arbitrary: path)
     (simp_all add: leaf_at_reference hash_smt_node_def hash_with_domain_def DOMAIN_SMT_NODE_def)

section \<open>Properties\<close>

text \<open>
  C14: after any sequence of updates and deletions on an empty tree, the recursive root, which
  skips empty subtrees through the table of empty roots, is the root of the full binary tree of
  depth 256 over the map these changes leave: its leaf at the path spelled by a key's 256 bits
  is the domain-separated hash of key and value, and zero where the map has no value.
\<close>
theorem smt_root_is_full_tree_root:
  "smt_root E (fold (smt_change E) cs smt_new) =
     reference_tree E (fold map_change cs (\<lambda>_. [])) 256 []"
proof -
  have "represents E (smt_leaves smt_new) (\<lambda>_. [])"
    by (simp add: represents_def smt_new_def hm_ok_def hm_get_def)
  from full_root_reference [OF represents_fold [OF this], of "[]" 256] show ?thesis
    by (simp add: smt_root_full SMT_DEPTH_def)
qed

theorem smt_root_is_full_tree_root_witness:
  "smt_root toy_env (smt_update toy_env (Hash 5) [9] (smt_update toy_env (Hash 4) [7] smt_new)) =
     reference_tree toy_env ((\<lambda>_. [])(Hash 4 := [7], Hash 5 := [9])) 256 []"
  using smt_root_is_full_tree_root [of toy_env "[(Hash 4, Some [7]), (Hash 5, Some [9])]"] by simp

text \<open>
  The root depends on the map alone, not on the order of the hash map or of the
  updates: updates of different keys commute, updating twice is updating once, and an
  empty value or a deletion after an insertion restores the root from before it.
\<close>
theorem smt_root_order_independent:
  assumes "hm_ok (smt_leaves s)"
  shows "(hm_ok m \<and> hm_get m = hm_get (smt_leaves s) \<longrightarrow>
            smt_root E (s\<lparr>smt_leaves := m\<rparr>) = smt_root E s) \<and>
    (j \<noteq> k \<longrightarrow> smt_root E (smt_update E j v (smt_update E k w s)) =
                smt_root E (smt_update E k w (smt_update E j v s))) \<and>
    smt_root E (smt_update E k v (smt_update E k w s)) = smt_root E (smt_update E k v s) \<and>
    (hm_get (smt_leaves s) k = None \<longrightarrow>
       smt_root E (smt_update E k [] (smt_update E k v s)) = smt_root E s \<and>
       smt_root E (smt_delete k (smt_update E k v s)) = smt_root E s)"
proof -
  have del: "smt_delete k t = smt_update E k [] t" for t
    by (simp add: smt_delete_def smt_update_def)
  show ?thesis
    using assms
    by (auto simp: del smt_get_update smt_ok_update fun_upd_twist fun_upd_idem
        intro!: smt_root_cong)
qed

theorem smt_root_order_independent_witness:
  "smt_root toy_env (smt_update toy_env (Hash 1) [] (smt_update toy_env (Hash 1) [7] smt_new)) =
     smt_root toy_env smt_new"
  using smt_root_order_independent [of smt_new "[]" toy_env "Hash 1" "Hash 1" "[7]" "[7]"]
  by (simp add: smt_new_def)

end
