(* ===== verification/Kv.thy ===== *)
theory Kv
  imports Crypto
begin

text \<open>
  \<open>aura-storage/src/kv.rs\<close>: the ordered key-value store with its optional file. The file's
  content is \<open>kv_disk\<close>; writing goes to a temporary file that is renamed over it, so a
  failed step leaves the old content. \<open>kv_faults\<close> lists, for the coming writes, whether
  some file operation fails (an exhausted list means success). bincode is a parameter: the
  two functions of \<open>kv_codec\<close>; serializing into a vector has no error case.
\<close>

datatype storage_error = StoreIo | StoreBincode | NotFound | Corrupted string

definition CF_ACCOUNTS :: bytes where "CF_ACCOUNTS = str_bytes ''a:''"
definition CF_BLOCKS :: bytes where "CF_BLOCKS = str_bytes ''b:''"
definition CF_HEIGHTS :: bytes where "CF_HEIGHTS = str_bytes ''h:''"
definition CF_TXS :: bytes where "CF_TXS = str_bytes ''t:''"
definition CF_META :: bytes where "CF_META = str_bytes ''m:''"

datatype batch_op = Put bytes bytes | Delete bytes

type_synonym kv_data = "(bytes \<times> bytes) list"

record kv_codec =
  data_enc :: "kv_data \<Rightarrow> bytes"
  data_dec :: "bytes \<Rightarrow> kv_data option"

record kv_store =
  kv_map :: kv_data
  kv_path :: "string option"
  kv_disk :: "bytes option"
  kv_faults :: "bool list"

definition open_in_memory :: kv_store where
  "open_in_memory = \<lparr>kv_map = [], kv_path = None, kv_disk = None, kv_faults = []\<rparr>"

definition kv_open ::
  "'a kv_codec_scheme \<Rightarrow> string \<Rightarrow> bytes option \<Rightarrow> bool list \<Rightarrow> storage_error + kv_store" where
  "kv_open C path disk faults =
     (case disk of
        None \<Rightarrow>
          Inr \<lparr>kv_map = [], kv_path = Some path, kv_disk = None, kv_faults = faults\<rparr>
      | Some buf \<Rightarrow>
          if buf = [] then
            Inr \<lparr>kv_map = [], kv_path = Some path, kv_disk = disk, kv_faults = faults\<rparr>
          else (case data_dec C buf of
             None \<Rightarrow> Inl StoreBincode
           | Some m \<Rightarrow>
               Inr \<lparr>kv_map = m, kv_path = Some path, kv_disk = disk, kv_faults = faults\<rparr>))"

definition kv_get :: "kv_store \<Rightarrow> bytes \<Rightarrow> bytes option" where
  "kv_get s key = om_get (kv_map s) key"

definition persist :: "'a kv_codec_scheme \<Rightarrow> kv_store \<Rightarrow> (storage_error + unit) \<times> kv_store" where
  "persist C s =
     (case kv_path s of
        None \<Rightarrow> (Inr (), s)
      | Some _ \<Rightarrow>
          (case kv_faults s of
             True # fs \<Rightarrow> (Inl StoreIo, s\<lparr>kv_faults := fs\<rparr>)
           | False # fs \<Rightarrow>
               (Inr (), s\<lparr>kv_disk := Some (data_enc C (kv_map s)), kv_faults := fs\<rparr>)
           | [] \<Rightarrow> (Inr (), s\<lparr>kv_disk := Some (data_enc C (kv_map s))\<rparr>)))"

definition kv_put ::
  "'a kv_codec_scheme \<Rightarrow> bytes \<Rightarrow> bytes \<Rightarrow> kv_store \<Rightarrow> (storage_error + unit) \<times> kv_store" where
  "kv_put C key val s = persist C (s\<lparr>kv_map := om_insert key val (kv_map s)\<rparr>)"

definition kv_delete ::
  "'a kv_codec_scheme \<Rightarrow> bytes \<Rightarrow> kv_store \<Rightarrow> (storage_error + unit) \<times> kv_store" where
  "kv_delete C key s = persist C (s\<lparr>kv_map := om_remove key (kv_map s)\<rparr>)"

fun apply_op :: "batch_op \<Rightarrow> kv_data \<Rightarrow> kv_data" where
  "apply_op (Put k v) m = om_insert k v m"
| "apply_op (Delete k) m = om_remove k m"

definition apply_batch ::
  "'a kv_codec_scheme \<Rightarrow> batch_op list \<Rightarrow> kv_store \<Rightarrow> (storage_error + unit) \<times> kv_store" where
  "apply_batch C ops s = persist C (s\<lparr>kv_map := fold apply_op ops (kv_map s)\<rparr>)"

definition starts_with :: "bytes \<Rightarrow> bytes \<Rightarrow> bool" where
  "starts_with p k \<longleftrightarrow> take (length p) k = p"

definition scan_prefix :: "bytes \<Rightarrow> kv_store \<Rightarrow> kv_data" where
  "scan_prefix p s =
     takeWhile (\<lambda>(k, _). starts_with p k) (dropWhile (\<lambda>(k, _). k < p) (kv_map s))"

section \<open>Lemmas\<close>

lemma persist_map [simp]: "kv_map (snd (persist C s)) = kv_map s"
  by (auto simp: persist_def split: option.splits list.splits bool.splits)

lemma persist_path [simp]: "kv_path (snd (persist C s)) = kv_path s"
  by (auto simp: persist_def split: option.splits list.splits bool.splits)

lemma persist_memory: "kv_path s = None \<Longrightarrow> persist C s = (Inr (), s)"
  by (simp add: persist_def)

lemma persist_cases:
  "kv_disk (snd (persist C s)) = kv_disk s \<or>
   kv_disk (snd (persist C s)) = Some (data_enc C (kv_map s))"
  by (auto simp: persist_def split: option.splits list.splits bool.splits)

lemma persist_Inr:
  "fst (persist C s) = Inr u \<Longrightarrow> kv_path s = Some p \<Longrightarrow>
     kv_disk (snd (persist C s)) = Some (data_enc C (kv_map s))"
  by (auto simp: persist_def split: option.splits list.splits bool.splits)

lemma om_ok_fold_apply_op: "om_ok m \<Longrightarrow> om_ok (fold apply_op ops m)"
proof (induction ops arbitrary: m)
  case (Cons op ops)
  then show ?case by (cases op) (simp_all add: om.ok_insert om.ok_remove)
qed simp

lemma fold_apply_op_Put:
  "fold apply_op (map (\<lambda>(k, v). Put k v) kvs) m = fold (\<lambda>(k, v). om_insert k v) kvs m"
  by (induction kvs arbitrary: m) auto

lemma starts_with_le: "starts_with p k \<Longrightarrow> p \<le> k"
proof (induction p arbitrary: k)
  case (Cons b p)
  then show ?case by (cases k) (auto simp: starts_with_def)
qed simp

text \<open>In lexicographic order the keys with one prefix are contiguous.\<close>

lemma starts_with_between:
  "p \<le> k \<Longrightarrow> k \<le> k' \<Longrightarrow> starts_with p k' \<Longrightarrow> starts_with p k"
proof (induction p arbitrary: k k')
  case (Cons b p)
  then show ?case by (cases k; cases k') (auto simp: starts_with_def)
qed (simp add: starts_with_def)

lemma takeWhile_filter_sorted:
  "om_ok m \<Longrightarrow> \<forall>kv \<in> set m. p \<le> fst kv \<Longrightarrow>
     takeWhile (\<lambda>(k, _). starts_with p k) m = filter (\<lambda>(k, _). starts_with p k) m"
proof (induction m)
  case (Cons kv m)
  obtain k v where kv: "kv = (k, v)" by (cases kv)
  from Cons.prems have ok: "om_ok m" and above: "\<forall>kv \<in> set m. k < fst kv"
    by (auto simp: om_ok_def kv)
  have "\<not> starts_with p (fst kv')" if "kv' \<in> set m" "\<not> starts_with p k" for kv'
  proof -
    have "p \<le> k" using Cons.prems(2) by (simp add: kv)
    moreover have "k \<le> fst kv'" using above that(1) by (simp add: less_imp_le)
    ultimately show ?thesis using starts_with_between that(2) by blast
  qed
  with Cons ok show ?case by (auto simp: kv filter_empty_conv empty_filter_conv)
qed simp

lemma scan_prefix_filter:
  assumes "om_ok (kv_map s)"
  shows "scan_prefix p s = filter (\<lambda>(k, _). starts_with p k) (kv_map s)"
proof -
  let ?m = "kv_map s"
  have "filter (\<lambda>(k, _). starts_with p k) m =
      takeWhile (\<lambda>(k, _). starts_with p k) (dropWhile (\<lambda>(k, _). k < p) m)" if "om_ok m" for m :: kv_data
    using that
  proof (induction m)
    case (Cons kv m)
    obtain k v where kv: "kv = (k, v)" by (cases kv)
    from Cons.prems have ok: "om_ok m" by (simp add: om_ok_def)
    show ?case
    proof (cases "k < p")
      case True
      then have "\<not> starts_with p k" using starts_with_le by force
      with True Cons.IH [OF ok] show ?thesis by (simp add: kv)
    next
      case False
      then have "\<forall>kv' \<in> set (kv # m). p \<le> fst kv'"
        using Cons.prems by (auto simp: om_ok_def kv)
      with takeWhile_filter_sorted [OF Cons.prems this] False show ?thesis by (simp add: kv)
    qed
  qed simp
  with assms show ?thesis by (simp add: scan_prefix_def)
qed

section \<open>Properties\<close>

text \<open>
  On a store whose map is well-formed, a prefix scan lists exactly the entries whose
  key starts with the prefix, in key order; and every operation keeps the map well-formed.
\<close>
theorem scan_prefix_exact:
  assumes "om_ok (kv_map s)"
  shows "set (scan_prefix p s) = {(k, v). kv_get s k = Some v \<and> starts_with p k} \<and>
    sorted_wrt (<) (map fst (scan_prefix p s)) \<and>
    om_ok (kv_map (snd (kv_put C k v s))) \<and> om_ok (kv_map (snd (kv_delete C k s))) \<and>
    om_ok (kv_map (snd (apply_batch C ops s)))"
proof -
  have "sorted_wrt (<) (map fst (filter (\<lambda>(k, _). starts_with p k) m))"
    if "om_ok m" for m :: kv_data
    using that by (induction m) (auto simp: om_ok_def)
  with assms show ?thesis
    by (auto simp: scan_prefix_filter kv_get_def om_get_iff kv_put_def kv_delete_def
        apply_batch_def om.ok_insert om.ok_remove om_ok_fold_apply_op)
qed

theorem scan_prefix_exact_witness:
  "om_ok (kv_map (open_in_memory\<lparr>kv_map := [([97, 58, 1], [9])]\<rparr>)) \<and>
   set (scan_prefix [97, 58] (open_in_memory\<lparr>kv_map := [([97, 58, 1], [9])]\<rparr>)) =
     {(k, v). kv_get (open_in_memory\<lparr>kv_map := [([97, 58, 1], [9])]\<rparr>) k = Some v \<and>
        starts_with [97, 58] k}"
proof -
  have ok: "om_ok (kv_map (open_in_memory\<lparr>kv_map := [([97, 58, 1], [9])]\<rparr>))"
    by (simp add: om_ok_def)
  from scan_prefix_exact [OF ok] ok show ?thesis by blast
qed

text \<open>
  Documented behaviour of bincode on the ordered map: what was written is read back, and is
  not empty.
\<close>

definition data_codec_laws :: "'a kv_codec_scheme \<Rightarrow> bool" where
  "data_codec_laws C \<longleftrightarrow> (\<forall>m. om_ok m \<longrightarrow> data_dec C (data_enc C m) = Some m \<and> data_enc C m \<noteq> [])"

text \<open>
  C36: a batch on a store with a file is all or nothing for the file: when success is reported
  the file holds the whole new map, and reopening it gives back the map in memory; when an error
  is reported, which happens exactly when a file operation failed, the file is what it was before.
  In memory the batch is applied in both cases.
\<close>
theorem apply_batch_durable:
  assumes "data_codec_laws C" and "om_ok (kv_map s)" and "kv_path s = Some path"
    and "apply_batch C ops s = (r, t)"
  shows "kv_map t = fold apply_op ops (kv_map s) \<and>
    (case r of
       Inr _ \<Rightarrow> kv_disk t = Some (data_enc C (kv_map t)) \<and>
         (\<exists>u. kv_open C path (kv_disk t) faults = Inr u \<and> kv_map u = kv_map t)
     | Inl e \<Rightarrow> e = StoreIo \<and> kv_disk t = kv_disk s) \<and>
    ((\<exists>e. r = Inl e) \<longleftrightarrow> (\<exists>fs. kv_faults s = True # fs))"
proof -
  let ?s = "s\<lparr>kv_map := fold apply_op ops (kv_map s)\<rparr>"
  from assms(4) have rt: "persist C ?s = (r, t)" by (simp add: apply_batch_def)
  have "om_ok (fold apply_op ops (kv_map s))" using assms(2) by (rule om_ok_fold_apply_op)
  then have "\<exists>u. kv_open C path (Some (data_enc C (fold apply_op ops (kv_map s)))) faults = Inr u \<and>
      kv_map u = fold apply_op ops (kv_map s)"
    using assms(1) by (simp add: kv_open_def data_codec_laws_def)
  with rt assms(3) show ?thesis
    by (auto simp: persist_def split: list.splits bool.splits)
qed

text \<open>A concrete codec with these laws, for the examples.\<close>

fun sample_enc_str :: "bytes \<Rightarrow> bytes" where
  "sample_enc_str [] = [0]"
| "sample_enc_str (b # bs) = 1 # b # sample_enc_str bs"

fun sample_dec_str :: "bytes \<Rightarrow> (bytes \<times> bytes) option" where
  "sample_dec_str [] = None"
| "sample_dec_str (t # r) =
     (if t = 0 then Some ([], r)
      else (case r of
        [] \<Rightarrow> None
      | b # r' \<Rightarrow> map_option (\<lambda>(s, q). (b # s, q)) (sample_dec_str r')))"

fun sample_enc_map :: "kv_data \<Rightarrow> bytes" where
  "sample_enc_map [] = [0]"
| "sample_enc_map ((k, v) # m) = 1 # sample_enc_str k @ sample_enc_str v @ sample_enc_map m"

fun sample_dec_map :: "nat \<Rightarrow> bytes \<Rightarrow> kv_data option" where
  "sample_dec_map 0 bs = None"
| "sample_dec_map (Suc n) [] = None"
| "sample_dec_map (Suc n) (t # r) =
     (if t = 0 then Some []
      else (case sample_dec_str r of
        None \<Rightarrow> None
      | Some (k, q) \<Rightarrow>
          (case sample_dec_str q of
             None \<Rightarrow> None
           | Some (v, q') \<Rightarrow> map_option (\<lambda>m. (k, v) # m) (sample_dec_map n q'))))"

lemma sample_dec_enc_str: "sample_dec_str (sample_enc_str s @ q) = Some (s, q)"
  by (induction s) simp_all

lemma sample_dec_enc_map: "length m < n \<Longrightarrow> sample_dec_map n (sample_enc_map m) = Some m"
proof (induction m arbitrary: n)
  case Nil
  then show ?case by (cases n) simp_all
next
  case (Cons kv m)
  then show ?case by (cases n; cases kv) (simp_all add: sample_dec_enc_str)
qed

lemma length_sample_enc_map: "length m < length (sample_enc_map m)"
  by (induction m rule: sample_enc_map.induct) auto

definition toy_kv_codec :: kv_codec where
  "toy_kv_codec =
     \<lparr>data_enc = sample_enc_map, data_dec = (\<lambda>bs. sample_dec_map (length bs) bs)\<rparr>"

lemma data_codec_laws_toy: "data_codec_laws toy_kv_codec"
proof -
  have "sample_enc_map m \<noteq> []" for m by (cases m rule: sample_enc_map.cases) auto
  then show ?thesis
    by (simp add: data_codec_laws_def toy_kv_codec_def sample_dec_enc_map length_sample_enc_map)
qed

theorem apply_batch_durable_witness:
  "(\<exists>t u. apply_batch toy_kv_codec [Put [1] [2]] (open_in_memory\<lparr>kv_path := Some ''state.db''\<rparr>) = (Inr (), t) \<and>
      kv_open toy_kv_codec ''state.db'' (kv_disk t) [] = Inr u \<and> kv_map u = [([1], [2])]) \<and>
   (\<exists>t. apply_batch toy_kv_codec [Put [1] [2]]
        (open_in_memory\<lparr>kv_path := Some ''state.db'', kv_disk := Some [7], kv_faults := [True]\<rparr>) = (Inl StoreIo, t) \<and>
      kv_disk t = Some [7] \<and> kv_map t = [([1], [2])])"
proof -
  let ?s = "open_in_memory\<lparr>kv_path := Some ''state.db''\<rparr>" and ?ops = "[Put [1] [2]]"
  let ?t = "?s\<lparr>kv_disk := Some [7], kv_faults := [True]\<rparr>"
  have ok: "kv_path ?s = Some ''state.db''" "om_ok (kv_map ?s)" "kv_path ?t = Some ''state.db''" "om_ok (kv_map ?t)"
    by (simp_all add: open_in_memory_def)
  obtain r s' where run1: "apply_batch toy_kv_codec ?ops ?s = (r, s')" by fastforce
  obtain q t' where run2: "apply_batch toy_kv_codec ?ops ?t = (q, t')" by fastforce
  have faults: "kv_faults ?s = []" "kv_faults ?t = [True]" "kv_disk ?t = Some [7]" "kv_map ?s = []" "kv_map ?t = []"
    by (simp_all add: open_in_memory_def)
  note one = apply_batch_durable [OF data_codec_laws_toy ok(2,1) run1, of "[]", unfolded faults]
  note two = apply_batch_durable [OF data_codec_laws_toy ok(4,3) run2, of "[]", unfolded faults]
  from one have "r = Inr () \<and> (\<exists>u. kv_open toy_kv_codec ''state.db'' (kv_disk s') [] = Inr u \<and> kv_map u = [([1], [2])])"
    by (cases r) auto
  moreover from two have "q = Inl StoreIo \<and> kv_disk t' = Some [7] \<and> kv_map t' = [([1], [2])]"
    by (cases q) simp_all
  ultimately show ?thesis using run1 run2 by blast
qed

end
