(* ===== verification/State.thy ===== *)
theory State
  imports Block Smt Kv
begin

text \<open>
  \<open>aura-storage\<close>: accounts (\<open>account.rs\<close>), the execution overlay and the state database
  (\<open>state.rs\<close>), which keeps accounts, blocks, heights and metadata in the key-value store
  and mirrors the accounts in the sparse Merkle tree. The locks on the tree and the store
  are different, so no operation here waits for a lock it holds itself.
\<close>

section \<open>Accounts and overlays\<close>

record account =
  balance :: u64
  nonce :: u64
  staked_amount :: u64
  is_validator :: bool
  validator_pubkey :: "public_key option"

definition account_new :: "u64 \<Rightarrow> u64 \<Rightarrow> account" where
  "account_new bal n =
     \<lparr>balance = bal, nonce = n, staked_amount = 0, is_validator = False, validator_pubkey = None\<rparr>"

definition account_default :: account where
  "account_default =
     \<lparr>balance = 0, nonce = 0, staked_amount = 0, is_validator = False, validator_pubkey = None\<rparr>"

text \<open>bincode on accounts and blocks joins the parameter of the store.\<close>

record codec = kv_codec +
  acc_enc :: "account \<Rightarrow> bytes"
  acc_dec :: "bytes \<Rightarrow> account option"
  block_enc :: "block \<Rightarrow> bytes"
  block_dec :: "bytes \<Rightarrow> block option"

type_synonym overlay = "(address \<times> account) list"

record state_db =
  db_kv :: kv_store
  db_smt :: smt

definition account_key :: "address \<Rightarrow> bytes" where
  "account_key a = CF_ACCOUNTS @ addr_bytes a"

definition block_key :: "hash \<Rightarrow> bytes" where
  "block_key h = CF_BLOCKS @ hash_bytes_of h"

definition height_key :: "u64 \<Rightarrow> bytes" where
  "height_key n = CF_HEIGHTS @ be_bytes 8 n"

definition META_KEY :: bytes where
  "META_KEY = CF_META @ str_bytes ''latest_height''"

definition key_hash :: "env \<Rightarrow> address \<Rightarrow> hash" where
  "key_hash E a = hash_with_domain E DOMAIN_SMT_LEAF (addr_bytes a)"

section \<open>Reading\<close>

definition load_entry :: "env \<Rightarrow> bytes \<times> bytes \<Rightarrow> smt \<Rightarrow> smt" where
  "load_entry E kv s =
     (let addr_slice = drop (length CF_ACCOUNTS) (fst kv)
      in if length addr_slice = 20
         then smt_update E (key_hash E (Address (of_be_bytes addr_slice))) (snd kv) s
         else s)"

definition state_db_new :: "env \<Rightarrow> kv_store \<Rightarrow> state_db" where
  "state_db_new E kv =
     \<lparr>db_kv = kv, db_smt = fold (load_entry E) (scan_prefix CF_ACCOUNTS kv) smt_new\<rparr>"

definition get_account :: "codec \<Rightarrow> state_db \<Rightarrow> address \<Rightarrow> account" where
  "get_account C db a =
     (case kv_get (db_kv db) (account_key a) of
        Some bs \<Rightarrow> (case acc_dec C bs of Some acc \<Rightarrow> acc | None \<Rightarrow> account_default)
      | None \<Rightarrow> account_default)"

definition get_state_root :: "env \<Rightarrow> state_db \<Rightarrow> hash" where
  "get_state_root E db = smt_root E (db_smt db)"

definition get_latest_height :: "state_db \<Rightarrow> u64" where
  "get_latest_height db =
     (case kv_get (db_kv db) META_KEY of
        Some bs \<Rightarrow> if length bs = 8 then of_be_bytes bs else 0
      | None \<Rightarrow> 0)"

definition get_block_by_height :: "codec \<Rightarrow> state_db \<Rightarrow> u64 \<Rightarrow> block option" where
  "get_block_by_height C db height =
     (case kv_get (db_kv db) (height_key height) of
        None \<Rightarrow> None
      | Some hb \<Rightarrow>
          (case kv_get (db_kv db) (CF_BLOCKS @ hb) of
             None \<Rightarrow> None
           | Some bb \<Rightarrow> block_dec C bb))"

definition get_block_by_hash :: "codec \<Rightarrow> state_db \<Rightarrow> hash \<Rightarrow> block option" where
  "get_block_by_hash C db h =
     (case kv_get (db_kv db) (block_key h) of None \<Rightarrow> None | Some bb \<Rightarrow> block_dec C bb)"

definition get_validators :: "codec \<Rightarrow> state_db \<Rightarrow> (address \<times> account) list" where
  "get_validators C db =
     List.map_filter (\<lambda>(k, v).
        let addr_slice = drop (length CF_ACCOUNTS) k
        in if length addr_slice = 20
           then (case acc_dec C v of
              None \<Rightarrow> None
            | Some acc \<Rightarrow>
                if is_validator acc \<and> staked_amount acc > 0
                then Some (Address (of_be_bytes addr_slice), acc) else None)
           else None)
       (scan_prefix CF_ACCOUNTS (db_kv db))"

definition overlay_get :: "codec \<Rightarrow> overlay \<Rightarrow> state_db \<Rightarrow> address \<Rightarrow> account" where
  "overlay_get C ov db a = (case hm_get ov a of Some acc \<Rightarrow> acc | None \<Rightarrow> get_account C db a)"

definition overlay_set :: "address \<Rightarrow> account \<Rightarrow> overlay \<Rightarrow> overlay" where
  "overlay_set a acc ov = hm_insert a acc ov"

section \<open>Writing\<close>

definition write_account ::
  "env \<Rightarrow> codec \<Rightarrow> address \<Rightarrow> account \<Rightarrow> batch_op list \<times> smt \<Rightarrow> batch_op list \<times> smt" where
  "write_account E C a acc os =
     (let bs = acc_enc C acc
      in (fst os @ [Put (account_key a) bs], smt_update E (key_hash E a) bs (snd os)))"

definition block_puts :: "env \<Rightarrow> codec \<Rightarrow> block \<Rightarrow> u64 \<Rightarrow> batch_op list" where
  "block_puts E C b height =
     [Put (block_key (block_hash E b)) (block_enc C b),
      Put (height_key height) (hash_bytes_of (block_hash E b)),
      Put META_KEY (be_bytes 8 height)]"

definition genesis_validator_account :: "codec \<Rightarrow> state_db \<Rightarrow> genesis_validator \<Rightarrow> account" where
  "genesis_validator_account C db v =
     (get_account C db (gv_address v))
       \<lparr>is_validator := True, validator_pubkey := Some (gv_pubkey v), staked_amount := gv_stake v\<rparr>"

definition apply_genesis ::
  "env \<Rightarrow> codec \<Rightarrow> genesis_config \<Rightarrow> state_db \<Rightarrow> (storage_error + hash) \<times> state_db" where
  "apply_genesis E C g db =
     (let os1 = fold (\<lambda>ga. write_account E C (ga_address ga) (account_new (ga_balance ga) 0))
            (g_accounts g) ([], db_smt db);
          os2 = fold (\<lambda>gv. write_account E C (gv_address gv) (genesis_validator_account C db gv))
            (g_validators g) os1;
          ops = fst os2 @ block_puts E C (to_genesis_block E g) 0;
          (r, kv) = apply_batch C ops (db_kv db)
      in (case r of Inl e \<Rightarrow> Inl e | Inr _ \<Rightarrow> Inr (smt_root E (snd os2)),
          \<lparr>db_kv = kv, db_smt = snd os2\<rparr>))"

definition commit_block ::
  "env \<Rightarrow> codec \<Rightarrow> block \<Rightarrow> overlay \<Rightarrow> state_db \<Rightarrow> (storage_error + hash) \<times> state_db" where
  "commit_block E C b ov db =
     (let os = fold (\<lambda>(a, acc). write_account E C a acc) ov ([], db_smt db);
          ops = fst os @ block_puts E C b (h_height (b_header b));
          (r, kv) = apply_batch C ops (db_kv db)
      in (case r of Inl e \<Rightarrow> Inl e | Inr _ \<Rightarrow> Inr (smt_root E (snd os)),
          \<lparr>db_kv = kv, db_smt = snd os\<rparr>))"

section \<open>Lemmas\<close>

lemma overlay_get_set:
  "overlay_get C (overlay_set a acc ov) db b = (if b = a then acc else overlay_get C ov db b)"
  by (simp add: overlay_get_def overlay_set_def hm_get_insert)

lemma hm_ok_overlay_set: "hm_ok ov \<Longrightarrow> hm_ok (overlay_set a acc ov)"
  by (simp add: overlay_set_def hm.ok_insert)

lemmas cf_defs = CF_ACCOUNTS_def CF_BLOCKS_def CF_HEIGHTS_def CF_META_def

lemmas key_defs = account_key_def block_key_def height_key_def META_KEY_def cf_defs str_bytes_def

lemma length_CF [simp]: "length CF_ACCOUNTS = 2"
  by (simp add: CF_ACCOUNTS_def)

lemma account_key_inject [simp]: "account_key a = account_key b \<longleftrightarrow> a = b"
  by (auto simp: account_key_def dest: addr_arr.to_bytes_inject)

lemma height_key_inject [simp]: "height_key m = height_key n \<longleftrightarrow> m = n"
  by (auto simp: height_key_def dest: u64_arr.to_bytes_inject)

lemma block_key_inject [simp]: "block_key g = block_key h \<longleftrightarrow> g = h"
  by (auto simp: block_key_def dest: hash_arr.to_bytes_inject)

lemma keys_disjoint [simp]:
  "account_key a \<noteq> block_key h" "block_key h \<noteq> account_key a"
  "account_key a \<noteq> height_key n" "height_key n \<noteq> account_key a"
  "account_key a \<noteq> META_KEY" "META_KEY \<noteq> account_key a"
  "height_key n \<noteq> block_key h" "block_key h \<noteq> height_key n"
  "height_key n \<noteq> META_KEY" "META_KEY \<noteq> height_key n"
  "block_key h \<noteq> META_KEY" "META_KEY \<noteq> block_key h"
  "account_key a \<noteq> CF_BLOCKS @ x" "META_KEY \<noteq> CF_BLOCKS @ x" "height_key n \<noteq> CF_BLOCKS @ x"
  by (auto simp: key_defs)

lemma starts_with_account_key [simp]: "starts_with CF_ACCOUNTS (account_key a)"
  by (simp add: starts_with_def account_key_def)

lemma account_key_cases:
  assumes "starts_with CF_ACCOUNTS k" and "length (drop 2 k) = 20"
  shows "k = account_key (Address (of_be_bytes (drop 2 k)))"
proof -
  have "addr_bytes (Address (of_be_bytes (drop 2 k))) = drop 2 k"
    using assms(2) by (simp add: addr_bytes_def be_bytes_of_be_bytes)
  then show ?thesis
    using assms(1) append_take_drop_id [of 2 k] by (simp add: account_key_def starts_with_def)
qed

lemma account_key_drop [simp]:
  "drop 2 (account_key a) = addr_bytes a" "Address (of_be_bytes (addr_bytes a)) = a"
  by (simp_all add: account_key_def CF_ACCOUNTS_def addr_bytes_def of_be_bytes_be_bytes)

lemma length_account_key [simp]: "length (account_key a) = 22"
  by (simp add: account_key_def)

text \<open>What a sequence of account writes adds to the batch and to the tree.\<close>

definition account_puts :: "codec \<Rightarrow> (address \<times> account) list \<Rightarrow> (bytes \<times> bytes) list" where
  "account_puts C l = map (\<lambda>(a, acc). (account_key a, acc_enc C acc)) l"

lemma fold_write_account:
  "fold (\<lambda>(a, acc). write_account E C a acc) l os =
     (fst os @ map (\<lambda>(k, v). Put k v) (account_puts C l),
      fold (\<lambda>(a, acc). smt_update E (key_hash E a) (acc_enc C acc)) l (snd os))"
  by (induction l arbitrary: os) (auto simp: write_account_def account_puts_def Let_def)

definition block_entries :: "env \<Rightarrow> codec \<Rightarrow> block \<Rightarrow> u64 \<Rightarrow> (bytes \<times> bytes) list" where
  "block_entries E C b height =
     [(block_key (block_hash E b), block_enc C b),
      (height_key height, hash_bytes_of (block_hash E b)), (META_KEY, be_bytes 8 height)]"

lemma block_puts_entries: "block_puts E C b n = map (\<lambda>(k, v). Put k v) (block_entries E C b n)"
  by (simp add: block_puts_def block_entries_def)

text \<open>Both writers are one batch of account entries and block entries.\<close>

definition write_all ::
  "env \<Rightarrow> codec \<Rightarrow> (address \<times> account) list \<Rightarrow> block \<Rightarrow> u64 \<Rightarrow> state_db \<Rightarrow> state_db" where
  "write_all E C l b height db =
     \<lparr>db_kv = snd (apply_batch C (map (\<lambda>(k, v). Put k v) (account_puts C l @ block_entries E C b height))
        (db_kv db)),
      db_smt = fold (\<lambda>(a, acc). smt_update E (key_hash E a) (acc_enc C acc)) l (db_smt db)\<rparr>"

lemma commit_block_write_all:
  "snd (commit_block E C b ov db) = write_all E C ov b (h_height (b_header b)) db"
  by (simp add: commit_block_def Let_def fold_write_account block_puts_entries write_all_def
      case_prod_beta)

definition genesis_writes :: "codec \<Rightarrow> genesis_config \<Rightarrow> state_db \<Rightarrow> (address \<times> account) list" where
  "genesis_writes C g db =
     map (\<lambda>ga. (ga_address ga, account_new (ga_balance ga) 0)) (g_accounts g) @
     map (\<lambda>gv. (gv_address gv, genesis_validator_account C db gv)) (g_validators g)"

lemma fold_write_account_map:
  "fold (\<lambda>x. write_account E C (f x) (h x)) l os =
     fold (\<lambda>(a, acc). write_account E C a acc) (map (\<lambda>x. (f x, h x)) l) os"
  by (induction l arbitrary: os) auto

lemma apply_genesis_write_all:
  "snd (apply_genesis E C g db) = write_all E C (genesis_writes C g db) (to_genesis_block E g) 0 db"
  by (simp add: apply_genesis_def Let_def fold_write_account_map fold_write_account
      block_puts_entries write_all_def genesis_writes_def account_puts_def case_prod_beta)

lemma write_all_lookup:
  assumes "om_ok (kv_map (db_kv db))"
  shows "kv_get (db_kv (write_all E C l b height db)) k =
    (kv_get (db_kv db) ++ map_of (rev (account_puts C l @ block_entries E C b height))) k"
proof -
  let ?kvs = "account_puts C l @ block_entries E C b height"
  have "kv_map (db_kv (write_all E C l b height db)) =
      fold (\<lambda>(k, v). om_insert k v) ?kvs (kv_map (db_kv db))"
    unfolding write_all_def apply_batch_def by (simp only: fold_apply_op_Put) simp
  then show ?thesis
    by (simp only: kv_get_def [abs_def] om.lookup_fold_insert [OF assms])
qed

lemma om_ok_write_all:
  "om_ok (kv_map (db_kv db)) \<Longrightarrow> om_ok (kv_map (db_kv (write_all E C l b height db)))"
  by (simp add: write_all_def apply_batch_def om_ok_fold_apply_op)

lemma map_of_account_puts:
  "map_of (rev (account_puts C l)) (account_key a) = map_option (acc_enc C) (map_of (rev l) a)"
  by (induction l) (auto simp: account_puts_def map_add_def split: option.splits)

lemma map_of_account_puts_other:
  "k \<notin> range account_key \<Longrightarrow> map_of (rev (account_puts C l)) k = None"
  by (auto simp: map_of_eq_None_iff account_puts_def)

lemma kv_get_write_account:
  "om_ok (kv_map (db_kv db)) \<Longrightarrow>
     kv_get (db_kv (write_all E C l b height db)) (account_key a) =
       (case map_of (rev l) a of Some acc \<Rightarrow> Some (acc_enc C acc)
        | None \<Rightarrow> kv_get (db_kv db) (account_key a))"
  by (simp add: write_all_lookup map_add_def map_of_account_puts block_entries_def
      split: option.split)

lemma kv_get_write_other:
  "om_ok (kv_map (db_kv db)) \<Longrightarrow> k \<notin> range account_key \<Longrightarrow>
     kv_get (db_kv (write_all E C l b height db)) k =
       (case map_of (rev (block_entries E C b height)) k of Some v \<Rightarrow> Some v
        | None \<Rightarrow> kv_get (db_kv db) k)"
  by (simp add: write_all_lookup map_add_def map_of_account_puts_other split: option.split)

lemma get_account_write_all:
  assumes "om_ok (kv_map (db_kv db))" and "\<And>acc. acc_dec C (acc_enc C acc) = Some acc"
  shows "get_account C (write_all E C l b height db) a =
    (case map_of (rev l) a of Some acc \<Rightarrow> acc | None \<Rightarrow> get_account C db a)"
  using assms by (simp add: get_account_def kv_get_write_account split: option.split)

lemma map_of_rev_hm: "hm_ok ov \<Longrightarrow> map_of (rev ov) a = hm_get ov a"
  by (simp add: hm_ok_def hm_get_def map_of_rev_distinct)

lemma other_keys_range [simp]:
  "block_key h \<notin> range account_key" "height_key n \<notin> range account_key"
  "META_KEY \<notin> range account_key"
  by auto

lemma kv_get_write_block:
  assumes "om_ok (kv_map (db_kv db))"
  shows "kv_get (db_kv (write_all E C l b height db)) META_KEY = Some (be_bytes 8 height)"
    and "kv_get (db_kv (write_all E C l b height db)) (height_key n) =
      (if n = height then Some (hash_bytes_of (block_hash E b))
       else kv_get (db_kv db) (height_key n))"
    and "kv_get (db_kv (write_all E C l b height db)) (block_key h) =
      (if h = block_hash E b then Some (block_enc C b) else kv_get (db_kv db) (block_key h))"
  by (simp_all add: kv_get_write_other [OF assms] block_entries_def)

lemma kv_get_write_raw_block:
  assumes "om_ok (kv_map (db_kv db))"
  shows "kv_get (db_kv (write_all E C l b height db)) (CF_BLOCKS @ hb) =
    (if hb = hash_bytes_of (block_hash E b) then Some (block_enc C b)
     else kv_get (db_kv db) (CF_BLOCKS @ hb))"
proof -
  have "CF_BLOCKS @ hb \<notin> range account_key" by (auto simp: key_defs)
  then show ?thesis
    by (simp add: kv_get_write_other [OF assms] block_entries_def block_key_def)
       (metis keys_disjoint(14,15))
qed

lemma get_latest_height_write_all:
  "om_ok (kv_map (db_kv db)) \<Longrightarrow> get_latest_height (write_all E C l b height db) = height"
  by (simp add: get_latest_height_def kv_get_write_block of_be_bytes_be_bytes)

lemma get_block_by_height_write_all:
  assumes "om_ok (kv_map (db_kv db))" and "block_dec C (block_enc C b) = Some b"
  shows "get_block_by_height C (write_all E C l b height db) n =
    (if n = height then Some b
     else if kv_get (db_kv db) (height_key n) = Some (hash_bytes_of (block_hash E b)) then Some b
     else get_block_by_height C db n)"
  using assms
  by (auto simp: get_block_by_height_def kv_get_write_block kv_get_write_raw_block
      split: option.splits)

section \<open>The tree mirrors the accounts\<close>

lemma map_of_filter_key: "P k \<Longrightarrow> map_of (filter (\<lambda>(j, _). P j) m) k = map_of m k"
  by (induction m) auto

definition account_leaf :: "env \<Rightarrow> address \<Rightarrow> bytes option \<Rightarrow> hash option" where
  "account_leaf E a v =
     (case v of None \<Rightarrow> None
      | Some bs \<Rightarrow> if bs = [] then None else Some (hash_smt_leaf E (key_hash E a) bs))"

text \<open>
  The tree knows an account by the hash of its address. \<open>synced\<close>: the leaves are those of the
  addresses stored, and no others. It holds as long as no two stored addresses share a hash;
  otherwise they are an explicit collision, \<open>key_clash\<close>.
\<close>

definition stored_addresses :: "(bytes \<Rightarrow> bytes option) \<Rightarrow> address set" where
  "stored_addresses L = {a. L (account_key a) \<noteq> None}"

definition synced :: "env \<Rightarrow> (bytes \<Rightarrow> bytes option) \<Rightarrow> smt \<Rightarrow> bool" where
  "synced E L s \<longleftrightarrow> hm_ok (smt_leaves s) \<and>
     (\<forall>a \<in> stored_addresses L. hm_get (smt_leaves s) (key_hash E a) = account_leaf E a (L (account_key a))) \<and>
     (\<forall>k. k \<notin> key_hash E ` stored_addresses L \<longrightarrow> hm_get (smt_leaves s) k = None)"

definition tree_key_input :: "address \<Rightarrow> bytes" where
  "tree_key_input a = domain_preimage DOMAIN_SMT_LEAF (addr_bytes a)"

definition key_clash :: "env \<Rightarrow> state_db \<Rightarrow> bool" where
  "key_clash E db \<longleftrightarrow> (\<exists>a b. kv_get (db_kv db) (account_key a) \<noteq> None \<and> kv_get (db_kv db) (account_key b) \<noteq> None \<and>
     blake3_collision E (tree_key_input a) (tree_key_input b))"

abbreviation keys_apart :: "env \<Rightarrow> (bytes \<Rightarrow> bytes option) \<Rightarrow> bool" where
  "keys_apart E L \<equiv> inj_on (key_hash E) (stored_addresses L)"

lemma no_key_clash: "\<not> key_clash E db \<Longrightarrow> keys_apart E (kv_get (db_kv db))"
proof (rule inj_onI)
  fix a b
  assume none: "\<not> key_clash E db" and stored: "a \<in> stored_addresses (kv_get (db_kv db))" "b \<in> stored_addresses (kv_get (db_kv db))"
    and "key_hash E a = key_hash E b"
  then have "blake3 E (tree_key_input a) = blake3 E (tree_key_input b)"
    by (simp add: key_hash_def hash_with_domain_def tree_key_input_def)
  moreover have "\<not> blake3_collision E (tree_key_input a) (tree_key_input b)"
    using none stored unfolding key_clash_def stored_addresses_def mem_Collect_eq by blast
  ultimately have "tree_key_input a = tree_key_input b" by (simp add: blake3_collision_def)
  then show "a = b" by (auto simp: tree_key_input_def domain_preimage_def dest: addr_arr.to_bytes_inject)
qed

lemma stored_addresses_upd [simp]:
  "stored_addresses (L(account_key a \<mapsto> v)) = insert a (stored_addresses L)"
  by (auto simp: stored_addresses_def)

lemma keys_apart_mono: "keys_apart E M \<Longrightarrow> stored_addresses L \<subseteq> stored_addresses M \<Longrightarrow> keys_apart E L"
  by (rule inj_on_subset)

lemma synced_root:
  assumes "synced E L s" and "synced E M t" and same: "\<And>a. L (account_key a) = M (account_key a)"
  shows "smt_root E s = smt_root E t"
proof (rule smt_root_cong)
  show "hm_ok (smt_leaves s)" "hm_ok (smt_leaves t)" using assms by (auto simp: synced_def)
  have "stored_addresses L = stored_addresses M" by (simp add: stored_addresses_def same)
  show "hm_get (smt_leaves s) = hm_get (smt_leaves t)"
  proof
    fix k
    show "hm_get (smt_leaves s) k = hm_get (smt_leaves t) k"
      using assms \<open>stored_addresses L = _\<close> by (cases "k \<in> key_hash E ` stored_addresses L") (auto simp: synced_def)
  qed
qed

lemma synced_update:
  assumes "inj_on (key_hash E) (insert a (stored_addresses L))" and "synced E L s"
  shows "synced E (L(account_key a \<mapsto> v)) (smt_update E (key_hash E a) v s)"
proof -
  have "key_hash E b \<noteq> key_hash E a" if "b \<in> stored_addresses L" "b \<noteq> a" for b
    using assms(1) that by (meson inj_onD insertCI)
  with assms(2) show ?thesis
    unfolding synced_def stored_addresses_upd
    by (auto simp: smt_ok_update smt_get_update account_leaf_def)
qed

lemma synced_cong:
  "(\<And>a. L (account_key a) = M (account_key a)) \<Longrightarrow> synced E L s = synced E M s"
  by (simp add: synced_def stored_addresses_def)

lemma synced_other:
  "synced E L s \<Longrightarrow> k \<notin> range account_key \<Longrightarrow> synced E (L(k := v)) s"
  by (subst synced_cong [where M = L]) auto

lemma synced_new: "synced E (\<lambda>_. None) smt_new"
  by (simp add: synced_def smt_new_def stored_addresses_def)

lemma synced_load_entry:
  assumes "keys_apart E (L(fst kv \<mapsto> snd kv))" and "synced E L s" and "starts_with CF_ACCOUNTS (fst kv)"
  shows "synced E (L(fst kv \<mapsto> snd kv)) (load_entry E kv s)"
proof (cases "length (drop 2 (fst kv)) = 20")
  case True
  then have k: "fst kv = account_key (Address (of_be_bytes (drop 2 (fst kv))))" by (rule account_key_cases [OF assms(3)])
  with assms(1) have "inj_on (key_hash E) (insert (Address (of_be_bytes (drop 2 (fst kv)))) (stored_addresses L))"
    by (metis stored_addresses_upd)
  from synced_update [OF this assms(2)] k True show ?thesis unfolding load_entry_def Let_def by simp
next
  case False
  then have "fst kv \<notin> range account_key" by auto
  with False assms(2) show ?thesis
    by (simp add: load_entry_def Let_def synced_other)
qed

lemma synced_load:
  "keys_apart E (L ++ map_of (rev es)) \<Longrightarrow> \<forall>kv \<in> set es. starts_with CF_ACCOUNTS (fst kv) \<Longrightarrow> synced E L s \<Longrightarrow>
     synced E (L ++ map_of (rev es)) (fold (load_entry E) es s)"
proof (induction es arbitrary: L s)
  case (Cons e es)
  let ?L = "L(fst e \<mapsto> snd e)"
  have apart: "keys_apart E (?L ++ map_of (rev es))" using Cons.prems(1) by (simp only: map_add_rev_Cons)
  then have "keys_apart E ?L" by (rule keys_apart_mono) (auto simp: stored_addresses_def map_add_def split: option.splits)
  with Cons.prems(2,3) have "synced E ?L (load_entry E e s)" by (intro synced_load_entry) auto
  moreover have "\<forall>kv \<in> set es. starts_with CF_ACCOUNTS (fst kv)" using Cons.prems(2) by simp
  ultimately show ?case
    using Cons.IH [OF apart] by (simp only: map_add_rev_Cons fold_simps)
qed simp

lemma synced_state_db_new:
  assumes "keys_apart E (kv_get kv)" and "om_ok (kv_map kv)"
  shows "synced E (kv_get kv) (db_smt (state_db_new E kv))"
proof -
  let ?es = "scan_prefix CF_ACCOUNTS kv"
  have es: "?es = filter (\<lambda>(k, _). starts_with CF_ACCOUNTS k) (kv_map kv)"
    using assms(2) by (rule scan_prefix_filter)
  then have pre: "\<forall>kv \<in> set ?es. starts_with CF_ACCOUNTS (fst kv)" by auto
  have "distinct (map fst (kv_map kv))" using assms(2) by (rule om_ok_distinct)
  then have "distinct (map fst ?es)" unfolding es by (rule distinct_map_filter)
  then have "map_of (rev ?es) (account_key a) = map_of ?es (account_key a)" for a
    by (simp add: map_of_rev_distinct)
  also have "map_of ?es (account_key a) = kv_get kv (account_key a)" for a
    unfolding es kv_get_def om_get_def by (rule map_of_filter_key) simp
  finally have same: "(Map.empty ++ map_of (rev ?es)) (account_key a) = kv_get kv (account_key a)" for a by simp
  then have "keys_apart E (Map.empty ++ map_of (rev ?es))" using assms(1) by (simp add: stored_addresses_def)
  from synced_load [OF this pre synced_new]
  have "synced E (Map.empty ++ map_of (rev ?es)) (db_smt (state_db_new E kv))"
    by (simp add: state_db_new_def)
  with same show ?thesis by (subst synced_cong) auto
qed

lemma synced_write_accounts:
  "keys_apart E (L ++ map_of (rev (account_puts C l))) \<Longrightarrow> synced E L s \<Longrightarrow>
     synced E (L ++ map_of (rev (account_puts C l)))
       (fold (\<lambda>(a, acc). smt_update E (key_hash E a) (acc_enc C acc)) l s)"
proof (induction l arbitrary: L s)
  case (Cons e l)
  obtain a acc where e: "e = (a, acc)" by (cases e)
  let ?L = "L(account_key a \<mapsto> acc_enc C acc)"
  have puts: "account_puts C (e # l) = (account_key a, acc_enc C acc) # account_puts C l"
    by (simp add: e account_puts_def)
  have apart: "keys_apart E (?L ++ map_of (rev (account_puts C l)))"
    using Cons.prems(1) by (simp only: puts map_add_rev_Cons fst_conv snd_conv)
  then have "keys_apart E ?L" by (rule keys_apart_mono) (auto simp: stored_addresses_def map_add_def split: option.splits)
  then have "inj_on (key_hash E) (insert a (stored_addresses L))" by simp
  from Cons.IH [OF apart synced_update [OF this Cons.prems(2)]]
  show ?case by (simp only: puts [unfolded e] map_add_rev_Cons fst_conv snd_conv fold_simps e prod.case)
qed (simp add: account_puts_def)

lemma stored_addresses_write:
  "om_ok (kv_map (db_kv db)) \<Longrightarrow>
     stored_addresses (kv_get (db_kv (write_all E C l b h db))) = stored_addresses (kv_get (db_kv db)) \<union> fst ` set l"
proof -
  assume om: "om_ok (kv_map (db_kv db))"
  have "map_of (rev l) a = None \<longleftrightarrow> a \<notin> fst ` set l" for a by (simp add: map_of_eq_None_iff)
  then show ?thesis
    by (auto simp: stored_addresses_def kv_get_write_account [OF om] split: option.splits)
qed

lemma synced_write_all:
  assumes "keys_apart E (kv_get (db_kv (write_all E C l b h db)))" and "om_ok (kv_map (db_kv db))"
    and "synced E (kv_get (db_kv db)) (db_smt db)"
  shows "synced E (kv_get (db_kv (write_all E C l b h db))) (db_smt (write_all E C l b h db))"
proof -
  have same: "kv_get (db_kv (write_all E C l b h db)) (account_key a) =
      (kv_get (db_kv db) ++ map_of (rev (account_puts C l))) (account_key a)" for a
    using assms(2) by (simp add: write_all_lookup map_add_def block_entries_def split: option.split)
  then have "keys_apart E (kv_get (db_kv db) ++ map_of (rev (account_puts C l)))"
    using assms(1) by (simp add: stored_addresses_def)
  from synced_write_accounts [OF this assms(3)] same show ?thesis
    by (subst synced_cong) (simp_all add: write_all_def)
qed

section \<open>Sample codec\<close>

definition sample_acc_enc :: "account \<Rightarrow> bytes" where
  "sample_acc_enc a =
     be_bytes 8 (balance a) @ be_bytes 8 (nonce a) @ be_bytes 8 (staked_amount a) @
     [if is_validator a then 1 else 0] @
     (case validator_pubkey a of None \<Rightarrow> [] | Some pk \<Rightarrow> pk_bytes pk)"

definition sample_acc_dec :: "bytes \<Rightarrow> account option" where
  "sample_acc_dec bs =
     Some \<lparr>balance = of_be_bytes (take 8 bs), nonce = of_be_bytes (take 8 (drop 8 bs)),
           staked_amount = of_be_bytes (take 8 (drop 16 bs)), is_validator = (bs ! 24 = 1),
           validator_pubkey = (if drop 25 bs = [] then None
             else Some (PublicKey (of_be_bytes (drop 25 bs))))\<rparr>"

lemma sample_acc_dec_enc: "sample_acc_dec (sample_acc_enc a) = Some a"
proof -
  have "pk_bytes pk \<noteq> []" for pk
    using pk_arr.length_to_bytes [of pk] by (metis list.size(3) zero_neq_numeral)
  moreover have "PublicKey (of_be_bytes (pk_bytes pk)) = pk" for pk
    by (cases pk) (simp add: pk_bytes_def of_be_bytes_be_bytes)
  ultimately show ?thesis
    by (cases a)
       (simp add: sample_acc_dec_def sample_acc_enc_def of_be_bytes_be_bytes nth_append
         split: option.split)
qed

definition toy_codec :: "block \<Rightarrow> codec" where
  "toy_codec b =
     \<lparr>data_enc = sample_enc_map, data_dec = (\<lambda>bs. sample_dec_map (length bs) bs),
      acc_enc = sample_acc_enc, acc_dec = sample_acc_dec,
      block_enc = (\<lambda>_. [1]), block_dec = (\<lambda>_. Some b)\<rparr>"

lemma toy_codec_simps [simp]:
  "acc_enc (toy_codec b) = sample_acc_enc" "acc_dec (toy_codec b) = sample_acc_dec"
  "block_enc (toy_codec b) c = [1]" "block_dec (toy_codec b) bs = Some b"
  by (simp_all add: toy_codec_def)

text \<open>Documented behaviour of bincode on accounts: what was written is read back.\<close>

definition account_codec_laws :: "codec \<Rightarrow> bool" where
  "account_codec_laws C \<longleftrightarrow> (\<forall>acc. acc_dec C (acc_enc C acc) = Some acc)"

lemma account_codec_laws_toy: "account_codec_laws (toy_codec b)"
  by (simp add: account_codec_laws_def sample_acc_dec_enc)

definition memory_db :: state_db where
  "memory_db = \<lparr>db_kv = open_in_memory, db_smt = smt_new\<rparr>"

lemma om_ok_memory_db [simp]: "om_ok (kv_map (db_kv memory_db))"
  by (simp add: memory_db_def open_in_memory_def)

lemma state_db_new_memory: "state_db_new E open_in_memory = memory_db"
  by (simp add: state_db_new_def memory_db_def open_in_memory_def scan_prefix_def)

section \<open>Properties\<close>

text \<open>
  C18: after a commit, in memory and whether or not writing the file succeeded, every
  account reads as the overlay has it or else as before, the latest height is the block's,
  the block is found by its height and by its hash, and every other height still reads
  what it read (unless it already named this block's hash).
\<close>
theorem commit_block_reads:
  assumes "om_ok (kv_map (db_kv db))" and "hm_ok ov" and "account_codec_laws C"
    and "block_dec C (block_enc C b) = Some b" and "commit_block E C b ov db = (r, db')"
  shows "get_account C db' a = overlay_get C ov db a \<and>
    get_latest_height db' = h_height (b_header b) \<and>
    get_block_by_height C db' (h_height (b_header b)) = Some b \<and>
    get_block_by_hash C db' (block_hash E b) = Some b \<and>
    (n \<noteq> h_height (b_header b) \<and>
       kv_get (db_kv db) (height_key n) \<noteq> Some (hash_bytes_of (block_hash E b)) \<longrightarrow>
       get_block_by_height C db' n = get_block_by_height C db n)"
proof -
  have db': "db' = write_all E C ov b (h_height (b_header b)) db"
    using assms(5) commit_block_write_all [of E C b ov db] by simp
  have "get_account C db' a = overlay_get C ov db a"
    using assms by (simp add: db' get_account_write_all account_codec_laws_def map_of_rev_hm
        overlay_get_def)
  with assms show ?thesis
    by (simp add: db' get_latest_height_write_all get_block_by_height_write_all
        get_block_by_hash_def kv_get_write_block)
qed

theorem commit_block_reads_witness:
  "get_account (toy_codec (sample_block [])) (snd (commit_block toy_env (toy_codec (sample_block []))
     (sample_block []) [(Address 5, account_new 70 1)] memory_db)) (Address 5) = account_new 70 1"
  using commit_block_reads [OF om_ok_memory_db _ account_codec_laws_toy _ surjective_pairing,
      of "[(Address 5, account_new 70 1)]" "sample_block []" "sample_block []" toy_env "Address 5"]
  by (simp add: hm_ok_def overlay_get_def hm_get_def)

text \<open>
  C17: a committed state can be rebuilt: the tree of a database freshly opened mirrors its
  store, commits and genesis keep that, and reopening the store of a mirrored database computes
  the same state root; each unless two different addresses stored have tree keys that are an
  explicit BLAKE3 collision.
\<close>
theorem state_root_rebuilt:
  assumes "om_ok (kv_map (db_kv db))" and "synced E (kv_get (db_kv db)) (db_smt db)"
  shows "(get_state_root E (state_db_new E (db_kv db)) = get_state_root E db \<or> key_clash E db) \<and>
    (db' = snd (commit_block E C b ov db) \<or> db' = snd (apply_genesis E C g db) \<longrightarrow>
       synced E (kv_get (db_kv db')) (db_smt db') \<and>
         get_state_root E (state_db_new E (db_kv db')) = get_state_root E db' \<or>
       key_clash E db') \<and>
    (synced E (kv_get (db_kv db)) (db_smt (state_db_new E (db_kv db))) \<or> key_clash E db)"
proof -
  have root: "get_state_root E (state_db_new E (db_kv d)) = get_state_root E d"
    if "om_ok (kv_map (db_kv d))" "synced E (kv_get (db_kv d)) (db_smt d)" "\<not> key_clash E d" for d
    using synced_root [OF synced_state_db_new [OF no_key_clash [OF that(3)] that(1)] that(2)]
    by (simp add: get_state_root_def)
  have "synced E (kv_get (db_kv d)) (db_smt d) \<and> get_state_root E (state_db_new E (db_kv d)) = get_state_root E d \<or>
      key_clash E d" if "d = write_all E C l b' h db" for d l b' h
  proof (cases "key_clash E d")
    case False
    then have "synced E (kv_get (db_kv d)) (db_smt d)"
      using synced_write_all [OF _ assms, of C l b' h] no_key_clash [OF False] that by simp
    with root [OF _ this False] om_ok_write_all [OF assms(1)] that show ?thesis by simp
  qed simp
  with root [OF assms] synced_state_db_new [OF no_key_clash assms(1)] show ?thesis
    by (auto simp: commit_block_write_all apply_genesis_write_all)
qed

lemma inj_key_hash_toy: "inj (key_hash toy_env)"
proof (rule injI)
  fix a b assume eq: "key_hash toy_env a = key_hash toy_env b"
  have *: "be_nat (xs @ addr_bytes a) mod 2 ^ 160 = unat (addr_word a)" for xs a
  proof -
    have "be_nat (xs @ ys) = be_nat xs * 256 ^ length ys + be_nat ys" for xs ys
      by (induction ys rule: rev_induct)
         (simp_all add: be_nat_def be_nat_from_append algebra_simps)
    moreover have "be_nat (addr_bytes a) = unat (addr_word a)"
      using unat_bound [of "addr_word a"] by (simp add: addr_bytes_def be_bytes_def be_nat_nat_be)
    ultimately show ?thesis
      using unat_bound [of "addr_word a"] by simp
  qed
  let ?pre = "le_len DOMAIN_SMT_LEAF @ DOMAIN_SMT_LEAF"
  have "(word_of_nat (be_nat (?pre @ addr_bytes a)) :: 256 word) = word_of_nat (be_nat (?pre @ addr_bytes b))"
    using eq by (simp add: key_hash_def hash_with_domain_def domain_preimage_def of_be_bytes_def)
  then have "be_nat (?pre @ addr_bytes a) mod 2 ^ 256 = be_nat (?pre @ addr_bytes b) mod 2 ^ 256"
    by (auto dest!: arg_cong [where f = unat] simp: unat_of_nat)
  then have "be_nat (?pre @ addr_bytes a) mod 2 ^ 256 mod 2 ^ 160 =
      be_nat (?pre @ addr_bytes b) mod 2 ^ 256 mod 2 ^ 160" by simp
  then have "be_nat (?pre @ addr_bytes a) mod 2 ^ 160 = be_nat (?pre @ addr_bytes b) mod 2 ^ 160"
    by (simp add: mod_mod_cancel del: append_assoc)
  then show "a = b" by (simp only: *) (metis address.expand word_unat_eq_iff)
qed

lemma synced_memory_db: "synced E (kv_get (db_kv memory_db)) (db_smt memory_db)"
proof -
  have "kv_get (db_kv memory_db) = (\<lambda>_. None)"
    by (rule ext) (simp add: memory_db_def open_in_memory_def kv_get_def)
  moreover have "db_smt memory_db = smt_new" by (simp add: memory_db_def)
  ultimately show ?thesis using synced_new [of E] by simp
qed

lemma no_clash_inj: "inj (key_hash E) \<Longrightarrow> \<not> key_clash E db"
proof
  assume inj: "inj (key_hash E)" and "key_clash E db"
  then obtain a b where ab: "blake3_collision E (tree_key_input a) (tree_key_input b)" by (auto simp: key_clash_def)
  then have "key_hash E a = key_hash E b"
    by (simp add: blake3_collision_def key_hash_def hash_with_domain_def tree_key_input_def)
  with inj have "a = b" by (simp add: inj_eq)
  with ab show False by (simp add: blake3_collision_def)
qed

lemmas no_clash_toy = no_clash_inj [OF inj_key_hash_toy]

theorem state_root_rebuilt_witness:
  "get_state_root toy_env (state_db_new toy_env (db_kv (snd (commit_block toy_env
       (toy_codec (sample_block [])) (sample_block []) [(Address 5, account_new 70 1)] memory_db)))) =
   get_state_root toy_env (snd (commit_block toy_env (toy_codec (sample_block [])) (sample_block [])
       [(Address 5, account_new 70 1)] memory_db))"
  using state_root_rebuilt [OF om_ok_memory_db synced_memory_db] no_clash_toy by blast

section \<open>Validators and genesis\<close>

lemma map_filter_Some_iff:
  "y \<in> set (List.map_filter f xs) \<longleftrightarrow> (\<exists>x \<in> set xs. f x = Some y)"
  by (induction xs) (auto simp: List.map_filter_def split: option.splits)

lemma get_validators_iff:
  assumes "om_ok (kv_map (db_kv db))"
  shows "(a, acc) \<in> set (get_validators C db) \<longleftrightarrow>
    (\<exists>bs. kv_get (db_kv db) (account_key a) = Some bs \<and> acc_dec C bs = Some acc) \<and>
    is_validator acc \<and> staked_amount acc > 0"
proof -
  have entry: "(k, v) \<in> set (scan_prefix CF_ACCOUNTS (db_kv db)) \<longleftrightarrow>
      kv_get (db_kv db) k = Some v \<and> starts_with CF_ACCOUNTS k" for k v
    using assms by (auto simp: scan_prefix_filter kv_get_def om_get_iff)
  show ?thesis (is "?l \<longleftrightarrow> ?r")
  proof
    assume ?l
    then obtain k v where kv: "(k, v) \<in> set (scan_prefix CF_ACCOUNTS (db_kv db))"
      "length (drop 2 k) = 20" "acc_dec C v = Some acc" "is_validator acc"
      "staked_amount acc > 0" "a = Address (of_be_bytes (drop 2 k))"
      by (auto simp: get_validators_def map_filter_Some_iff Let_def split: option.splits if_splits)
    from kv(1) have got: "kv_get (db_kv db) k = Some v" "starts_with CF_ACCOUNTS k"
      by (simp_all add: entry)
    have "k = account_key a"
      unfolding kv(6) by (rule account_key_cases [OF got(2) kv(2)])
    with got(1) have "kv_get (db_kv db) (account_key a) = Some v" by simp
    with kv(3-5) show ?r by blast
  next
    assume ?r
    then obtain bs where bs: "kv_get (db_kv db) (account_key a) = Some bs" "acc_dec C bs = Some acc"
      "is_validator acc" "staked_amount acc > 0" by blast
    then have "(account_key a, bs) \<in> set (scan_prefix CF_ACCOUNTS (db_kv db))"
      by (simp add: entry)
    with bs show ?l
      unfolding get_validators_def map_filter_Some_iff
      by (intro bexI [of _ "(account_key a, bs)"]) simp_all
  qed
qed

lemma map_filter_Cons:
  "List.map_filter f (x # xs) =
     (case f x of None \<Rightarrow> List.map_filter f xs | Some y \<Rightarrow> y # List.map_filter f xs)"
  by (simp add: List.map_filter_def split: option.split)

lemma distinct_map_filter_inj:
  assumes "distinct (map fst xs)"
    and "\<And>k v y k' v' y'. f (k, v) = Some y \<Longrightarrow> f (k', v') = Some y' \<Longrightarrow> g y = g y' \<Longrightarrow>
      (k, v) \<in> set xs \<Longrightarrow> (k', v') \<in> set xs \<Longrightarrow> k = k'"
  shows "distinct (map g (List.map_filter f xs))"
  using assms
proof (induction xs)
  case (Cons x xs)
  obtain k v where x: "x = (k, v)" by (cases x)
  have rest: "distinct (map g (List.map_filter f xs))"
    using Cons.prems by (intro Cons.IH) (auto intro: Cons.prems(2))
  show ?case
  proof (cases "f x")
    case None
    with rest show ?thesis by (simp add: map_filter_Cons)
  next
    case (Some y)
    have "g y \<notin> g ` set (List.map_filter f xs)"
    proof
      assume "g y \<in> g ` set (List.map_filter f xs)"
      then obtain k' v' y' where "(k', v') \<in> set xs" "f (k', v') = Some y'" "g y = g y'"
        by (auto simp: map_filter_Some_iff)
      with Cons.prems Some x have "k = k'" by (auto intro: Cons.prems(2))
      with Cons.prems(1) \<open>(k', v') \<in> set xs\<close> show False by (force simp: x)
    qed
    with rest Some show ?thesis by (simp add: map_filter_Cons)
  qed
qed (simp add: List.map_filter_def)

lemma distinct_get_validators:
  assumes "om_ok (kv_map (db_kv db))"
  shows "distinct (map fst (get_validators C db))"
  unfolding get_validators_def
proof (rule distinct_map_filter_inj)
  have "distinct (map fst (kv_map (db_kv db)))" using assms by (rule om_ok_distinct)
  then show "distinct (map fst (scan_prefix CF_ACCOUNTS (db_kv db)))"
    unfolding scan_prefix_filter [OF assms] by (rule distinct_map_filter)
next
  fix k v y k' v' y'
  assume "(k, v) \<in> set (scan_prefix CF_ACCOUNTS (db_kv db))"
    "(k', v') \<in> set (scan_prefix CF_ACCOUNTS (db_kv db))"
  then have "starts_with CF_ACCOUNTS k" "starts_with CF_ACCOUNTS k'"
    using assms by (auto simp: scan_prefix_filter)
  moreover assume "fst y = fst y'"
    "(case (k, v) of (k, v) \<Rightarrow> let addr_slice = drop (length CF_ACCOUNTS) k
       in if length addr_slice = 20 then (case acc_dec C v of None \<Rightarrow> None | Some acc \<Rightarrow>
         if is_validator acc \<and> 0 < staked_amount acc
         then Some (Address (of_be_bytes addr_slice), acc) else None) else None) = Some y"
    "(case (k', v') of (k, v) \<Rightarrow> let addr_slice = drop (length CF_ACCOUNTS) k
       in if length addr_slice = 20 then (case acc_dec C v of None \<Rightarrow> None | Some acc \<Rightarrow>
         if is_validator acc \<and> 0 < staked_amount acc
         then Some (Address (of_be_bytes addr_slice), acc) else None) else None) = Some y'"
  ultimately show "k = k'"
    using account_key_cases [of k] account_key_cases [of k']
    by (auto simp: Let_def split: option.splits if_splits)
qed

lemma map_of_rev_map:
  "distinct (map f xs) \<Longrightarrow> x \<in> set xs \<Longrightarrow> map_of (rev (map (\<lambda>x. (f x, h x)) xs)) (f x) = Some (h x)"
  by (subst map_of_rev_distinct) (auto simp: comp_def map_of_eq_Some_iff)

lemma map_of_rev_map_None:
  "a \<notin> f ` set xs \<Longrightarrow> map_of (rev (map (\<lambda>x. (f x, h x)) xs)) a = None"
  by (auto simp: map_of_eq_None_iff)

lemma get_account_genesis:
  assumes "om_ok (kv_map (db_kv db))" and "account_codec_laws C"
  shows "get_account C (snd (apply_genesis E C g db)) a =
    (case map_of (rev (genesis_writes C g db)) a of Some acc \<Rightarrow> acc | None \<Rightarrow> get_account C db a)"
  using assms by (simp add: apply_genesis_write_all get_account_write_all account_codec_laws_def)

text \<open>
  Genesis gives every listed account that is not a validator its configured balance,
  makes every listed validator a validator with its key and stake, leaves all other accounts
  alone, and stores the genesis block at height 0.
\<close>
theorem genesis_allocation:
  assumes "om_ok (kv_map (db_kv db))" and "account_codec_laws C"
    and "distinct (map ga_address (g_accounts g))" and "distinct (map gv_address (g_validators g))"
    and "block_dec C (block_enc C (to_genesis_block E g)) = Some (to_genesis_block E g)"
    and "apply_genesis E C g db = (r, db')"
  shows "(\<forall>ga \<in> set (g_accounts g). ga_address ga \<notin> gv_address ` set (g_validators g) \<longrightarrow>
            get_account C db' (ga_address ga) = account_new (ga_balance ga) 0) \<and>
    (\<forall>gv \<in> set (g_validators g).
       is_validator (get_account C db' (gv_address gv)) \<and>
       validator_pubkey (get_account C db' (gv_address gv)) = Some (gv_pubkey gv) \<and>
       staked_amount (get_account C db' (gv_address gv)) = gv_stake gv) \<and>
    (\<forall>a. a \<notin> ga_address ` set (g_accounts g) \<and> a \<notin> gv_address ` set (g_validators g) \<longrightarrow>
       get_account C db' a = get_account C db a) \<and>
    get_latest_height db' = 0 \<and> get_block_by_height C db' 0 = Some (to_genesis_block E g)"
proof -
  have db': "db' = snd (apply_genesis E C g db)" using assms(6) by simp
  note acc = get_account_genesis [OF assms(1,2), of E g, folded db']
  have val: "get_account C db' (gv_address gv) = genesis_validator_account C db gv"
    if "gv \<in> set (g_validators g)" for gv
    by (simp add: acc genesis_writes_def map_add_def map_of_rev_map [OF assms(4) that])
  have acct: "get_account C db' (ga_address ga) = account_new (ga_balance ga) 0"
    if "ga \<in> set (g_accounts g)" "ga_address ga \<notin> gv_address ` set (g_validators g)" for ga
    by (simp add: acc genesis_writes_def map_add_def map_of_rev_map_None [OF that(2)]
        map_of_rev_map [OF assms(3) that(1)])
  have other: "get_account C db' a = get_account C db a"
    if "a \<notin> ga_address ` set (g_accounts g)" "a \<notin> gv_address ` set (g_validators g)" for a
    by (simp add: acc genesis_writes_def map_add_def map_of_rev_map_None [OF that(1)]
        map_of_rev_map_None [OF that(2)])
  have "get_latest_height db' = 0" "get_block_by_height C db' 0 = Some (to_genesis_block E g)"
    using assms(1,5)
    by (simp_all add: db' apply_genesis_write_all get_latest_height_write_all
        get_block_by_height_write_all)
  with val acct other show ?thesis by (simp add: genesis_validator_account_def)
qed

text \<open>
  A genesis validator's balance is what its account held before genesis, not what the
  configuration lists for its address: on a new database it is zero whatever is configured.
\<close>
theorem genesis_validator_balance:
  assumes "account_codec_laws C" and "distinct (map gv_address (g_validators g))"
    and "gv \<in> set (g_validators g)"
  shows "balance (get_account C (snd (apply_genesis E C g memory_db)) (gv_address gv)) = 0"
proof -
  have "get_account C memory_db a = account_default" for a
    by (simp add: get_account_def memory_db_def open_in_memory_def kv_get_def)
  then show ?thesis
    using map_of_rev_map [OF assms(2,3), of "genesis_validator_account C memory_db"]
    by (simp add: get_account_genesis [OF om_ok_memory_db assms(1)] genesis_writes_def map_add_def
        genesis_validator_account_def account_default_def)
qed

definition sample_genesis :: genesis_config where
  "sample_genesis =
     \<lparr>g_chain_id = ''aura-testnet'', g_timestamp = 1700000000,
      g_accounts = [\<lparr>ga_address = Address 1, ga_balance = 1000\<rparr>,
                    \<lparr>ga_address = Address 2, ga_balance = 500\<rparr>],
      g_validators = [\<lparr>gv_address = Address 1, gv_pubkey = PublicKey 1, gv_stake = 300\<rparr>],
      g_initial_state_root = HASH_ZERO\<rparr>"

theorem genesis_allocation_witness:
  "get_account (toy_codec (to_genesis_block toy_env sample_genesis))
     (snd (apply_genesis toy_env (toy_codec (to_genesis_block toy_env sample_genesis))
       sample_genesis memory_db)) (Address 2) = account_new 500 0"
  using genesis_allocation [OF om_ok_memory_db account_codec_laws_toy _ _ _ surjective_pairing,
      of sample_genesis "to_genesis_block toy_env sample_genesis" toy_env]
  by (simp add: sample_genesis_def)

theorem genesis_validator_balance_witness:
  "ga_balance (hd (g_accounts sample_genesis)) = 1000 \<and>
   balance (get_account (toy_codec (sample_block []))
     (snd (apply_genesis toy_env (toy_codec (sample_block [])) sample_genesis memory_db))
     (Address 1)) = 0"
  using genesis_validator_balance [OF account_codec_laws_toy,
      of sample_genesis "hd (g_validators sample_genesis)" "sample_block []" toy_env]
  by (simp add: sample_genesis_def)

end
