(* ===== verification/Execution.thy ===== *)
theory Execution
  imports State
begin

text \<open>
  Speculative execution of a block's transactions on an overlay: the loop of
  \<open>ConsensusEngine::execute_transactions_speculative\<close> (\<open>aura-consensus/src/engine.rs\<close>) and
  the copy of it the chain syncer runs (\<open>aura-network/src/sync.rs\<close>). \<open>None\<close> is the panic of
  an overflowing addition in a debug build. What the ledger holds is read through
  \<open>overlay_get\<close>, so the lemmas speak of the accounts a reader of the overlay sees.
\<close>

section \<open>Operations\<close>

definition engine_execute_tx :: "env \<Rightarrow> codec \<Rightarrow> state_db \<Rightarrow> transaction \<Rightarrow> overlay \<Rightarrow> overlay option" where
  "engine_execute_tx E C db tx ov =
     (let sender_acc = overlay_get C ov db (tx_sender tx) in
      case add_ck (prof E) (tx_amount tx) (tx_fee tx) of
        None \<Rightarrow> None
      | Some total_deduct \<Rightarrow>
          let sender_acc = sender_acc\<lparr>balance := sat_sub (balance sender_acc) total_deduct\<rparr> in
          case add_ck (prof E) (nonce sender_acc) 1 of
            None \<Rightarrow> None
          | Some n \<Rightarrow>
              let sender_acc = sender_acc\<lparr>nonce := n\<rparr> in
              Some (case tx_type tx of
                 Transfer \<Rightarrow>
                   let recipient_acc = overlay_get C ov db (tx_recipient tx);
                       recipient_acc = recipient_acc\<lparr>balance := sat_add (balance recipient_acc) (tx_amount tx)\<rparr>;
                       ov = overlay_set (tx_recipient tx) recipient_acc ov
                   in overlay_set (tx_sender tx) sender_acc ov
               | RegisterValidator \<Rightarrow>
                   overlay_set (tx_sender tx)
                     (sender_acc\<lparr>is_validator := True, validator_pubkey := Some (tx_pubkey tx),
                        staked_amount := sat_add (staked_amount sender_acc) (tx_amount tx)\<rparr>) ov
               | Stake \<Rightarrow>
                   overlay_set (tx_sender tx)
                     (sender_acc\<lparr>staked_amount := sat_add (staked_amount sender_acc) (tx_amount tx)\<rparr>) ov
               | Unstake \<Rightarrow>
                   overlay_set (tx_sender tx)
                     (sender_acc\<lparr>staked_amount := sat_sub (staked_amount sender_acc) (tx_amount tx),
                        balance := sat_add (balance sender_acc) (tx_amount tx)\<rparr>) ov))"

fun engine_execute_all :: "env \<Rightarrow> codec \<Rightarrow> state_db \<Rightarrow> transaction list \<Rightarrow> overlay \<Rightarrow> overlay option" where
  "engine_execute_all E C db [] ov = Some ov"
| "engine_execute_all E C db (tx # txs) ov =
     (case engine_execute_tx E C db tx ov of
        None \<Rightarrow> None
      | Some ov' \<Rightarrow> engine_execute_all E C db txs ov')"

section \<open>Specification\<close>

text \<open>
  The ledger as a function from addresses to accounts, and one transaction on it: debit the
  sender, then credit the recipient or move the stake. A self-transfer writes the credited
  account first and overwrites it with the debited one.
\<close>

type_synonym ledger = "address \<Rightarrow> account"

definition debit :: "transaction \<Rightarrow> account \<Rightarrow> account" where
  "debit tx a = a\<lparr>balance := sat_sub (balance a) (tx_amount tx + tx_fee tx), nonce := nonce a + 1\<rparr>"

fun type_effect :: "transaction \<Rightarrow> transaction_type \<Rightarrow> account \<Rightarrow> account" where
  "type_effect tx Transfer a = a"
| "type_effect tx Stake a = a\<lparr>staked_amount := sat_add (staked_amount a) (tx_amount tx)\<rparr>"
| "type_effect tx Unstake a =
     a\<lparr>staked_amount := sat_sub (staked_amount a) (tx_amount tx),
       balance := sat_add (balance a) (tx_amount tx)\<rparr>"
| "type_effect tx RegisterValidator a =
     a\<lparr>is_validator := True, validator_pubkey := Some (tx_pubkey tx),
       staked_amount := sat_add (staked_amount a) (tx_amount tx)\<rparr>"

definition credit :: "transaction \<Rightarrow> account \<Rightarrow> account" where
  "credit tx a = a\<lparr>balance := sat_add (balance a) (tx_amount tx)\<rparr>"

definition ledger_step :: "transaction \<Rightarrow> ledger \<Rightarrow> ledger" where
  "ledger_step tx L a =
     (if a = tx_sender tx then type_effect tx (tx_type tx) (debit tx (L a))
      else if tx_type tx = Transfer \<and> a = tx_recipient tx then credit tx (L a)
      else L a)"

definition tx_fits :: "profile \<Rightarrow> transaction \<Rightarrow> account \<Rightarrow> bool" where
  "tx_fits p tx a \<longleftrightarrow> p = Release \<or>
     unat (tx_amount tx) + unat (tx_fee tx) < 2 ^ 64 \<and> unat (nonce a) + 1 < 2 ^ 64"

fun run_fits :: "profile \<Rightarrow> transaction list \<Rightarrow> ledger \<Rightarrow> bool" where
  "run_fits p [] L = True"
| "run_fits p (tx # txs) L \<longleftrightarrow> tx_fits p tx (L (tx_sender tx)) \<and> run_fits p txs (ledger_step tx L)"

lemma engine_execute_tx_None:
  "engine_execute_tx E C db tx ov = None \<longleftrightarrow>
     \<not> tx_fits (prof E) tx (overlay_get C ov db (tx_sender tx))"
  by (auto simp: engine_execute_tx_def Let_def tx_fits_def add_ck_def)

lemma engine_execute_tx_step:
  assumes "engine_execute_tx E C db tx ov = Some ov'"
  shows "overlay_get C ov' db = ledger_step tx (overlay_get C ov db)"
    and "hm_ok ov \<Longrightarrow> hm_ok ov'"
  using assms
  by (cases "tx_type tx"; fastforce simp: engine_execute_tx_def Let_def fun_eq_iff overlay_get_set
      ledger_step_def debit_def credit_def hm_ok_overlay_set dest: add_ck_SomeD split: option.splits)+

lemma engine_execute_all_step:
  "engine_execute_all E C db txs ov = Some ov' \<Longrightarrow>
     overlay_get C ov' db = fold ledger_step txs (overlay_get C ov db) \<and> (hm_ok ov \<longrightarrow> hm_ok ov')"
  by (induction txs arbitrary: ov)
     (auto split: option.splits dest: engine_execute_tx_step)

lemma engine_execute_all_None:
  "engine_execute_all E C db txs ov = None \<longleftrightarrow> \<not> run_fits (prof E) txs (overlay_get C ov db)"
proof (induction txs arbitrary: ov)
  case (Cons tx txs)
  show ?case
  proof (cases "engine_execute_tx E C db tx ov")
    case None
    then show ?thesis using engine_execute_tx_None [of E C db tx ov] by simp
  next
    case (Some ov1)
    then have "tx_fits (prof E) tx (overlay_get C ov db (tx_sender tx))"
      using engine_execute_tx_None [of E C db tx ov] by simp
    then show ?thesis
      using Some Cons.IH [of ov1] by (simp add: engine_execute_tx_step(1) [OF Some])
  qed
qed simp

lemma execution_panics_debug: "engine_execute_all E C db txs ov = None \<Longrightarrow> prof E = Debug"
proof -
  have "run_fits Release txs L" for L by (induction txs arbitrary: L) (simp_all add: tx_fits_def)
  then show "engine_execute_all E C db txs ov = None \<Longrightarrow> prof E = Debug"
    using engine_execute_all_None [of E C db txs ov] by (cases "prof E") auto
qed

section \<open>Supply\<close>

definition holdings :: "account \<Rightarrow> nat" where
  "holdings a = unat (balance a) + unat (staked_amount a)"

definition total_supply :: "ledger \<Rightarrow> nat" where
  "total_supply L = (\<Sum>a\<in>UNIV. holdings (L a))"

definition burned :: "transaction \<Rightarrow> nat" where
  "burned tx = unat (tx_fee tx) +
     (if tx_type tx = Unstake \<or> tx_type tx = Transfer \<and> tx_sender tx = tx_recipient tx
      then unat (tx_amount tx) else 0)"

text \<open>
  A transaction is covered when the sender can pay amount and fee (and has the stake an
  unstake names) and no credited balance or stake overflows its 64 bits.
\<close>

definition covered :: "transaction \<Rightarrow> ledger \<Rightarrow> bool" where
  "covered tx L \<longleftrightarrow>
     unat (tx_amount tx) + unat (tx_fee tx) \<le> unat (balance (L (tx_sender tx))) \<and>
     (case tx_type tx of
        Transfer \<Rightarrow> unat (balance (L (tx_recipient tx))) + unat (tx_amount tx) < 2 ^ 64
      | Unstake \<Rightarrow> unat (tx_amount tx) \<le> unat (staked_amount (L (tx_sender tx)))
      | _ \<Rightarrow> unat (staked_amount (L (tx_sender tx))) + unat (tx_amount tx) < 2 ^ 64)"

fun run_covered :: "transaction list \<Rightarrow> ledger \<Rightarrow> bool" where
  "run_covered [] L = True"
| "run_covered (tx # txs) L \<longleftrightarrow> covered tx L \<and> run_covered txs (ledger_step tx L)"

lemma unat_total_deduct:
  assumes "unat (tx_amount tx) + unat (tx_fee tx) \<le> unat (b :: u64)"
  shows "unat (tx_amount tx + tx_fee tx) = unat (tx_amount tx) + unat (tx_fee tx)"
  using assms unat_bound [of b] by (intro unat_plus_small) simp

lemma holdings_sender:
  assumes "covered tx L"
  shows "holdings (ledger_step tx L (tx_sender tx)) + unat (tx_fee tx) +
      (if tx_type tx = Unstake \<or> tx_type tx = Transfer then unat (tx_amount tx) else 0) =
    holdings (L (tx_sender tx))"
proof -
  let ?b = "unat (balance (L (tx_sender tx)))"
  have le: "unat (tx_amount tx) + unat (tx_fee tx) \<le> ?b" using assms by (simp add: covered_def)
  note d = unat_total_deduct [OF le]
  have b: "?b < 2 ^ 64" using unat_bound [of "balance (L (tx_sender tx))"] by simp
  show ?thesis
    using assms le b
    by (cases "tx_type tx")
       (simp_all add: covered_def ledger_step_def debit_def holdings_def word_ops d)
qed

lemma holdings_recipient:
  assumes "covered tx L" and "tx_type tx = Transfer" and "tx_recipient tx \<noteq> tx_sender tx"
  shows "holdings (ledger_step tx L (tx_recipient tx)) =
    holdings (L (tx_recipient tx)) + unat (tx_amount tx)"
  using assms by (simp add: covered_def ledger_step_def credit_def holdings_def word_ops)

lemma supply_remove2:
  fixes L :: ledger
  assumes "a \<noteq> b"
  shows "total_supply L = holdings (L a) + holdings (L b) + (\<Sum>x\<in>UNIV - {a, b}. holdings (L x))"
proof -
  have "total_supply L = holdings (L a) + (\<Sum>x\<in>UNIV - {a}. holdings (L x))"
    unfolding total_supply_def by (rule sum.remove) simp_all
  also have "(\<Sum>x\<in>UNIV - {a}. holdings (L x)) =
      holdings (L b) + (\<Sum>x\<in>UNIV - {a} - {b}. holdings (L x))"
    using assms by (intro sum.remove) simp_all
  finally show ?thesis by (simp add: Diff_insert2 [symmetric] insert_commute)
qed

lemma supply_remove:
  "total_supply L = holdings (L a) + (\<Sum>x\<in>UNIV - {a}. holdings (L x))"
  unfolding total_supply_def by (rule sum.remove) simp_all

lemma ledger_step_other:
  "a \<noteq> tx_sender tx \<Longrightarrow> tx_type tx = Transfer \<longrightarrow> a \<noteq> tx_recipient tx \<Longrightarrow> ledger_step tx L a = L a"
  by (auto simp: ledger_step_def)

lemma supply_step:
  assumes "covered tx L"
  shows "total_supply (ledger_step tx L) + burned tx = total_supply L"
proof (cases "tx_type tx = Transfer \<and> tx_recipient tx \<noteq> tx_sender tx")
  case True
  have "(\<Sum>x\<in>UNIV - {tx_sender tx, tx_recipient tx}. holdings (ledger_step tx L x)) =
      (\<Sum>x\<in>UNIV - {tx_sender tx, tx_recipient tx}. holdings (L x))"
    by (rule sum.cong) (auto simp: ledger_step_other)
  with True holdings_sender [OF assms] holdings_recipient [OF assms]
    supply_remove2 [of "tx_sender tx" "tx_recipient tx" L]
    supply_remove2 [of "tx_sender tx" "tx_recipient tx" "ledger_step tx L"]
  show ?thesis by (auto simp: burned_def)
next
  case False
  have "(\<Sum>x\<in>UNIV - {tx_sender tx}. holdings (ledger_step tx L x)) =
      (\<Sum>x\<in>UNIV - {tx_sender tx}. holdings (L x))"
    using False by (intro sum.cong) (auto simp: ledger_step_other)
  moreover have "holdings (ledger_step tx L (tx_sender tx)) + burned tx = holdings (L (tx_sender tx))"
    using holdings_sender [OF assms] False unfolding burned_def
    by (cases "tx_type tx") (simp_all del: split_paired_All)
  ultimately show ?thesis
    unfolding supply_remove [of L "tx_sender tx"] supply_remove [of "ledger_step tx L" "tx_sender tx"]
    by linarith
qed

lemma supply_run:
  "run_covered txs L \<Longrightarrow> total_supply (fold ledger_step txs L) + sum_list (map burned txs) = total_supply L"
proof (induction txs arbitrary: L)
  case (Cons tx txs)
  have "total_supply (fold ledger_step txs (ledger_step tx L)) + sum_list (map burned txs) =
      total_supply (ledger_step tx L)"
    using Cons.prems by (intro Cons.IH) simp
  with supply_step [of tx L] Cons.prems show ?case by simp
qed simp

lemma nonce_step:
  "nonce (ledger_step tx L a) = (if a = tx_sender tx then nonce (L a) + 1 else nonce (L a))"
  by (cases "tx_type tx") (simp_all add: ledger_step_def debit_def credit_def)

lemma nonce_run:
  "nonce (fold ledger_step txs L a) =
     nonce (L a) + word_of_nat (length (filter (\<lambda>tx. tx_sender tx = a) txs))"
  by (induction txs arbitrary: L) (simp_all add: nonce_step)

lemma untouched_run:
  "(\<And>tx. tx \<in> set txs \<Longrightarrow> a \<noteq> tx_sender tx \<and> (tx_type tx = Transfer \<longrightarrow> a \<noteq> tx_recipient tx)) \<Longrightarrow>
     fold ledger_step txs L a = L a"
  by (induction txs arbitrary: L) (simp_all add: ledger_step_other)

lemma get_account_empty_overlay [simp]: "overlay_get C [] db = get_account C db"
  by (simp add: overlay_get_def fun_eq_iff)

lemma burned_bounds: "unat (tx_fee tx) \<le> burned tx"
  by (simp add: burned_def)

section \<open>Properties\<close>

text \<open>
  C9: executing a list of transactions on an overlay is the ledger semantics, step by step:
  what a reader of the resulting overlay sees is the fold of the single steps over what it
  saw before, and execution panics exactly when an addition of some step overflows in a
  debug build.
\<close>
theorem execution_refines_ledger:
  shows "case engine_execute_all E C db txs ov of
    None \<Rightarrow> prof E = Debug \<and> \<not> run_fits (prof E) txs (overlay_get C ov db)
  | Some ov' \<Rightarrow> run_fits (prof E) txs (overlay_get C ov db) \<and>
      overlay_get C ov' db = fold ledger_step txs (overlay_get C ov db)"
proof (cases "engine_execute_all E C db txs ov")
  case None
  with execution_panics_debug [OF None] show ?thesis
    using engine_execute_all_None [of E C db txs ov] by simp
next
  case (Some ov')
  then show ?thesis
    using engine_execute_all_None [of E C db txs ov] engine_execute_all_step [OF Some] by simp
qed

text \<open>
  C10: conservation. When every transaction is covered by its sender at its turn, the sum of
  all balances and stakes falls by exactly the fees, plus the amounts of unstakings and of
  transfers to oneself: those amounts are destroyed, since the sender pays the amount of an
  unstaking before it is paid out, and a self-transfer's credit is overwritten.
\<close>
theorem execution_supply:
  assumes "engine_execute_all E C db txs ov = Some ov'"
    and "run_covered txs (overlay_get C ov db)"
  shows "total_supply (overlay_get C ov' db) +
      sum_list (map (\<lambda>tx. unat (tx_fee tx) +
        (if tx_type tx = Unstake \<or> tx_type tx = Transfer \<and> tx_sender tx = tx_recipient tx
         then unat (tx_amount tx) else 0)) txs) =
    total_supply (overlay_get C ov db)"
  using supply_run [OF assms(2)] engine_execute_all_step [OF assms(1)]
  by (simp add: burned_def [abs_def])

text \<open>
  A covered transfer to another account moves the amount, burns the fee, advances the
  sender's nonce and leaves every other account as it was.
\<close>
theorem transfer_exact:
  assumes "engine_execute_tx E C db tx ov = Some ov'" and "tx_type tx = Transfer"
    and "tx_sender tx \<noteq> tx_recipient tx" and "covered tx (overlay_get C ov db)"
  shows "unat (balance (overlay_get C ov' db (tx_sender tx))) + unat (tx_amount tx) + unat (tx_fee tx) =
      unat (balance (overlay_get C ov db (tx_sender tx))) \<and>
    unat (balance (overlay_get C ov' db (tx_recipient tx))) =
      unat (balance (overlay_get C ov db (tx_recipient tx))) + unat (tx_amount tx) \<and>
    nonce (overlay_get C ov' db (tx_sender tx)) = nonce (overlay_get C ov db (tx_sender tx)) + 1 \<and>
    (\<forall>a. a \<notin> {tx_sender tx, tx_recipient tx} \<longrightarrow> overlay_get C ov' db a = overlay_get C ov db a)"
proof -
  let ?L = "overlay_get C ov db"
  have le: "unat (tx_amount tx) + unat (tx_fee tx) \<le> unat (balance (?L (tx_sender tx)))"
    and room: "unat (balance (?L (tx_recipient tx))) + unat (tx_amount tx) < 2 ^ 64"
    using assms(2,4) by (simp_all add: covered_def)
  show ?thesis
    using assms(2,3) le room unat_total_deduct [OF le]
    by (simp add: engine_execute_tx_step(1) [OF assms(1)] ledger_step_def debit_def credit_def
        unat_sat_sub unat_sat_add)
qed

text \<open>
  Execution does not check that the sender can pay. A transfer whose amount and fee
  exceed the sender's balance empties the sender and still credits the full amount, so the
  total supply grows by what the sender was short of the amount.
\<close>
theorem unfunded_transfer_mints:
  assumes "engine_execute_tx E C db tx ov = Some ov'" and "tx_type tx = Transfer"
    and "tx_sender tx \<noteq> tx_recipient tx"
    and "unat (tx_amount tx) + unat (tx_fee tx) < 2 ^ 64"
    and "unat (balance (overlay_get C ov db (tx_sender tx))) < unat (tx_amount tx) + unat (tx_fee tx)"
    and "unat (balance (overlay_get C ov db (tx_recipient tx))) + unat (tx_amount tx) < 2 ^ 64"
  shows "balance (overlay_get C ov' db (tx_sender tx)) = 0 \<and>
    total_supply (overlay_get C ov' db) + unat (balance (overlay_get C ov db (tx_sender tx))) =
      total_supply (overlay_get C ov db) + unat (tx_amount tx)"
proof -
  let ?L = "overlay_get C ov db" and ?M = "overlay_get C ov' db"
  let ?rest = "UNIV - {tx_sender tx, tx_recipient tx}"
  note M = engine_execute_tx_step(1) [OF assms(1)]
  have d: "unat (tx_amount tx + tx_fee tx) = unat (tx_amount tx) + unat (tx_fee tx)"
    using assms(4) by (intro unat_plus_small) simp
  have zero: "balance (?M (tx_sender tx)) = 0"
    using assms(2,5) d by (simp add: M ledger_step_def debit_def sat_sub_def word_le_nat_alt)
  have s: "staked_amount (?M (tx_sender tx)) = staked_amount (?L (tx_sender tx))"
    using assms(2) by (simp add: M ledger_step_def debit_def)
  have r: "holdings (?M (tx_recipient tx)) = holdings (?L (tx_recipient tx)) + unat (tx_amount tx)"
    using assms(2,3,6) by (simp add: M ledger_step_def credit_def holdings_def unat_sat_add)
  have "(\<Sum>x\<in>?rest. holdings (?M x)) = (\<Sum>x\<in>?rest. holdings (?L x))"
    by (rule sum.cong) (auto simp: M ledger_step_other)
  then show ?thesis
    using zero s r supply_remove2 [OF assms(3), of ?L] supply_remove2 [OF assms(3), of ?M]
    by (simp add: holdings_def)
qed

text \<open>
  Execution never looks at a transaction's nonce: whatever the transactions carry, an
  account's nonce advances by the number of them it sent (modulo \<open>2 ^ 64\<close>), and an account
  that neither sends nor receives is untouched.
\<close>
theorem execution_nonces:
  assumes "engine_execute_all E C db txs ov = Some ov'"
  shows "nonce (overlay_get C ov' db a) = nonce (overlay_get C ov db a) +
      word_of_nat (length (filter (\<lambda>tx. tx_sender tx = a) txs)) \<and>
    ((\<forall>tx \<in> set txs. a \<noteq> tx_sender tx \<and> a \<noteq> tx_recipient tx) \<longrightarrow>
       overlay_get C ov' db a = overlay_get C ov db a)"
  using engine_execute_all_step [OF assms]
  by (auto simp: nonce_run intro!: untouched_run)

section \<open>Examples\<close>

definition plain_tx :: "transaction_type \<Rightarrow> address \<Rightarrow> address \<Rightarrow> u64 \<Rightarrow> u64 \<Rightarrow> transaction" where
  "plain_tx ty from to amount fee =
     (tx_new_unsigned from to amount fee 1 ty [] (PublicKey 7))\<lparr>tx_signature := Signature 0\<rparr>"

definition sample_codec :: codec where
  "sample_codec = toy_codec (sample_block [])"

definition sample_overlay :: overlay where
  "sample_overlay = [(Address 1, account_new 1000 4), (Address 2, account_new 50 0)]"

lemmas sample_execution =
  plain_tx_def tx_new_unsigned_def sample_overlay_def engine_execute_tx_def overlay_get_def
  overlay_set_def hm_get_def hm_insert_def account_new_def add_ck_def sat_sub_def sat_add_def
  covered_def ledger_step_def debit_def credit_def

theorem execution_supply_witness:
  "\<exists>ov'. engine_execute_all toy_env sample_codec memory_db
      [plain_tx Transfer (Address 1) (Address 2) 300 100, plain_tx Stake (Address 2) (Address 2) 200 100]
      sample_overlay = Some ov' \<and>
    total_supply (overlay_get sample_codec ov' memory_db) + 200 =
      total_supply (overlay_get sample_codec sample_overlay memory_db)"
proof -
  let ?txs = "[plain_tx Transfer (Address 1) (Address 2) 300 100,
    plain_tx Stake (Address 2) (Address 2) 200 100]"
  have "engine_execute_all toy_env sample_codec memory_db ?txs sample_overlay \<noteq> None"
    by (simp add: sample_execution Let_def)
  moreover have "run_covered ?txs (overlay_get sample_codec sample_overlay memory_db)"
    by (simp add: sample_execution)
  ultimately show ?thesis
    using execution_supply [of toy_env sample_codec memory_db ?txs sample_overlay]
    by (auto simp: plain_tx_def tx_new_unsigned_def)
qed

theorem transfer_exact_witness:
  "\<exists>ov'. engine_execute_tx toy_env sample_codec memory_db (plain_tx Transfer (Address 1) (Address 2) 300 100)
      sample_overlay = Some ov' \<and> unat (balance (overlay_get sample_codec ov' memory_db (Address 2))) = 350"
proof -
  let ?tx = "plain_tx Transfer (Address 1) (Address 2) 300 100"
  obtain ov' where run: "engine_execute_tx toy_env sample_codec memory_db ?tx sample_overlay = Some ov'"
    by (simp add: sample_execution Let_def)
  have "covered ?tx (overlay_get sample_codec sample_overlay memory_db)" by (simp add: sample_execution)
  with transfer_exact [OF run] run show ?thesis
    by (simp add: plain_tx_def tx_new_unsigned_def sample_overlay_def overlay_get_def hm_get_def
        account_new_def)
qed

theorem unfunded_transfer_mints_witness:
  "\<exists>ov'. engine_execute_tx toy_env sample_codec memory_db (plain_tx Transfer (Address 1) (Address 2) 5000 100)
      sample_overlay = Some ov' \<and>
    total_supply (overlay_get sample_codec ov' memory_db) =
      total_supply (overlay_get sample_codec sample_overlay memory_db) + 4000"
proof -
  let ?tx = "plain_tx Transfer (Address 1) (Address 2) 5000 100"
  obtain ov' where run: "engine_execute_tx toy_env sample_codec memory_db ?tx sample_overlay = Some ov'"
    by (simp add: sample_execution Let_def)
  with unfunded_transfer_mints [OF run] show ?thesis
    by (simp add: plain_tx_def tx_new_unsigned_def sample_overlay_def overlay_get_def hm_get_def
        account_new_def)
qed

theorem execution_nonces_witness:
  "\<exists>ov'. engine_execute_all toy_env sample_codec memory_db
      [plain_tx Transfer (Address 1) (Address 2) 1 100, plain_tx Transfer (Address 1) (Address 2) 1 100]
      sample_overlay = Some ov' \<and> nonce (overlay_get sample_codec ov' memory_db (Address 1)) = 6"
proof -
  let ?txs = "[plain_tx Transfer (Address 1) (Address 2) 1 100,
    plain_tx Transfer (Address 1) (Address 2) 1 100]"
  have "engine_execute_all toy_env sample_codec memory_db ?txs sample_overlay \<noteq> None"
    by (simp add: sample_execution Let_def)
  then obtain ov' where run: "engine_execute_all toy_env sample_codec memory_db ?txs sample_overlay = Some ov'"
    by auto
  from execution_nonces [OF run, of "Address 1"] run show ?thesis
    by (auto simp: plain_tx_def tx_new_unsigned_def sample_overlay_def overlay_get_def hm_get_def
        account_new_def)
qed

end
