(* ===== verification/Mempool.thy ===== *)
theory Mempool
  imports State "HOL-Library.Sublist"
begin

text \<open>
  \<open>aura-mempool\<close>: the two stages of transaction validation (\<open>validation.rs\<close>) and the pool
  (\<open>pool.rs\<close>) with its three indexes and its byte count. Byte counts (\<open>usize\<close>) are natural
  numbers: a pool holds at most \<open>max_bytes\<close> (\<open>mp_limits\<close> below), a transaction at most
  \<open>MAX_TRANSACTION_SIZE\<close>, so no sum the code forms leaves 64 bits for a \<open>max_bytes\<close> below
  \<open>2 ^ 64 - 2 ^ 17\<close>. Every lock request that a thread makes while it holds a guard of the
  same lock asks the policy \<open>locks\<close> of the environment.
\<close>

section \<open>Validation\<close>

definition MIN_TRANSACTION_FEE :: u64 where "MIN_TRANSACTION_FEE = 100"
definition MAX_TRANSACTION_SIZE :: nat where "MAX_TRANSACTION_SIZE = 128 * 1024"

datatype validation_error =
    PrimitiveV primitive_error
  | ExceedsMaxSize nat nat
  | InsufficientFee u64 u64
  | InvalidAmount
  | InsufficientBalance u64 u64
  | NonceTooLow u64 u64
  | NonceGapTooLarge u64 u64
  | AlreadyValidator
  | NotValidator
  | InsufficientStake

definition validate_stateless :: "env \<Rightarrow> transaction \<Rightarrow> validation_error + unit" where
  "validate_stateless E tx =
     (let sz = size_bytes tx in
      if sz > MAX_TRANSACTION_SIZE then Inl (ExceedsMaxSize sz MAX_TRANSACTION_SIZE)
      else if tx_fee tx < MIN_TRANSACTION_FEE then Inl (InsufficientFee (tx_fee tx) MIN_TRANSACTION_FEE)
      else if tx_amount tx = 0 \<and> tx_type tx = Transfer then Inl InvalidAmount
      else case tx_verify E tx of Inl e \<Rightarrow> Inl (PrimitiveV e) | Inr _ \<Rightarrow> Inr ())"

text \<open>\<open>None\<close>: \<open>account.nonce + 1\<close> or \<open>account.nonce + 64\<close> overflows in a debug build.\<close>

definition validate_stateful :: "env \<Rightarrow> transaction \<Rightarrow> account \<Rightarrow> (validation_error + unit) option" where
  "validate_stateful E tx acc =
     (if tx_nonce tx \<le> nonce acc
      then map_option (\<lambda>e. Inl (NonceTooLow e (tx_nonce tx))) (add_ck (prof E) (nonce acc) 1)
      else case add_ck (prof E) (nonce acc) 64 of
        None \<Rightarrow> None
      | Some limit \<Rightarrow>
          if tx_nonce tx > limit
          then map_option (\<lambda>e. Inl (NonceGapTooLarge e (tx_nonce tx))) (add_ck (prof E) (nonce acc) 1)
          else
            let required = sat_add (tx_amount tx) (tx_fee tx) in
            if balance acc < required then Some (Inl (InsufficientBalance (balance acc) required))
            else case tx_type tx of
              RegisterValidator \<Rightarrow>
                Some (if is_validator acc then Inl AlreadyValidator
                      else if tx_amount tx < 1000000 then Inl InsufficientStake else Inr ())
            | Unstake \<Rightarrow>
                Some (if \<not> is_validator acc \<or> staked_amount acc < tx_amount tx
                      then Inl InsufficientStake else Inr ())
            | _ \<Rightarrow> Some (Inr ()))"

section \<open>The pool\<close>

datatype mempool_error =
    Validation validation_error
  | Duplicate hash
  | PoolFull
  | InsufficientRbfBump u32

record mempool_config =
  max_transactions :: nat
  max_bytes :: nat
  min_rbf_bump_percent :: u32

definition mempool_config_default :: mempool_config where
  "mempool_config_default =
     \<lparr>max_transactions = 10000, max_bytes = 10 * 1024 * 1024, min_rbf_bump_percent = 10\<rparr>"

datatype priority_key =
  PriorityKey (key_fee_per_byte: u64) (key_nonce: u64) (key_tx_hash: hash)

text \<open>The derived order compares the fields in the order of their declaration.\<close>

fun key_less :: "priority_key \<Rightarrow> priority_key \<Rightarrow> bool" where
  "key_less (PriorityKey f n h) (PriorityKey f' n' h') \<longleftrightarrow>
     f < f' \<or> f = f' \<and> (n < n' \<or> n = n' \<and> h < h')"

instantiation priority_key :: linorder
begin

definition less_priority_key :: "priority_key \<Rightarrow> priority_key \<Rightarrow> bool" where
  "less_priority_key = key_less"

definition less_eq_priority_key :: "priority_key \<Rightarrow> priority_key \<Rightarrow> bool" where
  "less_eq_priority_key a b \<longleftrightarrow> a = b \<or> key_less a b"

instance
proof
  fix x y z :: priority_key
  show "x < y \<longleftrightarrow> x \<le> y \<and> \<not> y \<le> x"
    by (cases x; cases y) (auto simp: less_priority_key_def less_eq_priority_key_def)
  show "x \<le> x" by (simp add: less_eq_priority_key_def)
  show "x \<le> y \<Longrightarrow> y \<le> z \<Longrightarrow> x \<le> z"
    by (cases x; cases y; cases z) (auto simp: less_eq_priority_key_def)
  show "x \<le> y \<Longrightarrow> y \<le> x \<Longrightarrow> x = y"
    by (cases x; cases y) (auto simp: less_eq_priority_key_def)
  show "x \<le> y \<or> y \<le> x"
    by (cases x; cases y) (auto simp: less_eq_priority_key_def)
qed

end

record mempool =
  mp_config :: mempool_config
  by_hash :: "(hash \<times> transaction) list"
  by_sender :: "(address \<times> (u64 \<times> transaction) list) list"
  priority_index :: "priority_key list"
  total_bytes :: nat

definition mempool_new :: "mempool_config \<Rightarrow> mempool" where
  "mempool_new config =
     \<lparr>mp_config = config, by_hash = [], by_sender = [], priority_index = [], total_bytes = 0\<rparr>"

definition priority_key_of :: "hash \<Rightarrow> transaction \<Rightarrow> priority_key" where
  "priority_key_of h tx = PriorityKey (fee_per_byte tx) (tx_nonce tx) h"

text \<open>
  \<open>*self.total_bytes.write() = self.total_bytes.read().saturating_sub(size)\<close>: the right
  operand is evaluated first and its read guard lives to the end of the statement, so the
  write guard is requested while this thread holds a read guard of the same lock.
\<close>

definition release_bytes :: "env \<Rightarrow> nat \<Rightarrow> mempool \<Rightarrow> (unit, mempool) outcome" where
  "release_bytes E sz mp =
     (if locks E [ReadGuard] WriteGuard then Ret () (mp\<lparr>total_bytes := total_bytes mp - sz\<rparr>)
      else Blocked mp)"

definition sender_remove :: "address \<Rightarrow> u64 \<Rightarrow> mempool \<Rightarrow> mempool" where
  "sender_remove a n mp =
     (case hm_get (by_sender mp) a of
        None \<Rightarrow> mp
      | Some m \<Rightarrow> mp\<lparr>by_sender := hm_insert a (om_remove n m) (by_sender mp)\<rparr>)"

definition evict_transaction :: "env \<Rightarrow> hash \<Rightarrow> mempool \<Rightarrow> (transaction option, mempool) outcome" where
  "evict_transaction E h mp =
     (case hm_get (by_hash mp) h of
        None \<Rightarrow> Ret None mp
      | Some tx \<Rightarrow>
          let mp1 = mp\<lparr>by_hash := hm_remove h (by_hash mp)\<rparr>;
              mp2 = mp1\<lparr>priority_index := os_remove (priority_key_of h tx) (priority_index mp1)\<rparr>;
              mp3 = sender_remove (tx_sender tx) (tx_nonce tx) mp2
          in andThen (release_bytes E (size_bytes tx) mp3) (\<lambda>_ mp4. Ret (Some tx) mp4))"

definition rbf_check :: "env \<Rightarrow> transaction \<Rightarrow> mempool \<Rightarrow> (mempool_error + unit, mempool) outcome" where
  "rbf_check E tx mp =
     (let sender_txs = (case hm_get (by_sender mp) (tx_sender tx) of Some m \<Rightarrow> m | None \<Rightarrow> []);
          mp1 = mp\<lparr>by_sender := hm_insert (tx_sender tx) sender_txs (by_sender mp)\<rparr>;
          percent = min_rbf_bump_percent (mp_config mp)
      in case om_get sender_txs (tx_nonce tx) of
        None \<Rightarrow> Ret (Inr ()) mp1
      | Some existing_tx \<Rightarrow>
          or_panic (mul_ck (prof E) (tx_fee existing_tx) (ucast percent)) mp1 (\<lambda>bump.
          or_panic (add_ck (prof E) (tx_fee existing_tx) (bump div 100)) mp1 (\<lambda>min_required_fee.
            if tx_fee tx < min_required_fee then Ret (Inl (InsufficientRbfBump percent)) mp1
            else
              let old_hash = tx_hash E existing_tx;
                  mp2 = mp1\<lparr>by_hash := hm_remove old_hash (by_hash mp1)\<rparr>;
                  mp3 = mp2\<lparr>priority_index :=
                    os_remove (priority_key_of old_hash existing_tx) (priority_index mp2)\<rparr>
              in andThen (release_bytes E (size_bytes existing_tx) mp3)
                   (\<lambda>_ mp4. Ret (Inr ()) (sender_remove (tx_sender tx) (tx_nonce tx) mp4)))))"

definition over_capacity :: "nat \<Rightarrow> mempool \<Rightarrow> bool" where
  "over_capacity sz mp \<longleftrightarrow>
     length (by_hash mp) \<ge> max_transactions (mp_config mp) \<or>
     total_bytes mp + sz > max_bytes (mp_config mp)"

text \<open>
  The eviction loop. Its \<open>None\<close> is a loop that never ends (an index whose lowest key names
  no transaction): \<open>Spin\<close> in \<open>make_room\<close>.
\<close>

partial_function (option) make_room_loop ::
  "env \<Rightarrow> transaction \<Rightarrow> nat \<Rightarrow> mempool \<Rightarrow> (mempool_error + unit, mempool) outcome option" where
  "make_room_loop E tx sz mp =
     (if over_capacity sz mp
      then (case priority_index mp of
          [] \<Rightarrow> Some (Ret (Inl PoolFull) mp)
        | key # rest \<Rightarrow>
            if key_fee_per_byte key \<ge> fee_per_byte tx then Some (Ret (Inl PoolFull) mp)
            else (case evict_transaction E (key_tx_hash key) mp of
                Ret r mp' \<Rightarrow> make_room_loop E tx sz mp'
              | Panic mp' \<Rightarrow> Some (Panic mp')
              | Blocked mp' \<Rightarrow> Some (Blocked mp')
              | Spin \<Rightarrow> Some Spin))
      else Some (Ret (Inr ()) mp))"

definition make_room :: "env \<Rightarrow> transaction \<Rightarrow> nat \<Rightarrow> mempool \<Rightarrow> (mempool_error + unit, mempool) outcome" where
  "make_room E tx sz mp = (case make_room_loop E tx sz mp of None \<Rightarrow> Spin | Some r \<Rightarrow> r)"

definition insert_transaction :: "hash \<Rightarrow> transaction \<Rightarrow> nat \<Rightarrow> mempool \<Rightarrow> mempool" where
  "insert_transaction h tx sz mp =
     (let mp1 = mp\<lparr>by_hash := hm_insert h tx (by_hash mp)\<rparr>;
          m = (case hm_get (by_sender mp1) (tx_sender tx) of Some m \<Rightarrow> m | None \<Rightarrow> []);
          mp2 = mp1\<lparr>by_sender := hm_insert (tx_sender tx) (om_insert (tx_nonce tx) tx m) (by_sender mp1)\<rparr>;
          mp3 = mp2\<lparr>priority_index := os_insert (priority_key_of h tx) (priority_index mp2)\<rparr>
      in mp3\<lparr>total_bytes := total_bytes mp3 + sz\<rparr>)"

definition add_transaction ::
  "env \<Rightarrow> codec \<Rightarrow> state_db \<Rightarrow> transaction \<Rightarrow> mempool \<Rightarrow> (mempool_error + hash, mempool) outcome" where
  "add_transaction E C db tx mp =
     (case validate_stateless E tx of
        Inl e \<Rightarrow> Ret (Inl (Validation e)) mp
      | Inr _ \<Rightarrow>
          let h = tx_hash E tx; sz = size_bytes tx in
          if hm_get (by_hash mp) h \<noteq> None then Ret (Inl (Duplicate h)) mp
          else or_panic (validate_stateful E tx (get_account C db (tx_sender tx))) mp (\<lambda>v.
            case v of
              Inl e \<Rightarrow> Ret (Inl (Validation e)) mp
            | Inr _ \<Rightarrow>
                andThen (rbf_check E tx mp) (\<lambda>r mp1. case r of
                    Inl e \<Rightarrow> Ret (Inl e) mp1
                  | Inr _ \<Rightarrow>
                      andThen (make_room E tx sz mp1) (\<lambda>r mp2. case r of
                          Inl e \<Rightarrow> Ret (Inl e) mp2
                        | Inr _ \<Rightarrow> Ret (Inr h) (insert_transaction h tx sz mp2)))))"

fun harvest_loop :: "mempool \<Rightarrow> nat \<Rightarrow> nat \<Rightarrow> priority_key list \<Rightarrow> transaction list" where
  "harvest_loop mp limit current_bytes [] = []"
| "harvest_loop mp limit current_bytes (key # keys) =
     (case hm_get (by_hash mp) (key_tx_hash key) of
        None \<Rightarrow> harvest_loop mp limit current_bytes keys
      | Some tx \<Rightarrow>
          if current_bytes + size_bytes tx \<le> limit
          then tx # harvest_loop mp limit (current_bytes + size_bytes tx) keys
          else harvest_loop mp limit current_bytes keys)"

definition harvest :: "nat \<Rightarrow> mempool \<Rightarrow> transaction list" where
  "harvest limit mp = harvest_loop mp limit 0 (rev (priority_index mp))"

fun remove_committed :: "env \<Rightarrow> transaction list \<Rightarrow> mempool \<Rightarrow> (unit, mempool) outcome" where
  "remove_committed E [] mp = Ret () mp"
| "remove_committed E (tx # txs) mp =
     andThen (evict_transaction E (tx_hash E tx) mp) (\<lambda>_ mp'. remove_committed E txs mp')"

definition get_transaction :: "hash \<Rightarrow> mempool \<Rightarrow> transaction option" where
  "get_transaction h mp = hm_get (by_hash mp) h"

definition mempool_len :: "mempool \<Rightarrow> nat" where
  "mempool_len mp = length (by_hash mp)"

definition mempool_is_empty :: "mempool \<Rightarrow> bool" where
  "mempool_is_empty mp \<longleftrightarrow> mempool_len mp = 0"

section \<open>The pool invariant\<close>

definition sender_lookup :: "mempool \<Rightarrow> address \<Rightarrow> u64 \<Rightarrow> transaction option" where
  "sender_lookup mp a n = (case hm_get (by_sender mp) a of None \<Rightarrow> None | Some m \<Rightarrow> om_get m n)"

definition senders_ok :: "mempool \<Rightarrow> bool" where
  "senders_ok mp \<longleftrightarrow> hm_ok (by_sender mp) \<and> (\<forall>a m. hm_get (by_sender mp) a = Some m \<longrightarrow> om_ok m)"

definition pool_size :: "(hash \<times> transaction) list \<Rightarrow> nat" where
  "pool_size m = sum_list (map (\<lambda>p. size_bytes (snd p)) m)"

text \<open>
  Every entry of the hash map is stored under its own hash and has passed the first stage;
  the priority index holds exactly the keys of the entries; the sender index finds exactly
  the entries, under their sender and nonce; the byte count is the sum of the sizes.
\<close>

definition mp_inv :: "env \<Rightarrow> mempool \<Rightarrow> bool" where
  "mp_inv E mp \<longleftrightarrow>
     hm_ok (by_hash mp) \<and> senders_ok mp \<and> os_ok (priority_index mp) \<and>
     (\<forall>p \<in> set (by_hash mp). fst p = tx_hash E (snd p) \<and> validate_stateless E (snd p) = Inr ()) \<and>
     set (priority_index mp) = (\<lambda>p. priority_key_of (fst p) (snd p)) ` set (by_hash mp) \<and>
     (\<forall>a n tx. sender_lookup mp a n = Some tx \<longleftrightarrow>
        (tx_hash E tx, tx) \<in> set (by_hash mp) \<and> tx_sender tx = a \<and> tx_nonce tx = n) \<and>
     total_bytes mp = pool_size (by_hash mp)"

definition mp_limits :: "mempool \<Rightarrow> bool" where
  "mp_limits mp \<longleftrightarrow> length (by_hash mp) \<le> max_transactions (mp_config mp) \<and>
     total_bytes mp \<le> max_bytes (mp_config mp)"

lemma mp_invD:
  assumes "mp_inv E mp"
  shows "hm_ok (by_hash mp)" "senders_ok mp" "os_ok (priority_index mp)"
    and "\<And>h tx. (h, tx) \<in> set (by_hash mp) \<Longrightarrow> h = tx_hash E tx \<and> validate_stateless E tx = Inr ()"
    and "set (priority_index mp) = (\<lambda>p. priority_key_of (fst p) (snd p)) ` set (by_hash mp)"
    and "\<And>a n tx. sender_lookup mp a n = Some tx \<longleftrightarrow>
        (tx_hash E tx, tx) \<in> set (by_hash mp) \<and> tx_sender tx = a \<and> tx_nonce tx = n"
    and "total_bytes mp = pool_size (by_hash mp)"
  using assms by (auto simp: mp_inv_def)

lemma priority_key_of_inject:
  "priority_key_of h tx = priority_key_of h' tx' \<longleftrightarrow>
     h = h' \<and> fee_per_byte tx = fee_per_byte tx' \<and> tx_nonce tx = tx_nonce tx'"
  by (auto simp: priority_key_of_def)

lemma hm_same_key: "hm_ok m \<Longrightarrow> (k, v) \<in> set m \<Longrightarrow> (k, w) \<in> set m \<Longrightarrow> v = w"
  by (metis hm_get_iff option.inject)

lemma sender_remove_simps [simp]:
  "by_hash (sender_remove a n mp) = by_hash mp"
  "priority_index (sender_remove a n mp) = priority_index mp"
  "total_bytes (sender_remove a n mp) = total_bytes mp"
  "mp_config (sender_remove a n mp) = mp_config mp"
  by (simp_all add: sender_remove_def split: option.split)

lemma sender_lookup_remove:
  "sender_lookup (sender_remove a n mp) b k =
     (if b = a \<and> k = n then None else sender_lookup mp b k)"
  by (auto simp: sender_lookup_def sender_remove_def hm_get_insert om_get_fun_remove
      split: option.splits)

lemma senders_ok_remove: "senders_ok mp \<Longrightarrow> senders_ok (sender_remove a n mp)"
  by (auto simp: senders_ok_def sender_remove_def hm_get_insert hm.ok_insert om_ok_remove
      split: option.splits if_splits)

lemma sender_remove_commute:
  "sender_remove a n (mp\<lparr>by_hash := x\<rparr>) = (sender_remove a n mp)\<lparr>by_hash := x\<rparr>"
  "sender_remove a n (mp\<lparr>priority_index := y\<rparr>) = (sender_remove a n mp)\<lparr>priority_index := y\<rparr>"
  "sender_remove a n (mp\<lparr>total_bytes := z\<rparr>) = (sender_remove a n mp)\<lparr>total_bytes := z\<rparr>"
  by (simp_all add: sender_remove_def split: option.split)

lemma sender_lookup_cong:
  "by_sender mp = by_sender mp' \<Longrightarrow> sender_lookup mp = sender_lookup mp'"
  "by_sender mp = by_sender mp' \<Longrightarrow> senders_ok mp = senders_ok mp'"
  by (simp_all add: sender_lookup_def senders_ok_def fun_eq_iff)

text \<open>Taking one entry out of all the indexes, as eviction and replacement both do.\<close>

definition drop_entry :: "hash \<Rightarrow> transaction \<Rightarrow> mempool \<Rightarrow> mempool" where
  "drop_entry h tx mp =
     (sender_remove (tx_sender tx) (tx_nonce tx) mp)
       \<lparr>by_hash := hm_remove h (by_hash mp),
        priority_index := os_remove (priority_key_of h tx) (priority_index mp),
        total_bytes := total_bytes mp - size_bytes tx\<rparr>"

lemma drop_entry_simps [simp]:
  "by_hash (drop_entry h tx mp) = hm_remove h (by_hash mp)"
  "priority_index (drop_entry h tx mp) = os_remove (priority_key_of h tx) (priority_index mp)"
  "total_bytes (drop_entry h tx mp) = total_bytes mp - size_bytes tx"
  "mp_config (drop_entry h tx mp) = mp_config mp"
  by (simp_all add: drop_entry_def)

lemma image_filter: "(\<And>p. p \<in> S \<Longrightarrow> f p \<noteq> y \<longleftrightarrow> Q p) \<Longrightarrow> f ` {p \<in> S. Q p} = f ` S - {y}"
  by auto

lemma mp_inv_drop_entry:
  assumes "mp_inv E mp" and "(h, tx) \<in> set (by_hash mp)"
  shows "mp_inv E (drop_entry h tx mp)"
proof -
  note inv = mp_invD [OF assms(1)]
  have h: "h = tx_hash E tx" using inv(4) [OF assms(2)] by simp
  have same: "t = tx" if "(h, t) \<in> set (by_hash mp)" for t
    using hm_same_key [OF inv(1) that assms(2)] .
  have keys: "set (priority_index (drop_entry h tx mp)) =
      (\<lambda>p. priority_key_of (fst p) (snd p)) ` set (by_hash (drop_entry h tx mp))"
  proof -
    let ?key = "\<lambda>p. priority_key_of (fst p) (snd p)"
    have "?key p \<noteq> priority_key_of h tx \<longleftrightarrow> fst p \<noteq> h" if "p \<in> set (by_hash mp)" for p
    proof (cases "fst p = h")
      case True
      then have "(h, snd p) = p" by (simp add: prod_eq_iff)
      with that have "(h, snd p) \<in> set (by_hash mp)" by simp
      then have "snd p = tx" by (rule same)
      with True show ?thesis by simp
    qed (simp add: priority_key_of_inject)
    then have "?key ` {p \<in> set (by_hash mp). fst p \<noteq> h} =
        ?key ` set (by_hash mp) - {priority_key_of h tx}" by (rule image_filter)
    then show ?thesis by (simp add: inv(5) set_hm_remove)
  qed
  have "sender_lookup (drop_entry h tx mp) a n =
      sender_lookup (sender_remove (tx_sender tx) (tx_nonce tx) mp) a n" for a n
    by (simp add: drop_entry_def sender_lookup_def)
  moreover have "sender_lookup (sender_remove (tx_sender tx) (tx_nonce tx) mp) a n = Some t \<longleftrightarrow>
      ((tx_hash E t, t) \<in> set (by_hash mp) \<and> tx_hash E t \<noteq> h) \<and> tx_sender t = a \<and> tx_nonce t = n"
    for a n t
  proof (cases "a = tx_sender tx \<and> n = tx_nonce tx")
    case True
    have "sender_lookup mp (tx_sender tx) (tx_nonce tx) = Some tx"
      using inv(6) assms(2) h by blast
    then have "\<not> (((tx_hash E t, t) \<in> set (by_hash mp) \<and> tx_hash E t \<noteq> h) \<and>
        tx_sender t = a \<and> tx_nonce t = n)"
      using inv(6) [of a n t] True h by (metis option.inject)
    moreover have "sender_lookup (sender_remove (tx_sender tx) (tx_nonce tx) mp) a n = None"
      using True by (simp only: sender_lookup_remove) simp
    ultimately show ?thesis by simp
  next
    case False
    then have "(tx_hash E t, t) \<in> set (by_hash mp) \<and> tx_sender t = a \<and> tx_nonce t = n \<longrightarrow>
        tx_hash E t \<noteq> h"
      using same by metis
    moreover have "sender_lookup (sender_remove (tx_sender tx) (tx_nonce tx) mp) a n = sender_lookup mp a n"
      using False by (simp only: sender_lookup_remove) simp
    ultimately show ?thesis using inv(6) [of a n t] by metis
  qed
  ultimately have lookup: "sender_lookup (drop_entry h tx mp) a n = Some t \<longleftrightarrow>
      (tx_hash E t, t) \<in> set (by_hash (drop_entry h tx mp)) \<and> tx_sender t = a \<and> tx_nonce t = n" for a n t
    by (simp add: set_hm_remove)
  have "senders_ok (drop_entry h tx mp)"
    using senders_ok_remove [OF inv(2)] by (simp add: drop_entry_def senders_ok_def)
  moreover have "total_bytes (drop_entry h tx mp) = pool_size (by_hash (drop_entry h tx mp))"
    using sum_list_hm_remove [OF inv(1) assms(2), of "\<lambda>p. size_bytes (snd p)"]
    by (simp add: inv(7) pool_size_def)
  moreover have "\<forall>p \<in> set (by_hash (drop_entry h tx mp)).
      fst p = tx_hash E (snd p) \<and> validate_stateless E (snd p) = Inr ()"
    using inv(4) by (auto simp: set_hm_remove)
  ultimately show ?thesis
    using keys lookup inv(1,3) unfolding mp_inv_def
    by (simp add: hm.ok_remove os_ok_remove)
qed

lemma mp_inv_get: "mp_inv E mp \<Longrightarrow> hm_get (by_hash mp) h = Some tx \<longleftrightarrow> (h, tx) \<in> set (by_hash mp)"
  by (simp add: hm_get_iff mp_invD(1))

section \<open>Eviction, replacement and insertion\<close>

lemma evict_transaction_eq:
  "evict_transaction E h mp =
     (case hm_get (by_hash mp) h of
        None \<Rightarrow> Ret None mp
      | Some tx \<Rightarrow>
          if locks E [ReadGuard] WriteGuard then Ret (Some tx) (drop_entry h tx mp)
          else Blocked ((drop_entry h tx mp)\<lparr>total_bytes := total_bytes mp\<rparr>))"
  by (simp add: evict_transaction_def release_bytes_def drop_entry_def Let_def sender_remove_def
      split: option.split)

definition touch_sender :: "address \<Rightarrow> mempool \<Rightarrow> mempool" where
  "touch_sender a mp =
     mp\<lparr>by_sender := hm_insert a
       (case hm_get (by_sender mp) a of Some m \<Rightarrow> m | None \<Rightarrow> []) (by_sender mp)\<rparr>"

lemma touch_sender_simps [simp]:
  "by_hash (touch_sender a mp) = by_hash mp"
  "priority_index (touch_sender a mp) = priority_index mp"
  "total_bytes (touch_sender a mp) = total_bytes mp"
  "mp_config (touch_sender a mp) = mp_config mp"
  by (simp_all add: touch_sender_def)

lemma sender_lookup_touch [simp]: "sender_lookup (touch_sender a mp) = sender_lookup mp"
  by (auto simp: sender_lookup_def touch_sender_def hm_get_insert fun_eq_iff split: option.split)

lemma mp_inv_touch: "mp_inv E mp \<Longrightarrow> mp_inv E (touch_sender a mp)"
proof -
  assume inv: "mp_inv E mp"
  have "senders_ok (touch_sender a mp)"
    using mp_invD(2) [OF inv]
    by (auto simp: senders_ok_def touch_sender_def hm_get_insert hm.ok_insert split: option.splits)
  with inv show ?thesis by (simp add: mp_inv_def)
qed

lemma rbf_check_Ret:
  assumes "mp_inv E mp" and "rbf_check E tx mp = Ret r mp'"
  shows "case sender_lookup mp (tx_sender tx) (tx_nonce tx) of
      None \<Rightarrow> r = Inr () \<and> mp' = touch_sender (tx_sender tx) mp
    | Some old \<Rightarrow>
        \<exists>bump min_fee. mul_ck (prof E) (tx_fee old) (ucast (min_rbf_bump_percent (mp_config mp))) = Some bump \<and>
          add_ck (prof E) (tx_fee old) (bump div 100) = Some min_fee \<and>
          (if tx_fee tx < min_fee
           then r = Inl (InsufficientRbfBump (min_rbf_bump_percent (mp_config mp))) \<and>
             mp' = touch_sender (tx_sender tx) mp
           else r = Inr () \<and> locks E [ReadGuard] WriteGuard \<and>
             mp' = drop_entry (tx_hash E old) old (touch_sender (tx_sender tx) mp))"
proof -
  let ?m = "case hm_get (by_sender mp) (tx_sender tx) of Some m \<Rightarrow> m | None \<Rightarrow> []"
  have look: "om_get ?m (tx_nonce tx) = sender_lookup mp (tx_sender tx) (tx_nonce tx)"
    by (simp add: sender_lookup_def split: option.split)
  show ?thesis
  proof (cases "sender_lookup mp (tx_sender tx) (tx_nonce tx)")
    case None
    with assms(2) show ?thesis by (simp add: rbf_check_def Let_def look touch_sender_def)
  next
    case (Some old)
    then have "tx_sender old = tx_sender tx" "tx_nonce old = tx_nonce tx"
      using mp_invD(6) [OF assms(1)] by blast+
    with assms(2) Some show ?thesis
      by (auto simp: rbf_check_def Let_def look or_panic_Ret_iff andThen_Ret_iff release_bytes_def
          drop_entry_def sender_remove_commute touch_sender_def [symmetric] split: if_splits)
  qed
qed

lemma rbf_check_replaces:
  assumes "mp_inv E mp" and "rbf_check E tx mp = Ret (Inr ()) mp'"
    and "sender_lookup mp (tx_sender tx) (tx_nonce tx) = Some old"
  shows "\<exists>bump min_fee. mul_ck (prof E) (tx_fee old) (ucast (min_rbf_bump_percent (mp_config mp))) = Some bump \<and>
    add_ck (prof E) (tx_fee old) (bump div 100) = Some min_fee \<and> min_fee \<le> tx_fee tx"
proof -
  obtain bump min_fee where
    b: "mul_ck (prof E) (tx_fee old) (ucast (min_rbf_bump_percent (mp_config mp))) = Some bump"
      "add_ck (prof E) (tx_fee old) (bump div 100) = Some min_fee" and
    c: "if tx_fee tx < min_fee
        then Inr () = Inl (InsufficientRbfBump (min_rbf_bump_percent (mp_config mp))) \<and>
          mp' = touch_sender (tx_sender tx) mp
        else Inr () = (Inr () :: mempool_error + unit) \<and> locks E [ReadGuard] WriteGuard \<and>
          mp' = drop_entry (tx_hash E old) old (touch_sender (tx_sender tx) mp)"
    using rbf_check_Ret [OF assms(1,2), unfolded assms(3) option.case] by blast
  from c have "min_fee \<le> tx_fee tx" by (cases "tx_fee tx < min_fee") simp_all
  with b show ?thesis by blast
qed

text \<open>What an eviction run may do to the pool in favour of a newcomer \<open>tx\<close>.\<close>

definition evicts_for :: "transaction \<Rightarrow> mempool \<Rightarrow> mempool \<Rightarrow> bool" where
  "evicts_for tx mp mp' \<longleftrightarrow>
     mp_config mp' = mp_config mp \<and> set (by_hash mp') \<subseteq> set (by_hash mp) \<and>
     length (by_hash mp') \<le> length (by_hash mp) \<and> total_bytes mp' \<le> total_bytes mp \<and>
     (\<forall>p \<in> set (by_hash mp) - set (by_hash mp').
        fee_per_byte (snd p) < fee_per_byte tx \<and>
        (\<forall>q \<in> set (by_hash mp').
           priority_key_of (fst p) (snd p) < priority_key_of (fst q) (snd q)))"

lemma evicts_for_refl: "evicts_for tx mp mp"
  by (simp add: evicts_for_def)

lemma lowest_key:
  assumes "mp_inv E mp" and "priority_index mp = key # rest"
  obtains h t where "key = priority_key_of h t" "hm_get (by_hash mp) h = Some t"
    "(h, t) \<in> set (by_hash mp)"
    "\<And>q. q \<in> set (hm_remove h (by_hash mp)) \<Longrightarrow> key < priority_key_of (fst q) (snd q)"
proof -
  note inv = mp_invD [OF assms(1)]
  from assms(2) inv(5) have "key \<in> (\<lambda>p. priority_key_of (fst p) (snd p)) ` set (by_hash mp)"
    by (metis list.set_intros(1))
  then obtain h t where ht: "(h, t) \<in> set (by_hash mp)" "key = priority_key_of h t" by auto
  have "key < priority_key_of (fst q) (snd q)" if q: "q \<in> set (hm_remove h (by_hash mp))" for q
  proof -
    from q have "q \<in> set (by_hash mp)" "fst q \<noteq> h" by (auto simp: set_hm_remove)
    then have "priority_key_of (fst q) (snd q) \<in> set (key # rest)"
      using inv(5) assms(2) by auto
    moreover have "priority_key_of (fst q) (snd q) \<noteq> key"
      using \<open>fst q \<noteq> h\<close> ht(2) by (simp add: priority_key_of_inject)
    ultimately show ?thesis using inv(3) assms(2) by (auto simp: os_ok_def)
  qed
  with ht that mp_inv_get [OF assms(1)] show ?thesis by blast
qed

lemma evicts_for_step:
  assumes "mp_inv E mp" and "hm_get (by_hash mp) h = Some t" and "fee_per_byte t < fee_per_byte tx"
    and "\<And>q. q \<in> set (hm_remove h (by_hash mp)) \<Longrightarrow> priority_key_of h t < priority_key_of (fst q) (snd q)"
    and "evicts_for tx (drop_entry h t mp) mp'"
  shows "evicts_for tx mp mp'"
proof -
  have "p = (h, t)" if "p \<in> set (by_hash mp)" "fst p = h" for p
    using that assms(2) mp_inv_get [OF assms(1)] by (metis option.inject prod.collapse)
  then have split: "p = (h, t) \<or> p \<in> set (hm_remove h (by_hash mp))" if "p \<in> set (by_hash mp)" for p
    unfolding set_hm_remove using that by blast
  note ev = assms(5) [unfolded evicts_for_def drop_entry_simps]
  have "fee_per_byte (snd p) < fee_per_byte tx \<and> (\<forall>q \<in> set (by_hash mp').
      priority_key_of (fst p) (snd p) < priority_key_of (fst q) (snd q))"
    if p: "p \<in> set (by_hash mp) - set (by_hash mp')" for p
  proof (cases "p = (h, t)")
    case True
    with assms(3,4) ev show ?thesis by auto
  next
    case False
    with p split [of p] have "p \<in> set (hm_remove h (by_hash mp)) - set (by_hash mp')" by blast
    with ev show ?thesis by blast
  qed
  moreover have "set (by_hash mp') \<subseteq> set (by_hash mp)" using ev by (auto simp: set_hm_remove)
  moreover have "length (by_hash mp') \<le> length (by_hash mp)" "total_bytes mp' \<le> total_bytes mp"
    using ev length_hm_remove [OF assms(2)] by linarith+
  ultimately show ?thesis
    using ev unfolding evicts_for_def by blast
qed

lemma make_room_loop_result:
  "mp_inv E mp \<Longrightarrow> \<exists>out. make_room_loop E tx sz mp = Some out \<and>
     (case out of
        Ret r mp' \<Rightarrow> mp_inv E mp' \<and> evicts_for tx mp mp' \<and>
          (if over_capacity sz mp' then r = Inl PoolFull else r = Inr ())
      | Blocked mp' \<Rightarrow> \<not> locks E [ReadGuard] WriteGuard
      | _ \<Rightarrow> False)"
proof (induction "length (by_hash mp)" arbitrary: mp rule: less_induct)
  case less
  note unfold = make_room_loop.simps [of E tx sz mp]
  show ?case
  proof (cases "over_capacity sz mp")
    case False
    with less.prems show ?thesis by (simp add: unfold evicts_for_refl)
  next
    case over: True
    show ?thesis
    proof (cases "priority_index mp")
      case Nil
      with over less.prems show ?thesis by (simp add: unfold evicts_for_refl)
    next
      case (Cons key rest)
      obtain h t where ht: "key = priority_key_of h t" "hm_get (by_hash mp) h = Some t"
        "(h, t) \<in> set (by_hash mp)"
        "\<And>q. q \<in> set (hm_remove h (by_hash mp)) \<Longrightarrow> key < priority_key_of (fst q) (snd q)"
        using lowest_key [OF less.prems Cons] by blast
      have sel: "key_fee_per_byte key = fee_per_byte t" "key_tx_hash key = h"
        by (simp_all add: ht(1) priority_key_of_def)
      show ?thesis
      proof (cases "fee_per_byte t \<ge> fee_per_byte tx")
        case True
        with over Cons less.prems show ?thesis by (simp add: unfold sel evicts_for_refl)
      next
        case False
        show ?thesis
        proof (cases "locks E [ReadGuard] WriteGuard")
          case blocked: False
          with over Cons False ht(2) show ?thesis
            by (simp add: unfold sel evict_transaction_eq)
        next
          case True
          let ?d = "drop_entry h t mp"
          have step: "make_room_loop E tx sz mp = make_room_loop E tx sz ?d"
            using over Cons False ht(2) True by (simp add: unfold sel evict_transaction_eq)
          have "length (by_hash ?d) < length (by_hash mp)"
            using length_hm_remove [OF ht(2)] by simp
          from less.hyps [OF this mp_inv_drop_entry [OF less.prems ht(3)]]
          obtain out where out: "make_room_loop E tx sz ?d = Some out"
            "case out of Ret r mp' \<Rightarrow> mp_inv E mp' \<and> evicts_for tx ?d mp' \<and>
               (if over_capacity sz mp' then r = Inl PoolFull else r = Inr ())
             | Blocked mp' \<Rightarrow> \<not> locks E [ReadGuard] WriteGuard | _ \<Rightarrow> False" by blast
          have "evicts_for tx mp mp'" if "evicts_for tx ?d mp'" for mp'
            using evicts_for_step [OF less.prems ht(2) _ _ that] ht(1,4) False by simp
          with out step show ?thesis by (cases out) auto
        qed
      qed
    qed
  qed
qed

lemma make_room_Ret:
  assumes "mp_inv E mp" and "make_room E tx sz mp = Ret r mp'"
  shows "mp_inv E mp'" "evicts_for tx mp mp'"
    and "if over_capacity sz mp' then r = Inl PoolFull else r = Inr ()"
  using make_room_loop_result [OF assms(1), of tx sz] assms(2) by (auto simp: make_room_def)

lemma sender_lookup_insert:
  assumes "senders_ok mp"
  shows "sender_lookup (insert_transaction h tx sz mp) a n =
    (if a = tx_sender tx \<and> n = tx_nonce tx then Some tx else sender_lookup mp a n)"
  using assms
  by (auto simp: sender_lookup_def insert_transaction_def Let_def hm_get_insert om_get_fun_insert
      senders_ok_def split: option.split)

lemma senders_ok_insert: "senders_ok mp \<Longrightarrow> senders_ok (insert_transaction h tx sz mp)"
  using om_ok_insert [of "[]"]
  by (auto simp: senders_ok_def insert_transaction_def Let_def hm_get_insert hm.ok_insert
      intro!: om_ok_insert split: option.splits)

lemma insert_transaction_simps [simp]:
  "by_hash (insert_transaction h tx sz mp) = hm_insert h tx (by_hash mp)"
  "priority_index (insert_transaction h tx sz mp) = os_insert (priority_key_of h tx) (priority_index mp)"
  "total_bytes (insert_transaction h tx sz mp) = total_bytes mp + sz"
  "mp_config (insert_transaction h tx sz mp) = mp_config mp"
  by (simp_all add: insert_transaction_def Let_def)

lemma mp_inv_insert:
  assumes "mp_inv E mp" and "hm_get (by_hash mp) (tx_hash E tx) = None"
    and "sender_lookup mp (tx_sender tx) (tx_nonce tx) = None"
    and "validate_stateless E tx = Inr ()"
  shows "mp_inv E (insert_transaction (tx_hash E tx) tx (size_bytes tx) mp)"
proof -
  note inv = mp_invD [OF assms(1)]
  have fresh: "(tx_hash E tx, t) \<notin> set (by_hash mp)" for t
    using assms(2) mp_inv_get [OF assms(1), of "tx_hash E tx" t] by simp
  have "sender_lookup (insert_transaction (tx_hash E tx) tx (size_bytes tx) mp) a n = Some t \<longleftrightarrow>
      (tx_hash E t, t) \<in> set (by_hash mp @ [(tx_hash E tx, tx)]) \<and> tx_sender t = a \<and> tx_nonce t = n"
    for a n t
  proof (cases "a = tx_sender tx \<and> n = tx_nonce tx")
    case True
    with inv(6) [of a n t] assms(3) show ?thesis
      by (simp only: sender_lookup_insert [OF inv(2)]) auto
  next
    case False
    then show ?thesis
      using inv(6) [of a n t] by (simp only: sender_lookup_insert [OF inv(2)]) auto
  qed
  moreover have "hm_ok (by_hash mp @ [(tx_hash E tx, tx)])"
    using hm.ok_insert [OF inv(1)] hm_insert_fresh [OF assms(2)] by metis
  moreover have "pool_size (by_hash mp @ [(tx_hash E tx, tx)]) = pool_size (by_hash mp) + size_bytes tx"
    by (simp add: pool_size_def)
  ultimately show ?thesis
    using inv(4,5) assms(4) unfolding mp_inv_def
    by (auto simp: hm_insert_fresh [OF assms(2)] senders_ok_insert [OF inv(2)] os_ok_insert inv(3,7))
qed

lemma mp_limits_mono:
  "mp_limits mp \<Longrightarrow> mp_config mp' = mp_config mp \<Longrightarrow> length (by_hash mp') \<le> length (by_hash mp) \<Longrightarrow>
     total_bytes mp' \<le> total_bytes mp \<Longrightarrow> mp_limits mp'"
  by (simp add: mp_limits_def)

text \<open>The part of the pool that a replacement leaves: all of it, or all but the old entry.\<close>

lemma rbf_check_keeps:
  assumes "mp_inv E mp" and "rbf_check E tx mp = Ret r mp'"
  shows "mp_inv E mp'" "mp_config mp' = mp_config mp" "mp_limits mp \<Longrightarrow> mp_limits mp'"
    and "set (by_hash mp') \<subseteq> set (by_hash mp)"
    and "\<And>p. p \<in> set (by_hash mp) - set (by_hash mp') \<Longrightarrow>
      sender_lookup mp (tx_sender tx) (tx_nonce tx) = Some (snd p)"
    and "r = Inr () \<Longrightarrow> sender_lookup mp' (tx_sender tx) (tx_nonce tx) = None"
proof -
  note touched = mp_inv_touch [OF assms(1), of "tx_sender tx"]
  consider "mp' = touch_sender (tx_sender tx) mp"
      "r = Inr () \<longrightarrow> sender_lookup mp (tx_sender tx) (tx_nonce tx) = None"
    | old where "sender_lookup mp (tx_sender tx) (tx_nonce tx) = Some old"
        "mp' = drop_entry (tx_hash E old) old (touch_sender (tx_sender tx) mp)"
    using rbf_check_Ret [OF assms] by (auto split: option.splits if_splits)
  then have "mp_inv E mp' \<and> mp_config mp' = mp_config mp \<and> (mp_limits mp \<longrightarrow> mp_limits mp') \<and>
    set (by_hash mp') \<subseteq> set (by_hash mp) \<and>
    (\<forall>p \<in> set (by_hash mp) - set (by_hash mp').
       sender_lookup mp (tx_sender tx) (tx_nonce tx) = Some (snd p)) \<and>
    (r = Inr () \<longrightarrow> sender_lookup mp' (tx_sender tx) (tx_nonce tx) = None)"
  proof cases
    case 1
    then show ?thesis using touched by (simp add: mp_limits_def)
  next
    case (2 old)
    then have old: "(tx_hash E old, old) \<in> set (by_hash mp)" "tx_sender old = tx_sender tx"
      "tx_nonce old = tx_nonce tx"
      using mp_invD(6) [OF assms(1)] by blast+
    have "mp_inv E mp'" unfolding 2(2) using touched old(1) by (intro mp_inv_drop_entry) simp_all
    moreover have "snd p = old" if "p \<in> set (by_hash mp)" "fst p = tx_hash E old" for p
      using hm_same_key [OF mp_invD(1) [OF assms(1)], of "tx_hash E old" "snd p" old] that old(1)
      by (metis prod.collapse)
    moreover have "length (hm_remove (tx_hash E old) (by_hash mp)) \<le> length (by_hash mp)"
      by (simp add: hm_remove_def length_delete_le)
    moreover have "sender_lookup mp' (tx_sender tx) (tx_nonce tx) = None"
      using sender_lookup_remove [of "tx_sender old" "tx_nonce old" "touch_sender (tx_sender tx) mp"]
      by (simp add: 2(2) drop_entry_def sender_lookup_def old)
    ultimately show ?thesis
      using 2 by (auto simp: mp_limits_def set_hm_remove)
  qed
  then show "mp_inv E mp'" "mp_config mp' = mp_config mp" "mp_limits mp \<Longrightarrow> mp_limits mp'"
    "set (by_hash mp') \<subseteq> set (by_hash mp)"
    "\<And>p. p \<in> set (by_hash mp) - set (by_hash mp') \<Longrightarrow>
      sender_lookup mp (tx_sender tx) (tx_nonce tx) = Some (snd p)"
    "r = Inr () \<Longrightarrow> sender_lookup mp' (tx_sender tx) (tx_nonce tx) = None"
    by blast+
qed

lemma case_sum_unit_iff:
  "(case a of Inl e \<Rightarrow> f e | Inr u \<Rightarrow> b) = c \<longleftrightarrow>
     (\<exists>e. a = Inl e \<and> f e = c) \<or> a = Inr () \<and> b = c"
  by (cases a) auto

lemma add_transaction_InrD:
  assumes "add_transaction E C db tx mp = Ret (Inr h) mp'"
  obtains mp1 mp2 where "validate_stateless E tx = Inr ()" "h = tx_hash E tx"
    "hm_get (by_hash mp) h = None"
    "validate_stateful E tx (get_account C db (tx_sender tx)) = Some (Inr ())"
    "rbf_check E tx mp = Ret (Inr ()) mp1" "make_room E tx (size_bytes tx) mp1 = Ret (Inr ()) mp2"
    "mp' = insert_transaction h tx (size_bytes tx) mp2"
  using assms
  by (auto simp: add_transaction_def Let_def or_panic_Ret_iff andThen_Ret_iff
      case_sum_unit_iff split: if_splits)

lemma add_transaction_InlD:
  assumes "add_transaction E C db tx mp = Ret (Inl e) mp'"
  obtains "mp' = mp" "e \<noteq> PoolFull"
  | "rbf_check E tx mp = Ret (Inl e) mp'"
  | mp1 where "rbf_check E tx mp = Ret (Inr ()) mp1"
      "make_room E tx (size_bytes tx) mp1 = Ret (Inl e) mp'"
  using assms
  by (auto simp: add_transaction_def Let_def or_panic_Ret_iff andThen_Ret_iff
      case_sum_unit_iff split: if_splits)

lemma add_transaction_keeps:
  assumes "mp_inv E mp" and "mp_limits mp" and "add_transaction E C db tx mp = Ret r mp'"
  shows "mp_inv E mp' \<and> mp_limits mp'"
proof (cases r)
  case (Inl e)
  with assms(3) have "add_transaction E C db tx mp = Ret (Inl e) mp'" by simp
  then show ?thesis
  proof (cases rule: add_transaction_InlD)
    case 1
    with assms show ?thesis by simp
  next
    case 2
    with rbf_check_keeps [OF assms(1)] assms(2) show ?thesis by blast
  next
    case (3 mp1)
    note k = rbf_check_keeps [OF assms(1) 3(1)]
    from make_room_Ret [OF k(1) 3(2)] k(3) assms(2) show ?thesis
      by (auto simp: evicts_for_def intro: mp_limits_mono)
  qed
next
  case (Inr h)
  with assms(3) have "add_transaction E C db tx mp = Ret (Inr h) mp'" by simp
  then show ?thesis
  proof (cases rule: add_transaction_InrD)
    case (1 mp1 mp2)
    note k = rbf_check_keeps [OF assms(1) 1(5)]
    note m = make_room_Ret [OF k(1) 1(6)]
    have sub: "set (by_hash mp2) \<subseteq> set (by_hash mp)" using m(2) k(4) by (auto simp: evicts_for_def)
    then have fresh: "hm_get (by_hash mp2) (tx_hash E tx) = None"
      using 1(2,3) mp_inv_get [OF assms(1)] mp_inv_get [OF m(1)]
      by (metis not_None_eq subsetD)
    have "sender_lookup mp2 (tx_sender tx) (tx_nonce tx) \<noteq> Some t" for t
      using k(6) mp_invD(6) [OF m(1), of "tx_sender tx" "tx_nonce tx" t]
        mp_invD(6) [OF k(1), of "tx_sender tx" "tx_nonce tx" t] m(2)
      by (auto simp: evicts_for_def)
    then have none: "sender_lookup mp2 (tx_sender tx) (tx_nonce tx) = None" by auto
    have "\<not> over_capacity (size_bytes tx) mp2" using m(3) by (auto split: if_splits)
    then have "mp_limits mp'"
      by (simp add: 1(2,7) mp_limits_def over_capacity_def hm_insert_fresh [OF fresh])
    with mp_inv_insert [OF m(1) fresh none 1(1)] 1(2,7) show ?thesis by simp
  qed
qed

lemma evict_transaction_keeps:
  assumes "mp_inv E mp" and "evict_transaction E h mp = Ret r mp'"
  shows "mp_inv E mp' \<and> (mp_limits mp \<longrightarrow> mp_limits mp') \<and> hm_get (by_hash mp') h = None \<and>
    set (by_hash mp') \<subseteq> set (by_hash mp)"
proof (cases "hm_get (by_hash mp) h")
  case None
  with assms show ?thesis by (simp add: evict_transaction_eq)
next
  case (Some tx)
  with assms(2) have "mp' = drop_entry h tx mp"
    by (simp add: evict_transaction_eq split: if_splits)
  moreover have "mp_inv E (drop_entry h tx mp)"
    using assms(1) Some mp_inv_get by (intro mp_inv_drop_entry) blast+
  moreover have "length (hm_remove h (by_hash mp)) \<le> length (by_hash mp)"
    by (simp add: hm_remove_def length_delete_le)
  ultimately show ?thesis
    by (auto simp: mp_limits_def hm_get_remove set_hm_remove)
qed

lemma remove_reentrant: "locks E = reentrant \<Longrightarrow> \<exists>mp'. remove_committed E txs mp = Ret () mp'"
  by (induction txs arbitrary: mp) (simp_all add: evict_transaction_eq split: option.split)

lemma remove_committed_keeps:
  "mp_inv E mp \<Longrightarrow> remove_committed E txs mp = Ret r mp' \<Longrightarrow>
     mp_inv E mp' \<and> (mp_limits mp \<longrightarrow> mp_limits mp') \<and> set (by_hash mp') \<subseteq> set (by_hash mp) \<and>
     (\<forall>tx \<in> set txs. hm_get (by_hash mp') (tx_hash E tx) = None)"
proof (induction txs arbitrary: mp)
  case (Cons tx txs)
  then obtain v mp1 where e: "evict_transaction E (tx_hash E tx) mp = Ret v mp1"
    "remove_committed E txs mp1 = Ret r mp'" by (auto simp: andThen_Ret_iff)
  note k = evict_transaction_keeps [OF Cons.prems(1) e(1)]
  note i = Cons.IH [OF conjunct1 [OF k] e(2)]
  have "hm_get (by_hash mp') (tx_hash E tx) = None"
    using k i mp_inv_get [of E mp1] mp_inv_get [of E mp'] by (metis not_None_eq subsetD)
  with k i show ?case by auto
qed simp

section \<open>Harvesting\<close>

definition entry_key :: "env \<Rightarrow> transaction \<Rightarrow> priority_key" where
  "entry_key E tx = priority_key_of (tx_hash E tx) tx"

definition size_sum :: "transaction list \<Rightarrow> nat" where
  "size_sum txs = sum_list (map size_bytes txs)"

lemma harvest_loop_size:
  "cur \<le> limit \<Longrightarrow> cur + size_sum (harvest_loop mp limit cur keys) \<le> limit"
  by (induction mp limit cur keys rule: harvest_loop.induct)
     (auto simp: size_sum_def split: option.splits)

lemma harvest_loop_greedy:
  "k \<in> set keys \<Longrightarrow> hm_get (by_hash mp) (key_tx_hash k) = Some tx \<Longrightarrow>
     tx \<notin> set (harvest_loop mp limit cur keys) \<Longrightarrow>
     limit < cur + size_sum (harvest_loop mp limit cur keys) + size_bytes tx"
  by (induction mp limit cur keys rule: harvest_loop.induct)
     (auto simp: size_sum_def split: option.splits if_splits)

lemma harvest_loop_subseq:
  assumes "\<And>k. k \<in> set keys \<Longrightarrow> \<exists>tx. hm_get (by_hash mp) (key_tx_hash k) = Some tx \<and> k = entry_key E tx"
  shows "subseq (map (entry_key E) (harvest_loop mp limit cur keys)) keys"
  using assms
proof (induction mp limit cur keys rule: harvest_loop.induct)
  case (2 mp limit cur key keys)
  from 2(4) [of key] obtain tx where
    tx: "hm_get (by_hash mp) (key_tx_hash key) = Some tx" "key = entry_key E tx" by auto
  show ?case
  proof (cases "cur + size_bytes tx \<le> limit")
    case True
    from 2(2) [OF tx(1) True] 2(4) have
      "subseq (map (entry_key E) (harvest_loop mp limit (cur + size_bytes tx) keys)) keys" by simp
    with True tx show ?thesis by simp
  next
    case False
    from 2(3) [OF tx(1) False] 2(4) have
      "subseq (map (entry_key E) (harvest_loop mp limit cur keys)) keys" by simp
    then have "subseq (map (entry_key E) (harvest_loop mp limit cur keys)) (key # keys)"
      by (rule list_emb_Cons)
    with False tx(1) show ?thesis by simp
  qed
qed simp

lemma sorted_wrt_subseq: "subseq xs ys \<Longrightarrow> sorted_wrt P ys \<Longrightarrow> sorted_wrt P xs"
proof (induction rule: list_emb.induct)
  case (list_emb_Cons2 x y xs ys)
  then show ?case using list_emb_set by fastforce
qed auto

lemma pool_keys:
  assumes "mp_inv E mp" and "k \<in> set (priority_index mp)"
  shows "\<exists>tx. hm_get (by_hash mp) (key_tx_hash k) = Some tx \<and> k = entry_key E tx"
proof -
  from assms(2) obtain h tx where "(h, tx) \<in> set (by_hash mp)" "k = priority_key_of h tx"
    by (auto simp: mp_invD(5) [OF assms(1)])
  with mp_inv_get [OF assms(1)] mp_invD(4) [OF assms(1)] show ?thesis
    by (auto simp: priority_key_of_def entry_key_def)
qed

lemma harvest_sorted:
  assumes "mp_inv E mp"
  shows "sorted_wrt (\<lambda>t u. entry_key E u < entry_key E t) (harvest limit mp)"
proof -
  have "subseq (map (entry_key E) (harvest limit mp)) (rev (priority_index mp))"
    unfolding harvest_def using pool_keys [OF assms] by (intro harvest_loop_subseq) simp
  moreover have "sorted_wrt (\<lambda>a b. b < a) (rev (priority_index mp))"
    using mp_invD(3) [OF assms] by (simp add: os_ok_def sorted_wrt_rev)
  ultimately have "sorted_wrt (\<lambda>a b. b < a) (map (entry_key E) (harvest limit mp))"
    by (rule sorted_wrt_subseq)
  then show ?thesis by (simp add: sorted_wrt_map)
qed

lemma harvest_loop_in_pool:
  "tx \<in> set (harvest_loop mp limit cur keys) \<Longrightarrow> \<exists>h. hm_get (by_hash mp) h = Some tx"
  by (induction mp limit cur keys rule: harvest_loop.induct)
     (auto split: option.splits if_splits)

lemma harvest_valid:
  assumes "mp_inv E mp" and "tx \<in> set (harvest limit mp)"
  shows "validate_stateless E tx = Inr ()" and "get_transaction (tx_hash E tx) mp = Some tx"
proof -
  from assms(2) obtain h where "hm_get (by_hash mp) h = Some tx"
    unfolding harvest_def using harvest_loop_in_pool by blast
  with mp_inv_get [OF assms(1)] mp_invD(4) [OF assms(1)]
  show "validate_stateless E tx = Inr ()" "get_transaction (tx_hash E tx) mp = Some tx"
    by (auto simp: get_transaction_def)
qed

section \<open>Reachable pools\<close>

inductive pool_reach :: "env \<Rightarrow> codec \<Rightarrow> mempool_config \<Rightarrow> mempool \<Rightarrow> bool" for E C config where
  pool_new: "pool_reach E C config (mempool_new config)"
| pool_add: "pool_reach E C config mp \<Longrightarrow> add_transaction E C db tx mp = Ret r mp' \<Longrightarrow>
    pool_reach E C config mp'"
| pool_evict: "pool_reach E C config mp \<Longrightarrow> evict_transaction E h mp = Ret r' mp' \<Longrightarrow>
    pool_reach E C config mp'"
| pool_commit: "pool_reach E C config mp \<Longrightarrow> remove_committed E txs mp = Ret r'' mp' \<Longrightarrow>
    pool_reach E C config mp'"

lemma mp_inv_new: "mp_inv E (mempool_new config) \<and> mp_limits (mempool_new config)"
  by (simp add: mp_inv_def mempool_new_def senders_ok_def sender_lookup_def pool_size_def mp_limits_def)

lemma pool_reach_inv: "pool_reach E C config mp \<Longrightarrow> mp_inv E mp \<and> mp_limits mp"
proof (induction rule: pool_reach.induct)
  case pool_new
  show ?case by (rule mp_inv_new)
next
  case (pool_add mp db tx r mp')
  then show ?case by (blast dest: add_transaction_keeps)
next
  case (pool_evict mp h r mp')
  then show ?case by (blast dest: evict_transaction_keeps)
next
  case (pool_commit mp txs r mp')
  then show ?case by (blast dest: remove_committed_keeps)
qed

lemma validate_stateful_accepts:
  assumes "unat (nonce acc) + 64 < 2 ^ 64"
  shows "validate_stateful E tx acc = Some (Inr ()) \<longleftrightarrow>
    nonce acc < tx_nonce tx \<and> unat (tx_nonce tx) \<le> unat (nonce acc) + 64 \<and>
    sat_add (tx_amount tx) (tx_fee tx) \<le> balance acc \<and>
    (tx_type tx = RegisterValidator \<longrightarrow> \<not> is_validator acc \<and> 1000000 \<le> tx_amount tx) \<and>
    (tx_type tx = Unstake \<longrightarrow> is_validator acc \<and> tx_amount tx \<le> staked_amount acc)"
proof -
  have ck: "add_ck (prof E) (nonce acc) 64 = Some (nonce acc + 64)"
    using assms by (intro add_ck_small) simp
  have "unat (nonce acc + 64) = unat (nonce acc) + 64"
    using assms unat_plus_small [of "nonce acc" 64] by simp
  then show ?thesis
    by (cases "tx_type tx") (auto simp: validate_stateful_def ck Let_def word_less_nat_alt word_le_nat_alt)
qed

lemma sat_add_le_iff:
  assumes "b \<noteq> - 1"
  shows "sat_add a f \<le> (b :: u64) \<longleftrightarrow> unat a + unat f \<le> unat b"
proof -
  have "unat b \<noteq> 2 ^ 64 - 1"
    using assms by (auto simp: word_unat_eq_iff unsigned_minus_1_eq_mask mask_eq_exp_minus_1)
  then show ?thesis
    using unat_bound [of b] by (auto simp: word_le_nat_alt unat_sat_add)
qed

section \<open>Properties\<close>

text \<open>
  C11: every pool that additions, evictions and commits can produce, whatever the lock policy
  and wherever additions fail, keeps its three indexes and its byte count in agreement,
  holds only transactions that passed the first stage, at most one for each sender and
  nonce, and stays within the configured count and size.
\<close>
theorem mempool_reachable:
  assumes "pool_reach E C config mp"
  shows "mp_inv E mp \<and> length (by_hash mp) \<le> max_transactions (mp_config mp) \<and>
    pool_size (by_hash mp) \<le> max_bytes (mp_config mp) \<and>
    (\<forall>t u. t \<in> snd ` set (by_hash mp) \<longrightarrow> u \<in> snd ` set (by_hash mp) \<longrightarrow>
       tx_sender t = tx_sender u \<longrightarrow> tx_nonce t = tx_nonce u \<longrightarrow> t = u)"
proof -
  have inv: "mp_inv E mp" "mp_limits mp" using pool_reach_inv [OF assms] by blast+
  have "sender_lookup mp (tx_sender t) (tx_nonce t) = Some t" if "t \<in> snd ` set (by_hash mp)" for t
    using that mp_invD(4,6) [OF inv(1)] by fastforce
  then have "t = u" if "t \<in> snd ` set (by_hash mp)" "u \<in> snd ` set (by_hash mp)"
    "tx_sender t = tx_sender u" "tx_nonce t = tx_nonce u" for t u
    using that by (metis option.inject)
  with inv show ?thesis by (auto simp: mp_limits_def mp_invD(7))
qed

text \<open>
  C12: an accepted transaction passed both stages and is in the pool under its hash; what the
  pool lost for it is the transaction it replaces (same sender and nonce, at least the
  configured bump below its fee) or has a lower fee density than it; nothing else was added.
\<close>
theorem mempool_accept:
  assumes "pool_reach E C config mp" and "add_transaction E C db tx mp = Ret (Inr h) mp'"
  shows "h = tx_hash E tx \<and> get_transaction h mp' = Some tx \<and> validate_stateless E tx = Inr () \<and>
    validate_stateful E tx (get_account C db (tx_sender tx)) = Some (Inr ()) \<and>
    set (by_hash mp') \<subseteq> insert (h, tx) (set (by_hash mp)) \<and>
    (\<forall>p \<in> set (by_hash mp) - set (by_hash mp').
       fee_per_byte (snd p) < fee_per_byte tx \<or>
       tx_sender (snd p) = tx_sender tx \<and> tx_nonce (snd p) = tx_nonce tx \<and>
       (\<exists>bump min_fee. mul_ck (prof E) (tx_fee (snd p)) (ucast (min_rbf_bump_percent (mp_config mp))) = Some bump \<and>
          add_ck (prof E) (tx_fee (snd p)) (bump div 100) = Some min_fee \<and> min_fee \<le> tx_fee tx))"
proof (cases rule: add_transaction_InrD [OF assms(2)])
  case (1 mp1 mp2)
  have inv: "mp_inv E mp" using pool_reach_inv [OF assms(1)] by blast
  note k = rbf_check_keeps [OF inv 1(5)]
  note m = make_room_Ret [OF k(1) 1(6)]
  have sub: "set (by_hash mp2) \<subseteq> set (by_hash mp)" using m(2) k(4) by (auto simp: evicts_for_def)
  then have "hm_get (by_hash mp2) h = None"
    using 1(3) mp_inv_get [OF inv] mp_inv_get [OF m(1)] by (metis not_None_eq subsetD)
  then have new: "by_hash mp' = by_hash mp2 @ [(h, tx)]" by (simp add: 1(7) hm_insert_fresh)
  have lost: "fee_per_byte (snd p) < fee_per_byte tx \<or>
      sender_lookup mp (tx_sender tx) (tx_nonce tx) = Some (snd p)"
    if "p \<in> set (by_hash mp) - set (by_hash mp')" for p
    using that m(2) k(5) [of p] by (cases "p \<in> set (by_hash mp1)") (auto simp: new evicts_for_def)
  have rule: "tx_sender t = tx_sender tx \<and> tx_nonce t = tx_nonce tx \<and>
      (\<exists>bump min_fee. mul_ck (prof E) (tx_fee t) (ucast (min_rbf_bump_percent (mp_config mp))) = Some bump \<and>
          add_ck (prof E) (tx_fee t) (bump div 100) = Some min_fee \<and> min_fee \<le> tx_fee tx)"
    if old: "sender_lookup mp (tx_sender tx) (tx_nonce tx) = Some t" for t
  proof -
    obtain bump min_fee where
      "mul_ck (prof E) (tx_fee t) (ucast (min_rbf_bump_percent (mp_config mp))) = Some bump"
      "add_ck (prof E) (tx_fee t) (bump div 100) = Some min_fee" "min_fee \<le> tx_fee tx"
      using rbf_check_replaces [OF inv 1(5) old] by blast
    moreover have "tx_sender t = tx_sender tx \<and> tx_nonce t = tx_nonce tx"
      using mp_invD(6) [OF inv, of "tx_sender tx" "tx_nonce tx" t] old by simp
    ultimately show ?thesis by blast
  qed
  have "get_transaction h mp' = Some tx"
    by (simp add: get_transaction_def 1(7) hm_get_insert)
  moreover have "set (by_hash mp') \<subseteq> insert (h, tx) (set (by_hash mp))" using sub by (auto simp: new)
  moreover note 1(1,2,4)
  moreover have "fee_per_byte (snd p) < fee_per_byte tx \<or>
      tx_sender (snd p) = tx_sender tx \<and> tx_nonce (snd p) = tx_nonce tx \<and>
       (\<exists>bump min_fee. mul_ck (prof E) (tx_fee (snd p)) (ucast (min_rbf_bump_percent (mp_config mp))) = Some bump \<and>
          add_ck (prof E) (tx_fee (snd p)) (bump div 100) = Some min_fee \<and> min_fee \<le> tx_fee tx)"
    if "p \<in> set (by_hash mp) - set (by_hash mp')" for p
    using lost [OF that] by (rule disj_forward) (assumption, erule rule)
  ultimately show ?thesis by (intro conjI ballI)
qed

lemma validate_stateful_Release: "prof E = Release \<Longrightarrow> validate_stateful E tx acc \<noteq> None"
  by (simp add: validate_stateful_def add_ck_def Let_def split: transaction_type.split)

text \<open>
  How an operation on the pool may end: it never loops, panics only in a debug build, and waits
  for ever only where the lock does not grant a reader the write guard.
\<close>

definition ends_well :: "env \<Rightarrow> (mempool \<Rightarrow> bool) \<Rightarrow> ('a, mempool) outcome \<Rightarrow> bool" where
  "ends_well E Q out \<longleftrightarrow>
     (case out of Ret r mp \<Rightarrow> Q mp | Panic mp \<Rightarrow> prof E = Debug
      | Blocked mp \<Rightarrow> \<not> locks E [ReadGuard] WriteGuard | Spin \<Rightarrow> False)"

lemma ends_well_simps [simp]:
  "ends_well E Q (Ret r mp) = Q mp" "ends_well E Q (Panic mp) = (prof E = Debug)"
  "ends_well E Q (Blocked mp) = (\<not> locks E [ReadGuard] WriteGuard)" "\<not> ends_well E Q Spin"
  by (simp_all add: ends_well_def)

lemma ends_well_andThen:
  "ends_well E P m \<Longrightarrow> (\<And>r mp. m = Ret r mp \<Longrightarrow> ends_well E Q (f r mp)) \<Longrightarrow> ends_well E Q (andThen m f)"
  by (cases m) simp_all

lemma rbf_check_ends: "ends_well E (\<lambda>_. True) (rbf_check E tx mp)"
proof (cases "prof E")
  case Release
  then show ?thesis
    by (simp add: rbf_check_def Let_def mul_ck_def add_ck_Release release_bytes_def split: option.split)
next
  case Debug
  then show ?thesis
    by (simp add: rbf_check_def Let_def or_panic_def release_bytes_def split: option.split)
qed

lemma make_room_ends: "mp_inv E mp \<Longrightarrow> ends_well E (\<lambda>_. True) (make_room E tx sz mp)"
proof -
  assume "mp_inv E mp"
  from make_room_loop_result [OF this, of tx sz] obtain out where "make_room_loop E tx sz mp = Some out"
    "case out of Ret r mp' \<Rightarrow> mp_inv E mp' \<and> evicts_for tx mp mp' \<and>
        (if over_capacity sz mp' then r = Inl PoolFull else r = Inr ())
     | Blocked mp' \<Rightarrow> \<not> locks E [ReadGuard] WriteGuard | _ \<Rightarrow> False" by blast
  then show ?thesis by (cases out) (simp_all add: make_room_def)
qed

text \<open>Where the lock does not grant the upgrade, what returns has dropped nothing.\<close>

lemma make_room_locked:
  assumes "mp_inv E mp" and "\<not> locks E [ReadGuard] WriteGuard" and "make_room E tx sz mp = Ret r mp'"
  shows "mp' = mp"
proof (cases "priority_index mp")
  case Nil
  with assms(3) show ?thesis by (auto simp: make_room_def make_room_loop.simps [of E tx sz mp] split: if_splits)
next
  case (Cons key rest)
  then obtain h t where ht: "(h, t) \<in> set (by_hash mp)" "key = priority_key_of h t"
    using mp_invD(5) [OF assms(1)] by (force intro: that)
  then have "hm_get (by_hash mp) (key_tx_hash key) = Some t"
    by (simp add: mp_inv_get [OF assms(1)] priority_key_of_def)
  with assms(2,3) Cons show ?thesis
    by (auto simp: make_room_def make_room_loop.simps [of E tx sz mp] evict_transaction_eq split: if_splits)
qed

lemma add_transaction_locked:
  assumes inv: "mp_inv E mp" and lock: "\<not> locks E [ReadGuard] WriteGuard"
    and run: "add_transaction E C db tx mp = Ret r mp'"
  shows "set (by_hash mp) \<subseteq> set (by_hash mp')"
proof -
  have rbf: "mp1 = touch_sender (tx_sender tx) mp" if "rbf_check E tx mp = Ret q mp1" for q mp1
    using rbf_check_Ret [OF inv that] lock by (auto split: option.splits if_splits)
  have room: "mp2 = touch_sender (tx_sender tx) mp"
    if "rbf_check E tx mp = Ret q mp1" "make_room E tx (size_bytes tx) mp1 = Ret q' mp2" for q q' mp1 mp2
    using make_room_locked [OF rbf_check_keeps(1) [OF inv that(1)] lock that(2)] rbf [OF that(1)] by simp
  show ?thesis
  proof (cases r)
    case (Inl e)
    from run [unfolded Inl] show ?thesis
      by (cases rule: add_transaction_InlD) (auto dest: rbf room)
  next
    case (Inr h)
    from run [unfolded Inr] obtain mp1 mp2 where m: "hm_get (by_hash mp) h = None"
      "rbf_check E tx mp = Ret (Inr ()) mp1" "make_room E tx (size_bytes tx) mp1 = Ret (Inr ()) mp2"
      "mp' = insert_transaction h tx (size_bytes tx) mp2" by (rule add_transaction_InrD)
    have "mp2 = touch_sender (tx_sender tx) mp" by (rule room [OF m(2,3)])
    then show ?thesis using hm_insert_fresh [OF m(1), of tx] by (auto simp: m(4))
  qed
qed

text \<open>
  C35: on a reachable pool the loop that makes room never spins: an addition returns, or
  panics (in a debug build only), or waits for ever (only where the lock does not grant a
  reader the write guard, as the documented one does not). Under such a lock an addition
  that returns has dropped no transaction: replacing and evicting never return.
\<close>
theorem mempool_add_returns:
  assumes "pool_reach E C config mp"
  shows "case add_transaction E C db tx mp of
      Ret r mp' \<Rightarrow> locks E [ReadGuard] WriteGuard \<or> set (by_hash mp) \<subseteq> set (by_hash mp')
    | Panic mp' \<Rightarrow> prof E = Debug
    | Blocked mp' \<Rightarrow> \<not> locks E [ReadGuard] WriteGuard
    | Spin \<Rightarrow> False"
proof -
  have inv: "mp_inv E mp" using pool_reach_inv [OF assms] by blast
  have "prof E = Debug" if "validate_stateful E tx acc = None" for acc
    using validate_stateful_Release [of E tx acc] that by (cases "prof E") auto
  then have "ends_well E (\<lambda>_. True) (add_transaction E C db tx mp)"
    unfolding add_transaction_def Let_def or_panic_def
    by (auto split: sum.split option.split
        intro!: ends_well_andThen [OF rbf_check_ends] ends_well_andThen [OF make_room_ends] rbf_check_keeps(1) [OF inv])
  then show ?thesis
    using add_transaction_locked [OF inv, of C db tx]
    by (cases "add_transaction E C db tx mp") auto
qed

text \<open>
  With the lock the crate documents, evicting or committing any transaction the pool
  holds never returns: the statement that lowers the byte count asks for the write guard
  while its own read guard is alive. Only blocks that share nothing with the pool commit.
\<close>

lemma evict_deadlock:
  assumes "exclusive_writes (locks E)"
  shows "\<exists>mp'. evict_transaction E h mp = (if get_transaction h mp = None then Ret None mp else Blocked mp')"
  using assms by (auto simp: exclusive_writes_def evict_transaction_eq get_transaction_def split: option.split)

lemma remove_committed_deadlock:
  assumes "exclusive_writes (locks E)"
  shows "\<exists>mp'. remove_committed E txs mp =
    (if list_all (\<lambda>tx. get_transaction (tx_hash E tx) mp = None) txs then Ret () mp else Blocked mp')"
proof (induction txs)
  case (Cons tx txs)
  then show ?case
    using evict_deadlock [OF assms, of "tx_hash E tx" mp] by (cases "get_transaction (tx_hash E tx) mp") auto
qed simp

theorem mempool_self_deadlock:
  assumes "exclusive_writes (locks E)"
  shows "(\<exists>mp'. evict_transaction E h mp = (if get_transaction h mp = None then Ret None mp else Blocked mp')) \<and>
    (\<exists>mp'. remove_committed E txs mp =
       (if list_all (\<lambda>tx. get_transaction (tx_hash E tx) mp = None) txs then Ret () mp else Blocked mp'))"
  using evict_deadlock [OF assms] remove_committed_deadlock [OF assms] by blast

text \<open>
  C13: what a reachable pool yields for a block fits the byte limit, holds distinct pooled
  transactions that pass the first stage in strictly descending priority, and is greedy: a
  pooled transaction is left out only when it would not have fitted.
\<close>
theorem harvest_correct:
  assumes "pool_reach E C config mp"
  shows "sum_list (map size_bytes (harvest limit mp)) \<le> limit \<and>
    sorted_wrt (\<lambda>t u. priority_key_of (tx_hash E u) u < priority_key_of (tx_hash E t) t) (harvest limit mp) \<and>
    (\<forall>tx \<in> set (harvest limit mp). validate_stateless E tx = Inr () \<and>
       get_transaction (tx_hash E tx) mp = Some tx) \<and>
    (\<forall>h tx. get_transaction h mp = Some tx \<longrightarrow> tx \<notin> set (harvest limit mp) \<longrightarrow>
       limit < sum_list (map size_bytes (harvest limit mp)) + size_bytes tx)"
proof -
  have inv: "mp_inv E mp" using pool_reach_inv [OF assms] by blast
  have greedy: "limit < size_sum (harvest limit mp) + size_bytes tx"
    if "get_transaction h mp = Some tx" "tx \<notin> set (harvest limit mp)" for h tx
  proof -
    have "(h, tx) \<in> set (by_hash mp)" using that(1) mp_inv_get [OF inv] by (simp add: get_transaction_def)
    then have "priority_key_of h tx \<in> set (rev (priority_index mp))"
      by (force simp: mp_invD(5) [OF inv])
    from harvest_loop_greedy [OF this, of mp tx limit 0] that show ?thesis
      by (simp add: harvest_def get_transaction_def priority_key_of_def)
  qed
  show ?thesis
    using harvest_loop_size [of 0 limit mp "rev (priority_index mp)"] harvest_sorted [OF inv, of limit]
      harvest_valid [OF inv] greedy
    by (simp add: harvest_def size_sum_def entry_key_def)
qed

text \<open>
  Away from the top of the nonce range the second stage accepts exactly the transactions
  whose nonce is one of the next 64, whose amount and fee the balance covers, and which meet
  the stake rules of their type.
\<close>
theorem validate_stateful_exact:
  assumes "unat (nonce acc) + 64 < 2 ^ 64" and "balance acc \<noteq> - 1"
  shows "validate_stateful E tx acc = Some (Inr ()) \<longleftrightarrow>
    unat (tx_nonce tx) \<in> {unat (nonce acc) + 1 .. unat (nonce acc) + 64} \<and>
    unat (tx_amount tx) + unat (tx_fee tx) \<le> unat (balance acc) \<and>
    (tx_type tx = RegisterValidator \<longrightarrow> \<not> is_validator acc \<and> 1000000 \<le> tx_amount tx) \<and>
    (tx_type tx = Unstake \<longrightarrow> is_validator acc \<and> tx_amount tx \<le> staked_amount acc)"
  using validate_stateful_accepts [OF assms(1)] sat_add_le_iff [OF assms(2)]
  by (auto simp: word_less_nat_alt)

text \<open>
  A replacement that is then refused for lack of room has already thrown out the
  transaction it wanted to replace: the sender loses both.
\<close>
theorem rbf_refused_loses_both:
  assumes "pool_reach E C config mp" and "(tx_hash E old, old) \<in> set (by_hash mp)"
    and "tx_sender old = tx_sender tx" and "tx_nonce old = tx_nonce tx"
    and "add_transaction E C db tx mp = Ret (Inl PoolFull) mp'"
  shows "get_transaction (tx_hash E old) mp' = None \<and> get_transaction (tx_hash E tx) mp' \<noteq> Some tx"
proof -
  have inv: "mp_inv E mp" using pool_reach_inv [OF assms(1)] by blast
  have old: "sender_lookup mp (tx_sender tx) (tx_nonce tx) = Some old"
    using mp_invD(6) [OF inv] assms(2-4) by simp
  have gone: "get_transaction (tx_hash E t) mp' \<noteq> Some t"
    if "tx_sender t = tx_sender tx" "tx_nonce t = tx_nonce tx" for t
    using assms(5)
  proof (cases rule: add_transaction_InlD)
    case 2
    with rbf_check_Ret [OF inv this] old show ?thesis by (auto split: if_splits)
  next
    case (3 mp1)
    note k = rbf_check_keeps [OF inv 3(1)]
    note m = make_room_Ret [OF k(1) 3(2)]
    have "(tx_hash E t, t) \<notin> set (by_hash mp1)"
      using k(6) mp_invD(6) [OF k(1), of "tx_sender tx" "tx_nonce tx" t] that by simp
    with m show ?thesis
      by (auto simp: evicts_for_def get_transaction_def mp_inv_get)
  qed simp
  have "set (by_hash mp') \<subseteq> set (by_hash mp) \<and> mp_inv E mp'"
    using assms(5)
  proof (cases rule: add_transaction_InlD)
    case 2
    with rbf_check_Ret [OF inv this] old show ?thesis by (auto split: if_splits)
  next
    case (3 mp1)
    note k = rbf_check_keeps [OF inv 3(1)]
    from make_room_Ret [OF k(1) 3(2)] k(4) show ?thesis by (auto simp: evicts_for_def)
  qed simp
  then have "get_transaction (tx_hash E old) mp' \<noteq> Some t" for t
    using gone [OF assms(3,4)] hm_same_key [OF mp_invD(1) [OF inv] assms(2), of t]
    by (auto simp: get_transaction_def mp_inv_get)
  then have "get_transaction (tx_hash E old) mp' = None" by auto
  with gone [of tx] show ?thesis by simp
qed

section \<open>Examples\<close>

text \<open>An environment whose signatures carry the fee, so that fees tell hashes apart.\<close>

definition fee_env :: env where
  "fee_env = toy_env\<lparr>locks := reentrant,
     verify_strict := (\<lambda>pk m s. s = of_be_bytes (take 8 (drop 48 m))),
     ed_sign := (\<lambda>sk m. of_be_bytes (take 8 (drop 48 m)))\<rparr>"

definition priced_tx :: "u64 \<Rightarrow> u64 \<Rightarrow> u64 \<Rightarrow> bytes \<Rightarrow> transaction" where
  "priced_tx amount fee n payload =
     (tx_new_unsigned (address_from_pubkey fee_env (PublicKey 7)) (Address 9) amount fee n Transfer
        payload (PublicKey 7))\<lparr>tx_signature := Signature (ucast fee)\<rparr>"

lemma priced_tx_simps [simp]:
  "tx_sender (priced_tx a f n p) = address_from_pubkey fee_env (PublicKey 7)"
  "tx_amount (priced_tx a f n p) = a" "tx_fee (priced_tx a f n p) = f"
  "tx_nonce (priced_tx a f n p) = n" "tx_type (priced_tx a f n p) = Transfer"
  "tx_payload (priced_tx a f n p) = p" "tx_pubkey (priced_tx a f n p) = PublicKey 7"
  "tx_signature (priced_tx a f n p) = Signature (ucast f)"
  "size_bytes (priced_tx a f n p) = 165 + length p"
  by (simp_all add: priced_tx_def tx_new_unsigned_def size_bytes_def)

lemma be_nat_append: "be_nat (xs @ ys) = be_nat xs * 256 ^ length ys + be_nat ys"
  by (induction ys rule: rev_induct) (simp_all add: be_nat_def be_nat_from_append algebra_simps)

lemma of_be_bytes_tail_512: "(of_be_bytes (xs @ be_bytes 64 (s :: 512 word)) :: 256 word) = ucast s"
proof -
  have "be_nat (be_bytes 64 s) = unat s"
    using unat_bound [of s] by (simp add: be_bytes_def be_nat_nat_be)
  moreover have "(of_nat (256 ^ 64) :: 256 word) = 0" by (simp add: of_nat_power)
  ultimately show ?thesis
    by (simp only: of_be_bytes_def be_nat_append length_be_bytes of_nat_add of_nat_mult
        mult_zero_right add_0) (simp add: unsigned_of_nat)
qed

lemma ucast_via_512: "(ucast (ucast (f :: u64) :: 512 word) :: 256 word) = ucast f"
  by (auto simp: bit_eq_iff bit_unsigned_iff dest: bit_imp_le_length)

lemma tx_hash_priced [simp]: "tx_hash fee_env (priced_tx a f n p) = Hash (ucast f)"
  using of_be_bytes_tail_512 [of "le_len DOMAIN_TX @ DOMAIN_TX @ tx_signing_bytes (priced_tx a f n p)" "ucast f"]
  by (simp add: tx_hash_def hash_with_domain_def domain_preimage_def fee_env_def sig_bytes_def
      ucast_via_512)

lemma signed_fee: "take 8 (drop 48 (tx_signing_bytes (priced_tx a f n p))) = be_bytes 8 f"
  by (simp add: tx_signing_bytes_def)

lemma of_be_bytes_u64_512: "(of_be_bytes (be_bytes 8 (f :: u64)) :: 512 word) = ucast f"
proof -
  have "be_nat (be_bytes 8 f) = unat f"
    using unat_bound [of f] by (simp add: be_bytes_def be_nat_nat_be)
  then show ?thesis by (simp add: of_be_bytes_def)
qed

lemma validate_priced [simp]:
  assumes "100 \<le> f" and "a \<noteq> 0" and "length p \<le> 1000"
  shows "validate_stateless fee_env (priced_tx a f n p) = Inr ()"
proof -
  have "tx_verify fee_env (priced_tx a f n p) = Inr ()"
    unfolding tx_verify_Inr using signed_fee [of a f n p] of_be_bytes_u64_512 [of f]
    by (simp add: fee_env_def)
  with assms show ?thesis
    by (simp add: validate_stateless_def Let_def MAX_TRANSACTION_SIZE_def MIN_TRANSACTION_FEE_def)
qed

definition fee_codec :: codec where
  "fee_codec = toy_codec (sample_block [])"

definition fee_db :: state_db where
  "fee_db = snd (commit_block fee_env fee_codec (sample_block [])
     [(address_from_pubkey fee_env (PublicKey 7), account_new 100000 0)] memory_db)"

lemma get_account_fee_db [simp]:
  "get_account fee_codec fee_db (address_from_pubkey fee_env (PublicKey 7)) = account_new 100000 0"
  using account_codec_laws_toy [of "sample_block []"]
  by (simp add: fee_db_def commit_block_write_all fee_codec_def get_account_write_all
      account_codec_laws_def)

definition tiny_config :: mempool_config where
  "tiny_config = \<lparr>max_transactions = 2, max_bytes = 170, min_rbf_bump_percent = 10\<rparr>"

definition tiny_pool :: mempool where
  "tiny_pool = insert_transaction (Hash 200) (priced_tx 5 200 1 []) 165
     (touch_sender (address_from_pubkey fee_env (PublicKey 7)) (mempool_new tiny_config))"

lemma add_to_tiny:
  "add_transaction fee_env fee_codec fee_db (priced_tx 5 200 1 []) (mempool_new tiny_config) =
     Ret (Inr (Hash 200)) tiny_pool"
proof -
  have "prof fee_env = Debug" by (simp add: fee_env_def)
  then have "validate_stateful fee_env (priced_tx 5 200 1 []) (account_new 100000 0) = Some (Inr ())"
    by (simp add: validate_stateful_def account_new_def add_ck_def sat_add_def)
  moreover have "rbf_check fee_env (priced_tx 5 200 1 []) (mempool_new tiny_config) =
      Ret (Inr ()) (touch_sender (address_from_pubkey fee_env (PublicKey 7)) (mempool_new tiny_config))"
    by (simp add: rbf_check_def mempool_new_def touch_sender_def)
  moreover have "make_room fee_env (priced_tx 5 200 1 []) 165
      (touch_sender (address_from_pubkey fee_env (PublicKey 7)) (mempool_new tiny_config)) = Ret (Inr ())
      (touch_sender (address_from_pubkey fee_env (PublicKey 7)) (mempool_new tiny_config))"
    by (simp add: make_room_def make_room_loop.simps over_capacity_def tiny_config_def mempool_new_def)
  ultimately show ?thesis
    by (simp add: add_transaction_def tiny_pool_def Let_def) (simp add: mempool_new_def)
qed

lemma pool_reach_tiny: "pool_reach fee_env fee_codec tiny_config tiny_pool"
  using pool_add [OF pool_new add_to_tiny] .

lemma by_hash_tiny [simp]: "by_hash tiny_pool = [(Hash 200, priced_tx 5 200 1 [])]"
  by (simp add: tiny_pool_def mempool_new_def hm_insert_def)

theorem mempool_reachable_witness:
  "pool_size (by_hash tiny_pool) \<le> max_bytes (mp_config tiny_pool) \<and> mp_inv fee_env tiny_pool"
  using mempool_reachable [OF pool_reach_tiny] by blast

theorem mempool_accept_witness:
  "\<exists>mp'. add_transaction fee_env fee_codec fee_db (priced_tx 5 200 1 []) (mempool_new tiny_config) =
     Ret (Inr (Hash 200)) mp' \<and> get_transaction (Hash 200) mp' = Some (priced_tx 5 200 1 [])"
  using mempool_accept [OF pool_new add_to_tiny] add_to_tiny by blast

text \<open>A transaction that pushes the one pooled out, when the lock lets it.\<close>

abbreviation pushing :: transaction where
  "pushing \<equiv> priced_tx 5 1000 2 []"

lemma pushing_accepted:
  "\<exists>mp'. add_transaction fee_env fee_codec fee_db pushing tiny_pool = Ret (Inr (Hash 1000)) mp' \<and>
     get_transaction (Hash 200) mp' = None"
proof -
  let ?a = "address_from_pubkey fee_env (PublicKey 7)"
  let ?mp = "touch_sender ?a tiny_pool" and ?t = "priced_tx 5 200 1 []"
  let ?d = "drop_entry (Hash 200) ?t ?mp"
  have env: "prof fee_env = Debug" "locks fee_env = reentrant" by (simp_all add: fee_env_def)
  have p: "priority_index tiny_pool = [priority_key_of (Hash 200) ?t]" and b: "by_hash ?mp = [(Hash 200, ?t)]"
    and cfg: "mp_config ?mp = tiny_config" and total: "total_bytes ?mp = 165"
    by (simp_all add: tiny_pool_def mempool_new_def hm_insert_def)
  have ev: "evict_transaction fee_env (Hash 200) ?mp = Ret (Some ?t) ?d"
    by (simp add: evict_transaction_eq b hm_get_def env)
  have over: "over_capacity 165 ?mp" "\<not> over_capacity 165 ?d"
    using cfg total by (simp_all add: over_capacity_def tiny_config_def hm_remove_def)
  have "fee_per_byte ?t < fee_per_byte pushing" by (simp add: fee_per_byte_def Let_def word_less_nat_alt)
  then have "make_room_loop fee_env pushing 165 ?mp = make_room_loop fee_env pushing 165 ?d"
    using ev over(1) by (subst make_room_loop.simps) (simp add: p priority_key_of_def not_le [symmetric])
  also have "\<dots> = Some (Ret (Inr ()) ?d)" using over(2) by (subst make_room_loop.simps) simp
  finally have room: "make_room fee_env pushing 165 ?mp = Ret (Inr ()) ?d" by (simp add: make_room_def)
  have "sender_lookup tiny_pool ?a 2 = None"
  proof (cases "sender_lookup tiny_pool ?a 2")
    case (Some t)
    with mp_invD(6) [of fee_env tiny_pool ?a 2 t] pool_reach_inv [OF pool_reach_tiny]
    have "t = ?t \<and> tx_nonce t = 2" by auto
    then show ?thesis by auto
  qed simp
  then have "rbf_check fee_env pushing tiny_pool = Ret (Inr ()) ?mp"
    by (simp add: rbf_check_def Let_def touch_sender_def sender_lookup_def split: option.splits)
  moreover have "validate_stateful fee_env pushing (account_new 100000 0) = Some (Inr ())"
    using env by (simp add: validate_stateful_def account_new_def add_ck_def sat_add_def)
  ultimately show ?thesis
    using room by (simp add: add_transaction_def Let_def hm_get_def get_transaction_def hm_insert_def hm_remove_def)
qed

theorem mempool_add_returns_witness:
  "\<exists>mp'. add_transaction fee_env fee_codec fee_db pushing tiny_pool = Ret (Inr (Hash 1000)) mp' \<and>
     get_transaction (Hash 200) mp' = None \<and> (locks fee_env [ReadGuard] WriteGuard \<or> set (by_hash tiny_pool) \<subseteq> set (by_hash mp'))"
proof -
  obtain mp' where run: "add_transaction fee_env fee_codec fee_db pushing tiny_pool = Ret (Inr (Hash 1000)) mp'"
    "get_transaction (Hash 200) mp' = None" using pushing_accepted by blast
  with mempool_add_returns [OF pool_reach_tiny, of fee_db pushing] show ?thesis by simp
qed

theorem mempool_self_deadlock_witness:
  "\<exists>mp'. evict_transaction toy_env (Hash 200) tiny_pool = Blocked mp'"
  using mempool_self_deadlock [of toy_env "Hash 200" tiny_pool] exclusive_writes_rwlock
  by (auto simp: get_transaction_def hm_get_def)

theorem harvest_correct_witness:
  "harvest 165 tiny_pool = [priced_tx 5 200 1 []] \<and> sum_list (map size_bytes (harvest 165 tiny_pool)) \<le> 165"
proof -
  have "priority_index tiny_pool = [priority_key_of (Hash 200) (priced_tx 5 200 1 [])]"
    by (simp add: tiny_pool_def mempool_new_def)
  then have "harvest 165 tiny_pool = [priced_tx 5 200 1 []]"
    by (simp add: harvest_def priority_key_of_def hm_get_def)
  with harvest_correct [OF pool_reach_tiny, of 165] show ?thesis by blast
qed

theorem validate_stateful_exact_witness:
  "validate_stateful fee_env (priced_tx 5 200 64 []) (account_new 205 0) = Some (Inr ())"
  using validate_stateful_exact [of "account_new 205 0" fee_env "priced_tx 5 200 64 []"]
  by (simp add: account_new_def)

lemma replace_in_tiny:
  "\<exists>mp'. add_transaction fee_env fee_codec fee_db (priced_tx 5 300 1 [0,0,0,0,0,0,0,0,0]) tiny_pool =
     Ret (Inl PoolFull) mp'"
proof -
  let ?tx = "priced_tx 5 300 1 [0,0,0,0,0,0,0,0,0]" and ?a = "address_from_pubkey fee_env (PublicKey 7)"
  let ?mp = "drop_entry (Hash 200) (priced_tx 5 200 1 []) (touch_sender ?a tiny_pool)"
  have env: "prof fee_env = Debug" "locks fee_env = reentrant" by (simp_all add: fee_env_def)
  have cfg: "mp_config tiny_pool = tiny_config"
    by (simp add: tiny_pool_def mempool_new_def)
  have inv: "mp_inv fee_env tiny_pool" using pool_reach_inv [OF pool_reach_tiny] by blast
  have look: "sender_lookup tiny_pool ?a 1 = Some (priced_tx 5 200 1 [])"
    using mp_invD(6) [OF inv, of ?a 1 "priced_tx 5 200 1 []"] by simp
  have "validate_stateful fee_env ?tx (account_new 100000 0) = Some (Inr ())"
    using env by (simp add: validate_stateful_def account_new_def add_ck_def sat_add_def)
  moreover have "by_sender tiny_pool = [(?a, [(1, priced_tx 5 200 1 [])])]"
    by (simp add: tiny_pool_def insert_transaction_def touch_sender_def mempool_new_def Let_def
        hm_get_def hm_insert_def)
  then have "\<exists>r mp'. rbf_check fee_env ?tx tiny_pool = Ret r mp'"
    using env by (simp add: rbf_check_def Let_def cfg tiny_config_def mul_ck_def add_ck_def
        release_bytes_def hm_get_def om_get_def)
  then have "rbf_check fee_env ?tx tiny_pool = Ret (Inr ()) ?mp"
    using rbf_check_Ret [OF inv, of ?tx] look env
    by (auto simp: cfg tiny_config_def mul_ck_def add_ck_def)
  moreover have "priority_index ?mp = []"
    by (simp add: tiny_pool_def mempool_new_def os_remove_def)
  then have "make_room fee_env ?tx 174 ?mp = Ret (Inl PoolFull) ?mp"
    by (simp add: make_room_def make_room_loop.simps over_capacity_def cfg tiny_config_def)
  ultimately show ?thesis
    by (auto simp: add_transaction_def Let_def hm_get_def)
qed

theorem rbf_refused_loses_both_witness:
  "\<exists>mp'. add_transaction fee_env fee_codec fee_db (priced_tx 5 300 1 [0,0,0,0,0,0,0,0,0]) tiny_pool =
     Ret (Inl PoolFull) mp' \<and> get_transaction (Hash 200) mp' = None"
proof -
  obtain mp' where add: "add_transaction fee_env fee_codec fee_db
      (priced_tx 5 300 1 [0,0,0,0,0,0,0,0,0]) tiny_pool = Ret (Inl PoolFull) mp'"
    using replace_in_tiny by blast
  from rbf_refused_loses_both [OF pool_reach_tiny _ _ _ add, of "priced_tx 5 200 1 []"] add
  show ?thesis by simp
qed

end
