(* ===== verification/Consensus.thy ===== *)
theory Consensus
  imports Execution Mempool
begin

text \<open>
  \<open>aura-consensus\<close>, the parts without state: the validator set as the engine reads it
  (\<open>types.rs\<close>), the stake-weighted choice of a proposer (\<open>proposer.rs\<close>), double-sign evidence
  and its penalty (\<open>slashing.rs\<close>). Stake sums are taken over natural numbers; the quorum
  arithmetic of \<open>Block\<close> is interpreted on the members of a validator list.
\<close>

section \<open>Types\<close>

record validator_info =
  vi_address :: address
  vi_pubkey :: public_key
  vi_power :: u64

datatype consensus_step = NewRound | Propose | PreVote | PreCommit | Commit

datatype consensus_error =
    NotProposer u64 u32
  | InvalidProposal
  | StorageC storage_error
  | MempoolC mempool_error

record timeout_message =
  to_height :: u64
  to_round :: u32
  to_validator :: address
  to_pubkey :: public_key
  to_signature :: signature

datatype consensus_message =
    ProposalMsg block
  | PreVoteMsg vote
  | PreCommitMsg vote
  | TimeoutMsg timeout_message

section \<open>Choosing the proposer\<close>

definition DOMAIN_PROPOSER_SEED :: bytes where
  "DOMAIN_PROPOSER_SEED = str_bytes ''AURA_PROPOSER_SEED_v1''"

definition proposer_seed :: "env \<Rightarrow> u64 \<Rightarrow> u32 \<Rightarrow> u64" where
  "proposer_seed E height round =
     of_be_bytes (take 8 (hash_bytes_of
       (hash_with_domain E DOMAIN_PROPOSER_SEED (be_bytes 8 height @ be_bytes 4 round))))"

text \<open>The outer option is the panic of an overflowing sum.\<close>

fun pick_proposer ::
  "profile \<Rightarrow> u64 \<Rightarrow> u64 \<Rightarrow> validator_info list \<Rightarrow> validator_info option \<Rightarrow> validator_info option option" where
  "pick_proposer p target accumulated [] first = Some first"
| "pick_proposer p target accumulated (v # vs) first =
     (case add_ck p accumulated (vi_power v) of
        None \<Rightarrow> None
      | Some acc \<Rightarrow> if acc > target then Some (Some v) else pick_proposer p target acc vs first)"

definition select_proposer ::
  "env \<Rightarrow> u64 \<Rightarrow> u32 \<Rightarrow> validator_info list \<Rightarrow> validator_info option option" where
  "select_proposer E height round vs =
     (if vs = [] then Some None
      else case sum_ck (prof E) (map vi_power vs) of
        None \<Rightarrow> None
      | Some total_power \<Rightarrow>
          if total_power = 0 then Some None
          else pick_proposer (prof E) (proposer_seed E height round mod total_power) 0 vs (Some (hd vs)))"

section \<open>Slashing\<close>

datatype slashing_error =
    InvalidSignatureS primitive_error
  | InvalidEvidenceParams
  | IdenticalVotes
  | ValidatorMismatch

record evidence =
  vote_a :: vote
  vote_b :: vote

definition evidence_verify :: "env \<Rightarrow> evidence \<Rightarrow> slashing_error + address" where
  "evidence_verify E ev =
     (if v_validator (vote_a ev) \<noteq> v_validator (vote_b ev) then Inl ValidatorMismatch
      else if v_height (vote_a ev) \<noteq> v_height (vote_b ev) \<or>
        v_round (vote_a ev) \<noteq> v_round (vote_b ev) \<or> v_type (vote_a ev) \<noteq> v_type (vote_b ev)
      then Inl InvalidEvidenceParams
      else if v_block_hash (vote_a ev) = v_block_hash (vote_b ev) then Inl IdenticalVotes
      else case vote_verify E (vote_a ev) of
        Inl e \<Rightarrow> Inl (InvalidSignatureS e)
      | Inr _ \<Rightarrow>
          (case vote_verify E (vote_b ev) of
             Inl e \<Rightarrow> Inl (InvalidSignatureS e)
           | Inr _ \<Rightarrow> Inr (v_validator (vote_a ev))))"

definition apply_slashing ::
  "env \<Rightarrow> codec \<Rightarrow> state_db \<Rightarrow> evidence \<Rightarrow> overlay \<Rightarrow> (slashing_error + address) \<times> overlay" where
  "apply_slashing E C db ev ov =
     (case evidence_verify E ev of
        Inl e \<Rightarrow> (Inl e, ov)
      | Inr malicious_validator \<Rightarrow>
          let acc = overlay_get C ov db malicious_validator;
              slashed_amount = staked_amount acc div 5;
              acc = acc\<lparr>staked_amount := sat_sub (staked_amount acc) slashed_amount,
                        is_validator := False\<rparr>
          in (Inr malicious_validator, overlay_set malicious_validator acc ov))"
section \<open>Stake\<close>

definition stake_of :: "validator_info list \<Rightarrow> address \<Rightarrow> nat" where
  "stake_of vs a =
     (case List.find (\<lambda>i. vi_address i = a) vs of Some i \<Rightarrow> unat (vi_power i) | None \<Rightarrow> 0)"

definition total_stake :: "validator_info list \<Rightarrow> nat" where
  "total_stake vs = sum_list (map (\<lambda>i. unat (vi_power i)) vs)"

definition members :: "validator_info list \<Rightarrow> address set" where
  "members vs = vi_address ` set vs"

interpretation validator_quorum: quorum_weights "members vs" "stake_of vs" for vs
  by unfold_locales (simp add: members_def)

lemma stake_of_Cons [simp]:
  "stake_of (i # vs) a = (if vi_address i = a then unat (vi_power i) else stake_of vs a)"
  by (simp add: stake_of_def)

lemma stake_of_outside: "a \<notin> members vs \<Longrightarrow> stake_of vs a = 0"
  by (induction vs) (auto simp: members_def stake_of_def)

lemma total_stake_members:
  "distinct (map vi_address vs) \<Longrightarrow> total_stake vs = sum (stake_of vs) (members vs)"
proof (induction vs)
  case Nil
  then show ?case by (simp add: total_stake_def members_def)
next
  case (Cons i vs)
  have "sum (stake_of (i # vs)) (members vs) = sum (stake_of vs) (members vs)"
    using Cons.prems by (intro sum.cong) (auto simp: members_def)
  moreover have "members (i # vs) = insert (vi_address i) (members vs)"
    "vi_address i \<notin> members vs" "finite (members vs)"
    using Cons.prems by (auto simp: members_def)
  ultimately show ?case using Cons by (simp add: total_stake_def)
qed

section \<open>Properties\<close>

lemma pick_proposer_exact:
  "unat acc + total_stake vs < 2 ^ 64 \<Longrightarrow> unat acc \<le> unat target \<Longrightarrow>
     unat target < unat acc + total_stake vs \<Longrightarrow>
     \<exists>i < length vs. pick_proposer p target acc vs first = Some (Some (vs ! i)) \<and>
       unat acc + total_stake (take i vs) \<le> unat target \<and>
       unat target < unat acc + total_stake (take i vs) + unat (vi_power (vs ! i))"
proof (induction vs arbitrary: acc)
  case Nil
  then show ?case by (simp add: total_stake_def)
next
  case (Cons v vs)
  have sum: "total_stake (v # vs) = unat (vi_power v) + total_stake vs" by (simp add: total_stake_def)
  have small: "unat acc + unat (vi_power v) < 2 ^ 64" using Cons.prems(1) sum by simp
  then have acc': "unat (acc + vi_power v) = unat acc + unat (vi_power v)"
    by (intro unat_plus_small) simp
  have ck: "add_ck p acc (vi_power v) = Some (acc + vi_power v)" using small by (intro add_ck_small) simp
  show ?case
  proof (cases "acc + vi_power v > target")
    case True
    with ck acc' Cons.prems(2) show ?thesis
      by (intro exI [of _ 0]) (simp add: total_stake_def word_less_nat_alt)
  next
    case False
    then have "unat (acc + vi_power v) \<le> unat target" by (simp add: word_le_nat_alt not_less)
    with Cons.IH [of "acc + vi_power v"] Cons.prems(1,3) acc' sum obtain i where
      "i < length vs" "pick_proposer p target (acc + vi_power v) vs first = Some (Some (vs ! i))"
      "unat acc + unat (vi_power v) + total_stake (take i vs) \<le> unat target"
      "unat target < unat acc + unat (vi_power v) + total_stake (take i vs) + unat (vi_power (vs ! i))"
      by auto
    with ck False show ?thesis
      by (intro exI [of _ "Suc i"]) (simp add: total_stake_def)
  qed
qed

lemma select_proposer_exists:
  assumes "total_stake vs < 2 ^ 64" and "0 < total_stake vs"
  shows "\<exists>i < length vs. select_proposer E height round vs = Some (Some (vs ! i)) \<and>
    total_stake (take i vs) \<le> unat (proposer_seed E height round) mod total_stake vs \<and>
    unat (proposer_seed E height round) mod total_stake vs <
      total_stake (take i vs) + unat (vi_power (vs ! i))"
proof -
  have "vs \<noteq> []" using assms(2) by (auto simp: total_stake_def)
  obtain w where w: "sum_ck (prof E) (map vi_power vs) = Some w" "unat w = total_stake vs"
    using sum_ck_exact [of "map vi_power vs" "prof E"] assms(1) by (auto simp: total_stake_def comp_def)
  then have "w \<noteq> 0" using assms(2) by auto
  let ?t = "proposer_seed E height round mod w"
  have t: "unat ?t = unat (proposer_seed E height round) mod total_stake vs"
    by (simp add: unat_mod w(2))
  then have "unat ?t < total_stake vs" using assms(2) by simp
  with pick_proposer_exact [of 0 vs ?t "prof E" "Some (hd vs)"] assms(1) obtain i where
    "i < length vs" "pick_proposer (prof E) ?t 0 vs (Some (hd vs)) = Some (Some (vs ! i))"
    "total_stake (take i vs) \<le> unat ?t" "unat ?t < total_stake (take i vs) + unat (vi_power (vs ! i))"
    by auto
  with w(1) \<open>w \<noteq> 0\<close> \<open>vs \<noteq> []\<close> t show ?thesis
    by (intro exI [of _ i]) (simp add: select_proposer_def)
qed

text \<open>
  With a total stake that fits 64 bits and is not zero, the proposer is the validator
  whose interval of the stake line holds the seed of height and round, reduced by the total:
  each validator is chosen on as many residues as it has stake, none without stake ever is.
\<close>
theorem select_proposer_weighted:
  assumes "total_stake vs < 2 ^ 64" and "0 < total_stake vs"
  shows "\<exists>i < length vs. select_proposer E height round vs = Some (Some (vs ! i)) \<and>
    sum_list (map (\<lambda>v. unat (vi_power v)) (take i vs)) \<le> unat (proposer_seed E height round) mod total_stake vs \<and>
    unat (proposer_seed E height round) mod total_stake vs <
      sum_list (map (\<lambda>v. unat (vi_power v)) (take i vs)) + unat (vi_power (vs ! i))"
  using select_proposer_exists [OF assms, of E height round] by (simp add: total_stake_def)

text \<open>
  Evidence is accepted exactly for two verifying votes of one validator for different
  blocks at one height, round and phase; so a validator none of whose votes conflict cannot
  be slashed.
\<close>
theorem evidence_exact:
  shows "(evidence_verify E ev = Inr a \<longleftrightarrow>
      v_validator (vote_a ev) = a \<and> v_validator (vote_b ev) = a \<and>
      v_height (vote_a ev) = v_height (vote_b ev) \<and> v_round (vote_a ev) = v_round (vote_b ev) \<and>
      v_type (vote_a ev) = v_type (vote_b ev) \<and> v_block_hash (vote_a ev) \<noteq> v_block_hash (vote_b ev) \<and>
      vote_verify E (vote_a ev) = Inr () \<and> vote_verify E (vote_b ev) = Inr ()) \<and>
    (case evidence_verify E ev of Inl e \<Rightarrow> apply_slashing E C db ev ov = (Inl e, ov)
       | Inr a \<Rightarrow> fst (apply_slashing E C db ev ov) = Inr a)"
  by (auto simp: evidence_verify_def apply_slashing_def Let_def case_sum_unit_iff split: if_splits sum.splits)

lemma unat_slash: "unat (sat_sub s (s div 5)) = unat (s :: u64) - unat s div 5"
  by (simp add: unat_sat_sub unat_div)

text \<open>
  C37: slashing takes a fifth of the stake, rounded down, unseats the validator and touches
  nothing else. The evidence is not recorded: presenting it again takes a fifth of the rest.
\<close>
theorem slashing_exact:
  assumes "evidence_verify E ev = Inr a"
  shows "let ov1 = snd (apply_slashing E C db ev ov); ov2 = snd (apply_slashing E C db ev ov1);
      acc = overlay_get C ov db a; acc1 = overlay_get C ov1 db a
    in unat (staked_amount acc1) = unat (staked_amount acc) - unat (staked_amount acc) div 5 \<and>
       acc1 = acc\<lparr>staked_amount := staked_amount acc1, is_validator := False\<rparr> \<and>
       (\<forall>b. b \<noteq> a \<longrightarrow> overlay_get C ov1 db b = overlay_get C ov db b) \<and>
       unat (staked_amount (overlay_get C ov2 db a)) =
         unat (staked_amount acc1) - unat (staked_amount acc1) div 5"
  using assms by (simp add: apply_slashing_def Let_def overlay_get_set unat_slash)

section \<open>Examples\<close>

definition sample_validators :: "validator_info list" where
  "sample_validators =
     [\<lparr>vi_address = Address 1, vi_pubkey = PublicKey 1, vi_power = 300\<rparr>,
      \<lparr>vi_address = Address 2, vi_pubkey = PublicKey 2, vi_power = 100\<rparr>]"

theorem select_proposer_weighted_witness:
  "\<exists>i < 2. select_proposer toy_env 5 0 sample_validators = Some (Some (sample_validators ! i))"
proof -
  have "total_stake sample_validators = 400" "length sample_validators = 2"
    by (simp_all add: sample_validators_def total_stake_def)
  with select_proposer_weighted [of sample_validators toy_env 5 0] show ?thesis by auto
qed

definition sample_evidence :: evidence where
  "sample_evidence =
     \<lparr>vote_a = vote_new_signed toy_env (Hash 1) 5 0 PreCommitType (keypair_from_secret_bytes toy_env 7),
      vote_b = vote_new_signed toy_env (Hash 2) 5 0 PreCommitType (keypair_from_secret_bytes toy_env 7)\<rparr>"

lemma sample_evidence_accepted:
  "evidence_verify toy_env sample_evidence = Inr (address_from_pubkey toy_env (PublicKey 7))"
  by (simp add: evidence_verify_def sample_evidence_def vote_new_signed_def vote_verify_def vote_data_def
      Let_def pk_verify_def kp_sign_def keypair_from_secret_bytes_def)

theorem slashing_exact_witness:
  "unat (staked_amount (overlay_get sample_codec (snd (apply_slashing toy_env sample_codec memory_db sample_evidence
      [(address_from_pubkey toy_env (PublicKey 7), account_new 0 0\<lparr>staked_amount := 303\<rparr>)]))
      memory_db (address_from_pubkey toy_env (PublicKey 7)))) = 243"
  using slashing_exact [OF sample_evidence_accepted, of sample_codec memory_db
      "[(address_from_pubkey toy_env (PublicKey 7), account_new 0 0\<lparr>staked_amount := 303\<rparr>)]"]
  by (simp add: Let_def overlay_get_def hm_get_def)

end
