(* ===== verification/Engine.thy ===== *)
theory Engine
  imports Consensus
begin

text \<open>
  \<open>aura-consensus/src/engine.rs\<close>: the consensus engine, its proposal, prevote and precommit
  handlers and what they keep. The engine owns references to the state database and the
  mempool; here they are fields of its state. A handler that asks for a lock it (or its
  caller) already holds asks the policy \<open>locks\<close>.
\<close>

section \<open>The engine\<close>

type_synonym vote_book = "(hash \<times> vote list) list"

record engine =
  en_keypair :: key_pair
  en_address :: address
  en_db :: state_db
  en_pool :: mempool
  en_chain_id :: string
  cur_height :: u64
  cur_round :: u32
  en_step :: consensus_step
  proposed_block :: "block option"
  prevotes :: vote_book
  precommits :: vote_book
  last_qc :: "quorum_certificate option"

text \<open>\<open>None\<close>: \<open>latest_height + 1\<close> overflows in a debug build.\<close>

definition engine_new :: "env \<Rightarrow> key_pair \<Rightarrow> state_db \<Rightarrow> mempool \<Rightarrow> string \<Rightarrow> engine option" where
  "engine_new E kp db mp chain_id =
     map_option (\<lambda>h.
       \<lparr>en_keypair = kp, en_address = address_from_pubkey E (kp_public kp), en_db = db, en_pool = mp,
        en_chain_id = chain_id, cur_height = h, cur_round = 0, en_step = NewRound,
        proposed_block = None, prevotes = [], precommits = [], last_qc = None\<rparr>)
     (add_ck (prof E) (get_latest_height db) 1)"

definition active_validators :: "codec \<Rightarrow> state_db \<Rightarrow> validator_info list" where
  "active_validators C db =
     List.map_filter (\<lambda>(addr, acc).
       map_option (\<lambda>pk. \<lparr>vi_address = addr, vi_pubkey = pk, vi_power = staked_amount acc\<rparr>)
         (validator_pubkey acc)) (get_validators C db)"

definition is_proposer :: "env \<Rightarrow> codec \<Rightarrow> u64 \<Rightarrow> u32 \<Rightarrow> engine \<Rightarrow> bool option" where
  "is_proposer E C height round en =
     map_option (\<lambda>p. case p of Some v \<Rightarrow> vi_address v = en_address en | None \<Rightarrow> False)
       (select_proposer E height round (active_validators C (en_db en)))"

text \<open>\<open>entry(hash).or_default()\<close>, and a push unless this validator is in the list already.\<close>

definition votes_for :: "hash \<Rightarrow> vote_book \<Rightarrow> vote list" where
  "votes_for h book = (case hm_get book h of Some l \<Rightarrow> l | None \<Rightarrow> [])"

definition record_vote :: "vote \<Rightarrow> vote_book \<Rightarrow> vote_book" where
  "record_vote v book =
     (let l = votes_for (v_block_hash v) book
      in hm_insert (v_block_hash v)
           (if list_ex (\<lambda>w. v_validator w = v_validator v) l then l else l @ [v]) book)"

definition total_power :: "env \<Rightarrow> validator_info list \<Rightarrow> u64 option" where
  "total_power E vs = sum_ck (prof E) (map vi_power vs)"

definition vote_power :: "env \<Rightarrow> validator_info list \<Rightarrow> vote list \<Rightarrow> u64 option" where
  "vote_power E vs l =
     sum_ck (prof E) (map vi_power
       (List.map_filter (\<lambda>v. List.find (\<lambda>i. vi_address i = v_validator v) vs) l))"

text \<open>
  Executing and committing the proposed block when a certificate names its hash: a
  certificate for any other hash commits nothing.
\<close>

definition commit_proposed :: "env \<Rightarrow> codec \<Rightarrow> hash \<Rightarrow> engine \<Rightarrow> (unit, engine) outcome" where
  "commit_proposed E C h en =
     (case proposed_block en of
        None \<Rightarrow> Ret () en
      | Some b \<Rightarrow>
          if block_hash E b = h
          then or_panic (engine_execute_all E C (en_db en) (b_transactions b) []) en (\<lambda>ov.
            case commit_block E C b ov (en_db en) of
              (Inl e, db') \<Rightarrow> Panic (en\<lparr>en_db := db'\<rparr>)
            | (Inr _, db') \<Rightarrow>
                let en' = en\<lparr>en_db := db'\<rparr> in
                (case remove_committed E (b_transactions b) (en_pool en') of
                   Ret _ mp \<Rightarrow> Ret () (en'\<lparr>en_pool := mp\<rparr>)
                 | Panic mp \<Rightarrow> Panic (en'\<lparr>en_pool := mp\<rparr>)
                 | Blocked mp \<Rightarrow> Blocked (en'\<lparr>en_pool := mp\<rparr>)
                 | Spin \<Rightarrow> Spin))
          else Ret () en)"

definition certificate :: "vote \<Rightarrow> vote list \<Rightarrow> u64 \<Rightarrow> u64 \<Rightarrow> engine \<Rightarrow> quorum_certificate" where
  "certificate v l whole backing en =
     \<lparr>qc_block_hash = v_block_hash v, qc_height = cur_height en, qc_round = cur_round en,
      qc_votes = l, qc_total_voting_power = whole, qc_signers_voting_power = backing\<rparr>"

text \<open>
  The end of a commit: next height, round 0, no proposal, no votes. \<open>held\<close> lists the guards
  of \<open>prevotes\<close> the calling thread holds; the guard of \<open>precommits\<close> is this handler's own.
\<close>

definition advance_height ::
  "env \<Rightarrow> guard list \<Rightarrow> quorum_certificate \<Rightarrow> engine \<Rightarrow> (quorum_certificate option, engine) outcome" where
  "advance_height E held qc en =
     (let en1 = en\<lparr>last_qc := Some qc\<rparr> in
      or_panic (add_ck (prof E) (cur_height en1) 1) en1 (\<lambda>h.
        let en2 = en1\<lparr>cur_height := h, cur_round := 0, en_step := NewRound, proposed_block := None\<rparr> in
        if held \<noteq> [] \<and> \<not> locks E held WriteGuard then Blocked en2
        else let en3 = en2\<lparr>prevotes := []\<rparr> in
          if \<not> locks E [WriteGuard] WriteGuard then Blocked en3
          else Ret (Some qc) (en3\<lparr>precommits := []\<rparr>)))"

definition handle_precommit ::
  "env \<Rightarrow> codec \<Rightarrow> guard list \<Rightarrow> vote \<Rightarrow> engine \<Rightarrow> (quorum_certificate option, engine) outcome" where
  "handle_precommit E C held v en =
     (let en1 = en\<lparr>precommits := record_vote v (precommits en)\<rparr>;
          l = votes_for (v_block_hash v) (precommits en1);
          vs = active_validators C (en_db en1)
      in or_panic (total_power E vs) en1 (\<lambda>whole.
         or_panic (vote_power E vs l) en1 (\<lambda>backing.
           if whole > 0 \<and> exceeds_two_thirds backing whole \<and> en_step en1 \<noteq> Commit
           then
             let en2 = en1\<lparr>en_step := Commit\<rparr>;
                 qc = certificate v l whole backing en2
             in andThen (commit_proposed E C (v_block_hash v) en2)
                  (\<lambda>_ en3. advance_height E held qc en3)
           else Ret None en1)))"

definition handle_prevote ::
  "env \<Rightarrow> codec \<Rightarrow> vote \<Rightarrow> engine \<Rightarrow> (vote option, engine) outcome" where
  "handle_prevote E C v en =
     (let en1 = en\<lparr>prevotes := record_vote v (prevotes en)\<rparr>;
          l = votes_for (v_block_hash v) (prevotes en1);
          vs = active_validators C (en_db en1)
      in or_panic (total_power E vs) en1 (\<lambda>whole.
         or_panic (vote_power E vs l) en1 (\<lambda>backing.
           if whole > 0 \<and> exceeds_two_thirds backing whole \<and> en_step en1 = PreVote
           then
             let en2 = en1\<lparr>en_step := PreCommit\<rparr>;
                 precommit = vote_new_signed E (v_block_hash v) (cur_height en2) (cur_round en2)
                   PreCommitType (en_keypair en2)
             in andThen (handle_precommit E C [WriteGuard] precommit en2)
                  (\<lambda>_ en3. Ret (Some precommit) en3)
           else Ret None en1)))"

definition handle_proposal ::
  "env \<Rightarrow> codec \<Rightarrow> block \<Rightarrow> engine \<Rightarrow> (consensus_error + vote, engine) outcome" where
  "handle_proposal E C b en =
     (if h_height (b_header b) \<noteq> cur_height en \<or> h_round (b_header b) \<noteq> cur_round en
      then Ret (Inl InvalidProposal) en
      else case validate_basic E b of
        Inl _ \<Rightarrow> Ret (Inl InvalidProposal) en
      | Inr _ \<Rightarrow>
          let en1 = en\<lparr>proposed_block := Some b, en_step := PreVote\<rparr>;
              v = vote_new_signed E (block_hash E b) (cur_height en) (cur_round en)
                PreVoteType (en_keypair en1)
          in andThen (handle_prevote E C v en1) (\<lambda>_ en2. Ret (Inr v) en2))"

definition engine_set_hash :: "env \<Rightarrow> validator_info list \<Rightarrow> hash" where
  "engine_set_hash E vs =
     hash_bytes E (concat (map (\<lambda>v. addr_bytes (vi_address v) @ pk_bytes (vi_pubkey v) @
       be_bytes 8 (vi_power v)) vs))"

definition proposal_block ::
  "env \<Rightarrow> engine \<Rightarrow> validator_info list \<Rightarrow> hash \<Rightarrow> u64 \<Rightarrow> transaction list \<Rightarrow> block" where
  "proposal_block E en vs prev_hash now txs =
     (let b = \<lparr>b_header = header_new_unsigned 1 (en_chain_id en) (cur_height en) (cur_round en) prev_hash
                 HASH_ZERO (get_state_root E (en_db en)) (engine_set_hash E vs) now (en_address en),
               b_transactions = txs, b_last_commit_qc = last_qc en\<rparr>
      in b\<lparr>b_header := (b_header b)\<lparr>h_merkle_root := compute_merkle_root E b\<rparr>\<rparr>)"

definition finish_proposal :: "env \<Rightarrow> block \<Rightarrow> engine \<Rightarrow> (consensus_error + block, engine) outcome" where
  "finish_proposal E b en =
     (case header_sign E (en_keypair en) (b_header b) of
        Inl _ \<Rightarrow> Ret (Inl InvalidProposal) en
      | Inr h \<Rightarrow>
          let b = b\<lparr>b_header := h\<rparr>
          in Ret (Inr b) (en\<lparr>proposed_block := Some b, en_step := Propose\<rparr>))"

text \<open>
  \<open>now\<close> is the clock in seconds since the epoch, \<open>None\<close> when it is set before it. The
  overlay of the speculative run is dropped: only its panic can be seen.
\<close>

definition create_proposal ::
  "env \<Rightarrow> codec \<Rightarrow> u64 option \<Rightarrow> engine \<Rightarrow> (consensus_error + block, engine) outcome" where
  "create_proposal E C now en =
     (let height = cur_height en; round = cur_round en; vs = active_validators C (en_db en) in
      or_panic (select_proposer E height round vs) en (\<lambda>p.
      case p of
        None \<Rightarrow> Ret (Inl (NotProposer height round)) en
      | Some proposer \<Rightarrow>
          if vi_address proposer \<noteq> en_address en then Ret (Inl (NotProposer height round)) en
          else
            or_panic (sub_ck (prof E) height 1) en (\<lambda>parent.
            or_panic (get_block_by_height C (en_db en) parent) en (\<lambda>prev_block.
            let txs = harvest (1024 * 1024) (en_pool en) in
            or_panic (engine_execute_all E C (en_db en) txs []) en (\<lambda>_.
            or_panic now en (\<lambda>time.
            finish_proposal E (proposal_block E en vs (block_hash E prev_block) time txs) en))))))"
section \<open>Stake and votes\<close>

lemma map_filter_simps:
  "List.map_filter f [] = []"
  "List.map_filter f (x # xs) =
     (case f x of None \<Rightarrow> List.map_filter f xs | Some y \<Rightarrow> y # List.map_filter f xs)"
  by (simp_all add: List.map_filter_def split: option.split)

lemma signers_power_list:
  "sum_list (map unat (map vi_power
     (List.map_filter (\<lambda>v. List.find (\<lambda>i. vi_address i = v_validator v) vs) l))) =
   sum_list (map (\<lambda>v. stake_of vs (v_validator v)) l)"
  by (induction l) (auto simp: map_filter_simps stake_of_def split: option.split)

definition voters :: "vote list \<Rightarrow> address set" where
  "voters l = v_validator ` set l"

lemma signers_power_set:
  "distinct (map v_validator l) \<Longrightarrow>
     sum_list (map (\<lambda>v. stake_of vs (v_validator v)) l) = sum (stake_of vs) (voters l)"
proof (induction l)
  case (Cons v l)
  then have "v_validator v \<notin> voters l" "finite (voters l)" by (auto simp: voters_def)
  with Cons show ?case by (simp add: voters_def)
qed (simp add: voters_def)

lemma voters_stake_members:
  "sum (stake_of vs) (voters l) = sum (stake_of vs) (voters l \<inter> members vs)"
  by (rule sum.mono_neutral_right) (auto simp: voters_def stake_of_outside)

lemma tally_exact:
  assumes "distinct (map vi_address vs)" and "total_stake vs < 2 ^ 64" and "distinct (map v_validator l)"
  shows "\<exists>whole backing. total_power E vs = Some whole \<and> unat whole = total_stake vs \<and>
    vote_power E vs l = Some backing \<and> unat backing = sum (stake_of vs) (voters l)"
proof -
  have t: "sum_list (map unat (map vi_power vs)) = total_stake vs"
    by (simp add: total_stake_def comp_def)
  have le: "sum (stake_of vs) (voters l) \<le> total_stake vs"
    using validator_quorum.sub_quorum_power [of "voters l \<inter> members vs" vs]
    by (simp add: total_stake_members [OF assms(1)] voters_stake_members [of vs l])
  have p: "sum_list (map unat (map vi_power
      (List.map_filter (\<lambda>v. List.find (\<lambda>i. vi_address i = v_validator v) vs) l))) =
      sum (stake_of vs) (voters l)"
    using signers_power_list [of vs l] signers_power_set [OF assms(3), of vs] by simp
  have "\<exists>w. sum_ck (prof E) (map vi_power vs) = Some w \<and> unat w = total_stake vs"
    using sum_ck_exact [of "map vi_power vs" "prof E"] assms(2) t by simp
  moreover have "\<exists>w. sum_ck (prof E) (map vi_power
      (List.map_filter (\<lambda>v. List.find (\<lambda>i. vi_address i = v_validator v) vs) l)) = Some w \<and>
      unat w = sum (stake_of vs) (voters l)"
    using sum_ck_exact [of "map vi_power
      (List.map_filter (\<lambda>v. List.find (\<lambda>i. vi_address i = v_validator v) vs) l)" "prof E"] assms(2) le
    unfolding p by simp
  ultimately show ?thesis unfolding total_power_def vote_power_def by blast
qed

definition as_validator :: "address \<times> account \<Rightarrow> validator_info option" where
  "as_validator p = map_option
     (\<lambda>pk. \<lparr>vi_address = fst p, vi_pubkey = pk, vi_power = staked_amount (snd p)\<rparr>)
     (validator_pubkey (snd p))"

lemma active_validators_eq: "active_validators C db = List.map_filter as_validator (get_validators C db)"
proof -
  have "as_validator = (\<lambda>(addr, acc). map_option
      (\<lambda>pk. \<lparr>vi_address = addr, vi_pubkey = pk, vi_power = staked_amount acc\<rparr>) (validator_pubkey acc))"
    by (simp add: fun_eq_iff as_validator_def)
  then show ?thesis by (simp add: active_validators_def)
qed

lemma as_validator_addresses:
  "set (map vi_address (List.map_filter as_validator xs)) \<subseteq> set (map fst xs)"
  by (induction xs) (auto simp: map_filter_simps as_validator_def split: option.splits)

lemma distinct_active_validators:
  assumes "om_ok (kv_map (db_kv db))"
  shows "distinct (map vi_address (active_validators C db))"
proof -
  have "distinct (map fst xs) \<Longrightarrow> distinct (map vi_address (List.map_filter as_validator xs))" for xs
  proof (induction xs)
    case (Cons x xs)
    have new: "fst x \<notin> set (map vi_address (List.map_filter as_validator xs))"
      using Cons.prems as_validator_addresses [of xs] by auto
    show ?case
    proof (cases "as_validator x")
      case None
      with Cons show ?thesis by (simp add: map_filter_simps)
    next
      case (Some i)
      then have "vi_address i = fst x" by (auto simp: as_validator_def)
      with Some Cons new show ?thesis by (simp add: map_filter_simps)
    qed
  qed (simp add: map_filter_simps)
  with distinct_get_validators [OF assms] show ?thesis by (simp add: active_validators_eq)
qed

text \<open>A vote book holds, under each hash, votes for that hash by pairwise distinct validators.\<close>

definition votes_ok :: "vote_book \<Rightarrow> bool" where
  "votes_ok book \<longleftrightarrow> hm_ok book \<and>
     (\<forall>h. distinct (map v_validator (votes_for h book)) \<and>
        (\<forall>v \<in> set (votes_for h book). v_block_hash v = h))"

lemma votes_ok_Nil [simp]: "votes_ok []"
  by (simp add: votes_ok_def votes_for_def)

lemma votes_for_record:
  "votes_for h (record_vote v book) =
     (if h = v_block_hash v \<and> v_validator v \<notin> voters (votes_for h book)
      then votes_for h book @ [v] else votes_for h book)"
proof -
  have ex: "list_ex (\<lambda>w. v_validator w = v_validator v) l \<longleftrightarrow> v_validator v \<in> voters l" for l
    unfolding voters_def list_ex_iff image_iff by metis
  show ?thesis
    by (simp add: record_vote_def Let_def ex) (simp add: votes_for_def hm_get_insert)
qed

lemma votes_ok_record: "votes_ok book \<Longrightarrow> votes_ok (record_vote v book)"
proof -
  assume ok: "votes_ok book"
  then have "hm_ok (record_vote v book)"
    by (simp add: votes_ok_def record_vote_def Let_def hm.ok_insert)
  with ok show ?thesis
    by (auto simp: votes_ok_def votes_for_record voters_def)
qed

section \<open>What a returning handler did\<close>

lemma commit_block_Inr:
  assumes "commit_block E C b ov db = (r, db')"
  shows "db' = write_all E C ov b (h_height (b_header b)) db"
  using commit_block_write_all [of E C b ov db] assms by simp

lemma commit_proposed_Ret:
  assumes "commit_proposed E C h en = Ret u en'"
  obtains (none) "\<forall>b. proposed_block en = Some b \<longrightarrow> block_hash E b \<noteq> h" "en' = en"
  | (block) b ov mp where "proposed_block en = Some b" "block_hash E b = h"
      "engine_execute_all E C (en_db en) (b_transactions b) [] = Some ov"
      "remove_committed E (b_transactions b) (en_pool en) = Ret () mp"
      "en' = en\<lparr>en_db := write_all E C ov b (h_height (b_header b)) (en_db en), en_pool := mp\<rparr>"
proof (cases "\<exists>b. proposed_block en = Some b \<and> block_hash E b = h")
  case False
  with assms none show ?thesis
    by (auto simp: commit_proposed_def split: option.splits if_splits)
next
  case True
  then obtain b where b: "proposed_block en = Some b" "block_hash E b = h" by blast
  with assms obtain ov where ov: "engine_execute_all E C (en_db en) (b_transactions b) [] = Some ov"
    by (auto simp: commit_proposed_def or_panic_def split: option.splits)
  obtain r db' where c: "commit_block E C b ov (en_db en) = (r, db')" by fastforce
  with assms b ov obtain mp where "remove_committed E (b_transactions b) (en_pool en) = Ret () mp"
      "en' = en\<lparr>en_db := db', en_pool := mp\<rparr>"
    by (auto simp: commit_proposed_def Let_def split: sum.splits outcome.splits)
  with b ov commit_block_Inr [OF c] block show ?thesis by blast
qed

lemma advance_height_Ret:
  "advance_height E held qc en = Ret r en' \<longleftrightarrow>
     (\<exists>h. add_ck (prof E) (cur_height en) 1 = Some h \<and> (held = [] \<or> locks E held WriteGuard) \<and>
        locks E [WriteGuard] WriteGuard \<and> r = Some qc \<and>
        en' = en\<lparr>last_qc := Some qc, cur_height := h, cur_round := 0, en_step := NewRound,
          proposed_block := None, prevotes := [], precommits := []\<rparr>)"
  by (auto simp: advance_height_def Let_def or_panic_Ret_iff)

lemma handle_precommit_Ret:
  assumes "handle_precommit E C held v en = Ret r en'"
  obtains (wait) whole backing where "r = None" "en' = en\<lparr>precommits := record_vote v (precommits en)\<rparr>"
      "total_power E (active_validators C (en_db en)) = Some whole"
      "vote_power E (active_validators C (en_db en))
         (votes_for (v_block_hash v) (record_vote v (precommits en))) = Some backing"
      "\<not> (whole > 0 \<and> exceeds_two_thirds backing whole \<and> en_step en \<noteq> Commit)"
  | (commit) whole backing en3 h where
      "total_power E (active_validators C (en_db en)) = Some whole"
      "vote_power E (active_validators C (en_db en))
         (votes_for (v_block_hash v) (record_vote v (precommits en))) = Some backing"
      "whole > 0" "exceeds_two_thirds backing whole" "en_step en \<noteq> Commit"
      "commit_proposed E C (v_block_hash v)
         (en\<lparr>precommits := record_vote v (precommits en), en_step := Commit\<rparr>) = Ret () en3"
      "add_ck (prof E) (cur_height en3) 1 = Some h" "held = [] \<or> locks E held WriteGuard"
      "locks E [WriteGuard] WriteGuard"
      "r = Some (certificate v (votes_for (v_block_hash v) (record_vote v (precommits en))) whole backing en)"
      "en' = en3\<lparr>last_qc := r, cur_height := h, cur_round := 0, en_step := NewRound,
          proposed_block := None, prevotes := [], precommits := []\<rparr>"
proof -
  let ?book = "record_vote v (precommits en)"
  let ?l = "votes_for (v_block_hash v) ?book" and ?vs = "active_validators C (en_db en)"
  let ?en2 = "en\<lparr>precommits := ?book, en_step := Commit\<rparr>"
  from assms obtain whole backing where
    t: "total_power E ?vs = Some whole" "vote_power E ?vs ?l = Some backing" and
    run: "(if whole > 0 \<and> exceeds_two_thirds backing whole \<and> en_step en \<noteq> Commit
       then andThen (commit_proposed E C (v_block_hash v) ?en2)
         (\<lambda>_ en3. advance_height E held (certificate v ?l whole backing ?en2) en3)
       else Ret None (en\<lparr>precommits := ?book\<rparr>)) = Ret r en'"
    by (simp add: handle_precommit_def Let_def or_panic_Ret_iff cong: if_cong) blast
  show ?thesis
  proof (cases "whole > 0 \<and> exceeds_two_thirds backing whole \<and> en_step en \<noteq> Commit")
    case False
    with run have "Ret None (en\<lparr>precommits := ?book\<rparr>) = Ret r en'" by (simp only: if_False)
    with t False wait show ?thesis by blast
  next
    case True
    with run obtain en3 where c: "commit_proposed E C (v_block_hash v) ?en2 = Ret () en3"
      and adv: "advance_height E held (certificate v ?l whole backing ?en2) en3 = Ret r en'"
      by (auto simp: andThen_Ret_iff)
    have "certificate v ?l whole backing ?en2 = certificate v ?l whole backing en"
      by (simp add: certificate_def)
    with adv obtain h where "add_ck (prof E) (cur_height en3) 1 = Some h"
      "held = [] \<or> locks E held WriteGuard" "locks E [WriteGuard] WriteGuard"
      "r = Some (certificate v ?l whole backing en)"
      "en' = en3\<lparr>last_qc := r, cur_height := h, cur_round := 0, en_step := NewRound,
          proposed_block := None, prevotes := [], precommits := []\<rparr>"
      by (simp only: advance_height_Ret) blast
    with t True c commit show ?thesis by blast
  qed
qed

text \<open>
  The commit of the proposed block may return, or wait for ever for the pool's byte count;
  either way the block is stored before.
\<close>

lemma remove_committed_Blocked: "remove_committed E txs mp = Blocked mp' \<Longrightarrow> \<not> locks E [ReadGuard] WriteGuard"
proof (induction txs arbitrary: mp)
  case (Cons tx txs)
  then show ?case
    by (cases "evict_transaction E (tx_hash E tx) mp")
       (auto simp: evict_transaction_eq split: option.split_asm if_split_asm)
qed simp

definition returned_or_blocked :: "('a, engine) outcome \<Rightarrow> engine \<Rightarrow> bool" where
  "returned_or_blocked out en \<longleftrightarrow> (\<exists>r. out = Ret r en) \<or> out = Blocked en"

lemma commit_proposed_stored:
  assumes "returned_or_blocked (commit_proposed E C h en) en'" and "proposed_block en = Some b" and "block_hash E b = h"
  obtains ov mp where "engine_execute_all E C (en_db en) (b_transactions b) [] = Some ov"
    "en' = en\<lparr>en_db := write_all E C ov b (h_height (b_header b)) (en_db en), en_pool := mp\<rparr>"
    "(remove_committed E (b_transactions b) (en_pool en) = Ret () mp \<and> commit_proposed E C h en = Ret () en') \<or>
     (remove_committed E (b_transactions b) (en_pool en) = Blocked mp \<and> commit_proposed E C h en = Blocked en')"
proof -
  obtain ov where ov: "engine_execute_all E C (en_db en) (b_transactions b) [] = Some ov"
    using assms by (auto simp: returned_or_blocked_def commit_proposed_def or_panic_def split: option.splits)
  obtain r db' where c: "commit_block E C b ov (en_db en) = (r, db')" by fastforce
  note db' = commit_block_Inr [OF c]
  show ?thesis
  proof (cases "remove_committed E (b_transactions b) (en_pool en)")
    case (Ret u mp)
    with assms ov c db' that [OF ov, of mp] show ?thesis
      by (cases r) (auto simp: returned_or_blocked_def commit_proposed_def Let_def)
  next
    case (Blocked mp)
    with assms ov c db' that [OF ov, of mp] show ?thesis
      by (cases r) (auto simp: returned_or_blocked_def commit_proposed_def Let_def)
  qed (use assms ov c in \<open>auto simp: returned_or_blocked_def commit_proposed_def Let_def split: sum.splits\<close>)
qed

lemma commit_proposed_keeps:
  assumes "commit_proposed E C h en = Ret u en'"
  shows "cur_height en' = cur_height en" "en_keypair en' = en_keypair en" "en_address en' = en_address en"
    "en_chain_id en' = en_chain_id en"
    "om_ok (kv_map (db_kv (en_db en))) \<Longrightarrow> om_ok (kv_map (db_kv (en_db en')))"
    "mp_inv E (en_pool en) \<Longrightarrow> mp_inv E (en_pool en')"
    "mp_limits (en_pool en) \<Longrightarrow> mp_inv E (en_pool en) \<Longrightarrow> mp_limits (en_pool en')"
  by (cases rule: commit_proposed_Ret [OF assms]; simp add: om_ok_write_all remove_committed_keeps)+

text \<open>The deciding precommit, whether it returns or waits.\<close>

lemma advance_height_stored:
  assumes "advance_height E held qc en = Ret r en' \<or> advance_height E held qc en = Blocked en'"
  shows "en_db en' = en_db en \<and> en_pool en' = en_pool en \<and> cur_height en' = cur_height en + 1 \<and> cur_round en' = 0 \<and>
    en_step en' = NewRound \<and> proposed_block en' = None \<and> last_qc en' = Some qc"
proof -
  obtain h where h: "add_ck (prof E) (cur_height en) 1 = Some h"
    using assms by (cases "add_ck (prof E) (cur_height en) 1") (auto simp: advance_height_def)
  with assms add_ck_SomeD [OF h] show ?thesis
    by (auto simp: advance_height_def Let_def split: if_splits)
qed

lemma precommit_decides:
  assumes out: "handle_precommit E C held v en \<in> {Ret (Some qc) en', Blocked en'}"
    and b: "proposed_block en = Some b" "block_hash E b = v_block_hash v"
  obtains ov mp where "engine_execute_all E C (en_db en) (b_transactions b) [] = Some ov"
    "en_db en' = write_all E C ov b (h_height (b_header b)) (en_db en)" "en_pool en' = mp"
    "(remove_committed E (b_transactions b) (en_pool en) = Blocked mp \<and> handle_precommit E C held v en = Blocked en' \<and>
        cur_height en' = cur_height en) \<or>
     (remove_committed E (b_transactions b) (en_pool en) = Ret () mp \<and> cur_height en' = cur_height en + 1 \<and>
        cur_round en' = 0 \<and> en_step en' = NewRound \<and> proposed_block en' = None \<and> last_qc en' \<noteq> None)"
proof -
  let ?book = "record_vote v (precommits en)"
  let ?l = "votes_for (v_block_hash v) ?book" and ?vs = "active_validators C (en_db en)"
  let ?en2 = "en\<lparr>precommits := ?book, en_step := Commit\<rparr>"
  obtain whole backing where t: "total_power E ?vs = Some whole" "vote_power E ?vs ?l = Some backing"
    using out by (auto simp: handle_precommit_def Let_def or_panic_def split: option.splits)
  have quorum: "whole > 0 \<and> exceeds_two_thirds backing whole \<and> en_step en \<noteq> Commit"
    using out t by (auto simp: handle_precommit_def Let_def split: if_splits)
  let ?qc = "certificate v ?l whole backing ?en2"
  have run: "handle_precommit E C held v en =
      andThen (commit_proposed E C (v_block_hash v) ?en2) (\<lambda>_ en3. advance_height E held ?qc en3)"
    using t quorum by (simp add: handle_precommit_def Let_def)
  have b2: "proposed_block ?en2 = Some b" using b(1) by simp
  obtain en3 where "returned_or_blocked (commit_proposed E C (v_block_hash v) ?en2) en3"
    "commit_proposed E C (v_block_hash v) ?en2 = Blocked en3 \<and> en3 = en' \<and> handle_precommit E C held v en = Blocked en' \<or>
     commit_proposed E C (v_block_hash v) ?en2 = Ret () en3 \<and>
       (\<exists>r. advance_height E held ?qc en3 = Ret r en' \<or> advance_height E held ?qc en3 = Blocked en')"
    using out run by (cases "commit_proposed E C (v_block_hash v) ?en2") (auto simp: returned_or_blocked_def)
  note c = this
  obtain ov mp where w: "engine_execute_all E C (en_db en) (b_transactions b) [] = Some ov"
    "en3 = ?en2\<lparr>en_db := write_all E C ov b (h_height (b_header b)) (en_db en), en_pool := mp\<rparr>"
    "(remove_committed E (b_transactions b) (en_pool en) = Ret () mp \<and> commit_proposed E C (v_block_hash v) ?en2 = Ret () en3) \<or>
     (remove_committed E (b_transactions b) (en_pool en) = Blocked mp \<and> commit_proposed E C (v_block_hash v) ?en2 = Blocked en3)"
    using commit_proposed_stored [OF c(1) b2 b(2)] by auto
  from c(2) show ?thesis
  proof (elim disjE conjE exE)
    assume "commit_proposed E C (v_block_hash v) ?en2 = Blocked en3" "en3 = en'" "handle_precommit E C held v en = Blocked en'"
    with w that [OF w(1), of mp] show ?thesis by auto
  next
    fix r
    assume "commit_proposed E C (v_block_hash v) ?en2 = Ret () en3" "advance_height E held ?qc en3 = Ret r en'"
    with w that [OF w(1), of mp] advance_height_stored [of E held ?qc en3 r en'] show ?thesis by auto
  next
    fix r
    assume "commit_proposed E C (v_block_hash v) ?en2 = Ret () en3" "advance_height E held ?qc en3 = Blocked en'"
    with w that [OF w(1), of mp] advance_height_stored [of E held ?qc en3 r en'] show ?thesis by auto
  qed
qed

text \<open>What every handler relies on and keeps.\<close>

definition engine_ok :: "env \<Rightarrow> engine \<Rightarrow> bool" where
  "engine_ok E en \<longleftrightarrow>
     votes_ok (prevotes en) \<and> votes_ok (precommits en) \<and> om_ok (kv_map (db_kv (en_db en))) \<and>
     mp_inv E (en_pool en) \<and> mp_limits (en_pool en) \<and>
     en_address en = address_from_pubkey E (kp_public (en_keypair en)) \<and> en_step en \<noteq> Commit \<and>
     (\<forall>b. proposed_block en = Some b \<longrightarrow> validate_basic E b = Inr ())"

lemma handle_precommit_ok:
  assumes "engine_ok E en" and "handle_precommit E C held v en = Ret r en'"
  shows "engine_ok E en'"
proof (cases rule: handle_precommit_Ret [OF assms(2)])
  case (1 whole backing)
  with assms(1) show ?thesis by (simp add: engine_ok_def votes_ok_record)
next
  case (2 whole backing en3 h)
  from assms(1) commit_proposed_keeps [OF 2(6)] show ?thesis
    by (simp add: engine_ok_def 2(11))
qed

lemma handle_prevote_Ret:
  assumes "handle_prevote E C v en = Ret r en'"
  obtains (wait) "r = None" "en' = en\<lparr>prevotes := record_vote v (prevotes en)\<rparr>"
  | (quorum) pv q where "en_step en = PreVote" "r = Some pv"
      "pv = vote_new_signed E (v_block_hash v) (cur_height en) (cur_round en) PreCommitType (en_keypair en)"
      "handle_precommit E C [WriteGuard] pv
         (en\<lparr>prevotes := record_vote v (prevotes en), en_step := PreCommit\<rparr>) = Ret q en'"
  using assms
  by (auto simp: handle_prevote_def Let_def or_panic_Ret_iff andThen_Ret_iff split: if_splits)

lemma handle_prevote_ok:
  assumes "engine_ok E en" and "handle_prevote E C v en = Ret r en'"
  shows "engine_ok E en'"
proof (cases rule: handle_prevote_Ret [OF assms(2)])
  case 1
  with assms(1) show ?thesis by (simp add: engine_ok_def votes_ok_record)
next
  case (2 pv q)
  show ?thesis
    by (rule handle_precommit_ok [OF _ 2(4)])
       (use assms(1) in \<open>simp add: engine_ok_def votes_ok_record\<close>)
qed

lemma handle_proposal_Ret:
  assumes "handle_proposal E C b en = Ret r en'"
  obtains (refused) "r = Inl InvalidProposal" "en' = en"
      "\<not> (h_height (b_header b) = cur_height en \<and> h_round (b_header b) = cur_round en \<and>
          validate_basic E b = Inr ())"
  | (accepted) pv q where "h_height (b_header b) = cur_height en" "h_round (b_header b) = cur_round en"
      "validate_basic E b = Inr ()" "r = Inr pv"
      "pv = vote_new_signed E (block_hash E b) (cur_height en) (cur_round en) PreVoteType (en_keypair en)"
      "handle_prevote E C pv (en\<lparr>proposed_block := Some b, en_step := PreVote\<rparr>) = Ret q en'"
  using assms
  by (auto simp: handle_proposal_def Let_def andThen_Ret_iff case_sum_unit_iff split: if_splits)

lemma handle_proposal_ok:
  assumes "engine_ok E en" and "handle_proposal E C b en = Ret r en'"
  shows "engine_ok E en'"
proof (cases rule: handle_proposal_Ret [OF assms(2)])
  case 1
  with assms(1) show ?thesis by simp
next
  case (2 pv q)
  show ?thesis
    by (rule handle_prevote_ok [OF _ 2(6)]) (use assms(1) 2(3) in \<open>simp add: engine_ok_def\<close>)
qed

lemma validate_stateless_verify: "validate_stateless E tx = Inr () \<Longrightarrow> tx_verify E tx = Inr ()"
  by (auto simp: validate_stateless_def Let_def case_sum_unit_iff split: if_splits)

lemma create_proposal_Ret:
  assumes "create_proposal E C now en = Ret r en'"
  obtains (refused) e where "r = Inl e" "en' = en"
  | (proposed) proposer parent prev_block time h b where
      "select_proposer E (cur_height en) (cur_round en) (active_validators C (en_db en)) = Some (Some proposer)"
      "vi_address proposer = en_address en" "sub_ck (prof E) (cur_height en) 1 = Some parent"
      "get_block_by_height C (en_db en) parent = Some prev_block"
      "now = Some time"
      "header_sign E (en_keypair en) (b_header (proposal_block E en (active_validators C (en_db en))
         (block_hash E prev_block) time (harvest (1024 * 1024) (en_pool en)))) = Inr h"
      "b = (proposal_block E en (active_validators C (en_db en)) (block_hash E prev_block) time
         (harvest (1024 * 1024) (en_pool en)))\<lparr>b_header := h\<rparr>"
      "r = Inr b" "en' = en\<lparr>proposed_block := Some b, en_step := Propose\<rparr>"
proof -
  let ?vs = "active_validators C (en_db en)" and ?txs = "harvest (1024 * 1024) (en_pool en)"
  obtain p where p: "select_proposer E (cur_height en) (cur_round en) ?vs = Some p"
    using assms unfolding create_proposal_def Let_def by (auto simp only: or_panic_Ret_iff)
  show ?thesis
  proof (cases "\<exists>proposer. p = Some proposer \<and> vi_address proposer = en_address en")
    case False
    then have "create_proposal E C now en = Ret (Inl (NotProposer (cur_height en) (cur_round en))) en"
      using p by (cases p) (auto simp: create_proposal_def Let_def)
    with assms refused show ?thesis by auto
  next
    case True
    then obtain proposer where pr: "p = Some proposer" "vi_address proposer = en_address en" by blast
    with assms p obtain parent prev_block time where run:
      "sub_ck (prof E) (cur_height en) 1 = Some parent"
      "get_block_by_height C (en_db en) parent = Some prev_block" "now = Some time"
      "finish_proposal E (proposal_block E en ?vs (block_hash E prev_block) time ?txs) en = Ret r en'"
      by (auto simp: create_proposal_def Let_def or_panic_Ret_iff)
    let ?b = "proposal_block E en ?vs (block_hash E prev_block) time ?txs"
    show ?thesis
    proof (cases "header_sign E (en_keypair en) (b_header ?b)")
      case (Inl e)
      with run(4) show ?thesis by (intro refused) (auto simp: finish_proposal_def)
    next
      case (Inr h)
      with run(4) have "r = Inr (?b\<lparr>b_header := h\<rparr>)"
        "en' = en\<lparr>proposed_block := Some (?b\<lparr>b_header := h\<rparr>), en_step := Propose\<rparr>"
        by (simp_all add: finish_proposal_def Let_def)
      from proposed [OF _ pr(2) run(1-3) Inr refl this] p pr(1) show ?thesis by simp
    qed
  qed
qed

lemma header_sign_Inr:
  "header_sign E kp h = Inr g \<longleftrightarrow> address_from_pubkey E (kp_public kp) = h_proposer h \<and>
     g = h\<lparr>h_signature := kp_sign E kp (header_signing_bytes h)\<rparr>"
  by (auto simp: header_sign_def)

lemma proposal_block_simps [simp]:
  "b_transactions (proposal_block E en vs p t txs) = txs"
  "b_last_commit_qc (proposal_block E en vs p t txs) = last_qc en"
  "h_height (b_header (proposal_block E en vs p t txs)) = cur_height en"
  "h_round (b_header (proposal_block E en vs p t txs)) = cur_round en"
  "h_prev_hash (b_header (proposal_block E en vs p t txs)) = p"
  "h_proposer (b_header (proposal_block E en vs p t txs)) = en_address en"
  "h_state_root (b_header (proposal_block E en vs p t txs)) = get_state_root E (en_db en)"
  "h_merkle_root (b_header (proposal_block E en vs p t txs)) =
     tree_root (from_leaf_hashes E (map (tx_hash E) txs))"
  by (simp_all add: proposal_block_def Let_def header_new_unsigned_def compute_merkle_root_def)

lemma create_proposal_ok:
  assumes "engine_ok E en" and "create_proposal E C now en = Ret r en'"
  shows "engine_ok E en'"
proof (cases rule: create_proposal_Ret [OF assms(2)])
  case (1 e)
  with assms(1) show ?thesis by simp
next
  case (2 proposer parent prev_block time h b)
  have "mp_inv E (en_pool en)" using assms(1) by (simp add: engine_ok_def)
  then have "validate_basic E b = Inr ()"
    using 2(6) harvest_valid(1) validate_stateless_verify
    by (auto simp: 2(7) validate_basic_Inr header_sign_Inr compute_merkle_root_def)
  with assms(1) show ?thesis by (simp add: 2(9) engine_ok_def)
qed

section \<open>Reachable engines\<close>

inductive engine_reach :: "env \<Rightarrow> codec \<Rightarrow> engine \<Rightarrow> engine \<Rightarrow> bool" for E C en0 where
  engine_start: "engine_reach E C en0 en0"
| engine_submit: "engine_reach E C en0 en \<Longrightarrow>
    add_transaction E C (en_db en) tx (en_pool en) = Ret r0 mp \<Longrightarrow>
    engine_reach E C en0 (en\<lparr>en_pool := mp\<rparr>)"
| engine_create: "engine_reach E C en0 en \<Longrightarrow> create_proposal E C now en = Ret r1 en' \<Longrightarrow>
    engine_reach E C en0 en'"
| engine_proposal: "engine_reach E C en0 en \<Longrightarrow> handle_proposal E C b en = Ret r2 en' \<Longrightarrow>
    engine_reach E C en0 en'"
| engine_prevote: "engine_reach E C en0 en \<Longrightarrow> handle_prevote E C v en = Ret r3 en' \<Longrightarrow>
    engine_reach E C en0 en'"
| engine_precommit: "engine_reach E C en0 en \<Longrightarrow> handle_precommit E C [] v en = Ret r4 en' \<Longrightarrow>
    engine_reach E C en0 en'"

lemma engine_reach_ok: "engine_reach E C en0 en \<Longrightarrow> engine_ok E en0 \<Longrightarrow> engine_ok E en"
proof (induction rule: engine_reach.induct)
  case (engine_submit en tx r mp)
  then have ok: "engine_ok E en" by simp
  then have "mp_inv E (en_pool en)" "mp_limits (en_pool en)" by (simp_all add: engine_ok_def)
  from add_transaction_keeps [OF this engine_submit(2)] ok show ?case by (simp add: engine_ok_def)
next
  case (engine_create en now r en')
  then show ?case using create_proposal_ok by blast
next
  case (engine_proposal en b r en')
  then show ?case using handle_proposal_ok by blast
next
  case (engine_prevote en v r en')
  then show ?case using handle_prevote_ok by blast
next
  case (engine_precommit en v r en')
  then show ?case using handle_precommit_ok by blast
qed

lemma engine_new_ok:
  assumes "engine_new E kp db mp chain = Some en" and "om_ok (kv_map (db_kv db))"
    and "mp_inv E mp" and "mp_limits mp"
  shows "engine_ok E en"
  using assms by (auto simp: engine_new_def engine_ok_def)

text \<open>Under the documented lock no commit gets past the votes it clears.\<close>

lemma precommit_stuck:
  assumes "exclusive_writes (locks E)" and "handle_precommit E C held v en = Ret r en'"
  shows "r = None \<and> en' = en\<lparr>precommits := record_vote v (precommits en)\<rparr>"
proof (cases rule: handle_precommit_Ret [OF assms(2)])
  case (2 whole backing en3 h)
  then show ?thesis using assms(1) by (simp add: exclusive_writes_def)
qed simp

definition same_chain :: "engine \<Rightarrow> engine \<Rightarrow> bool" where
  "same_chain en en' \<longleftrightarrow>
     cur_height en' = cur_height en \<and> cur_round en' = cur_round en \<and> last_qc en' = last_qc en \<and>
     en_db en' = en_db en"

lemma prevote_stuck:
  assumes "exclusive_writes (locks E)" and "handle_prevote E C v en = Ret r en'"
  shows "same_chain en en'"
  using handle_prevote_Ret [OF assms(2)]
proof cases
  case (2 pv q)
  from precommit_stuck [OF assms(1) 2(4)] show ?thesis by (simp add: same_chain_def)
qed (simp add: same_chain_def)

lemma proposal_stuck:
  assumes "exclusive_writes (locks E)" and "handle_proposal E C b en = Ret r en'"
  shows "same_chain en en'"
  using handle_proposal_Ret [OF assms(2)]
proof cases
  case (2 pv q)
  from prevote_stuck [OF assms(1) 2(6)] show ?thesis by (simp add: same_chain_def)
qed (simp add: same_chain_def)

lemma reach_stuck:
  "engine_reach E C en0 en \<Longrightarrow> exclusive_writes (locks E) \<Longrightarrow> same_chain en0 en"
proof (induction rule: engine_reach.induct)
  case (engine_create en now r en')
  from create_proposal_Ret [OF engine_create(2)] show ?case
    by cases (use engine_create(3,4) in \<open>simp_all add: same_chain_def\<close>)
next
  case (engine_proposal en b r en')
  then show ?case using proposal_stuck [OF engine_proposal(4,2)] by (simp add: same_chain_def)
next
  case (engine_prevote en v r en')
  then show ?case using prevote_stuck [OF engine_prevote(4,2)] by (simp add: same_chain_def)
next
  case (engine_precommit en v r en')
  then show ?case using precommit_stuck [OF engine_precommit(4,2)] by (simp add: same_chain_def)
qed (simp_all add: same_chain_def)

section \<open>Certificates\<close>

lemma certificate_stake:
  assumes "engine_ok E en" and "total_stake (active_validators C (en_db en)) < 2 ^ 64"
    and "handle_precommit E C held v en = Ret (Some qc) en'"
  shows "qc_block_hash qc = v_block_hash v \<and> qc_height qc = cur_height en \<and> qc_round qc = cur_round en \<and>
    distinct (map v_validator (qc_votes qc)) \<and> (\<forall>w \<in> set (qc_votes qc). v_block_hash w = v_block_hash v) \<and>
    unat (qc_total_voting_power qc) = total_stake (active_validators C (en_db en)) \<and>
    unat (qc_signers_voting_power qc) = sum (stake_of (active_validators C (en_db en))) (voters (qc_votes qc)) \<and>
    is_valid_quorum qc"
proof (cases rule: handle_precommit_Ret [OF assms(3)])
  case (2 whole backing en3 h)
  let ?vs = "active_validators C (en_db en)"
  let ?l = "votes_for (v_block_hash v) (record_vote v (precommits en))"
  have ok: "votes_ok (record_vote v (precommits en))" "om_ok (kv_map (db_kv (en_db en)))"
    using assms(1) by (simp_all add: engine_ok_def votes_ok_record)
  then have l: "distinct (map v_validator ?l)" "\<forall>w \<in> set ?l. v_block_hash w = v_block_hash v"
    by (simp_all add: votes_ok_def)
  from tally_exact [OF distinct_active_validators [OF ok(2)] assms(2) l(1), of E] 2(1,2)
  have "unat whole = total_stake ?vs" "unat backing = sum (stake_of ?vs) (voters ?l)" by auto
  moreover have "qc = certificate v ?l whole backing en" using 2(10) by simp
  moreover have "is_valid_quorum (certificate v ?l whole backing en)"
    using 2(3,4) by (auto simp: is_valid_quorum_def certificate_def)
  ultimately show ?thesis using l by (simp add: certificate_def)
qed simp

lemma certificate_majority:
  assumes "engine_ok E en" and "total_stake (active_validators C (en_db en)) < 2 ^ 64"
    and "handle_precommit E C held v en = Ret (Some qc) en'"
  shows "2 * sum (stake_of (active_validators C (en_db en))) (members (active_validators C (en_db en))) <
    3 * sum (stake_of (active_validators C (en_db en)))
      (voters (qc_votes qc) \<inter> members (active_validators C (en_db en)))"
proof -
  let ?vs = "active_validators C (en_db en)"
  have "om_ok (kv_map (db_kv (en_db en)))" using assms(1) by (simp add: engine_ok_def)
  then have "total_stake ?vs = sum (stake_of ?vs) (members ?vs)"
    by (intro total_stake_members distinct_active_validators)
  note cert = certificate_stake [OF assms]
  then have "2 * unat (qc_total_voting_power qc) < 3 * unat (qc_signers_voting_power qc)"
    by (simp add: is_valid_quorum_def exceeds_two_thirds_unat split: if_splits)
  moreover have "sum (stake_of ?vs) (voters (qc_votes qc)) =
      sum (stake_of ?vs) (voters (qc_votes qc) \<inter> members ?vs)" by (rule voters_stake_members)
  ultimately show ?thesis using cert \<open>total_stake ?vs = sum (stake_of ?vs) (members ?vs)\<close> by metis
qed

section \<open>What a vote contributes\<close>

lemma vote_power_cong:
  "map v_validator l = map v_validator l' \<Longrightarrow> vote_power E vs l = vote_power E vs l'"
proof -
  assume eq: "map v_validator l = map v_validator l'"
  have mf: "List.map_filter (\<lambda>v. List.find (\<lambda>i. vi_address i = v_validator v) vs) l =
      List.map_filter (\<lambda>a. List.find (\<lambda>i. vi_address i = a) vs) (map v_validator l)" for l
    by (induction l) (simp_all add: map_filter_simps split: option.split)
  show ?thesis unfolding vote_power_def mf [of l] mf [of l'] eq ..
qed

lemma votes_for_record_validators:
  assumes "v_block_hash w = v_block_hash v" and "v_validator w = v_validator v"
  shows "map v_validator (votes_for (v_block_hash v) (record_vote w book)) =
    map v_validator (votes_for (v_block_hash v) (record_vote v book))"
  using assms by (simp add: votes_for_record)

lemma commit_proposed_transfer:
  assumes "commit_proposed E C h en = Ret () en3" and "proposed_block fn = proposed_block en"
    and "en_db fn = en_db en" and "en_pool fn = en_pool en"
  shows "\<exists>fn3. commit_proposed E C h fn = Ret () fn3"
proof (cases "\<exists>b. proposed_block en = Some b \<and> block_hash E b = h")
  case False
  with assms(2) show ?thesis by (auto simp: commit_proposed_def split: option.split)
next
  case True
  then obtain b where b: "proposed_block en = Some b" "block_hash E b = h" by blast
  obtain ov where ov: "engine_execute_all E C (en_db en) (b_transactions b) [] = Some ov"
    using assms(1) b by (auto simp: commit_proposed_def or_panic_def split: option.splits)
  obtain r db' where c: "commit_block E C b ov (en_db en) = (r, db')" by fastforce
  from assms(1) b ov c obtain mp u where "r = Inr u" "remove_committed E (b_transactions b) (en_pool en) = Ret () mp"
    by (cases r) (auto simp: commit_proposed_def Let_def split: outcome.splits)
  with assms(2-4) b ov c show ?thesis by (simp add: commit_proposed_def Let_def)
qed

lemma handle_precommit_SomeI:
  assumes "total_power E (active_validators C (en_db en)) = Some whole"
    and "vote_power E (active_validators C (en_db en))
      (votes_for (v_block_hash v) (record_vote v (precommits en))) = Some backing"
    and "whole > 0" and "exceeds_two_thirds backing whole" and "en_step en \<noteq> Commit"
    and "commit_proposed E C (v_block_hash v)
      (en\<lparr>precommits := record_vote v (precommits en), en_step := Commit\<rparr>) = Ret () en3"
    and "add_ck (prof E) (cur_height en) 1 = Some h" and "held = [] \<or> locks E held WriteGuard"
    and "locks E [WriteGuard] WriteGuard"
  shows "\<exists>qc en'. handle_precommit E C held v en = Ret (Some qc) en'"
proof -
  have "cur_height en3 = cur_height en" using commit_proposed_keeps(1) [OF assms(6)] by simp
  then have "\<exists>qc en'. advance_height E held q en3 = Ret (Some qc) en'" for q
    using assms(7-9) by (simp add: advance_height_Ret)
  with assms(1-6) show ?thesis by (simp add: handle_precommit_def Let_def)
qed

lemma precommit_transfer:
  assumes "v_block_hash w = v_block_hash v" and "v_validator w = v_validator v"
    and "handle_precommit E C held v en = Ret (Some qc) en'"
  shows "\<exists>qc en'. handle_precommit E C held w en = Ret (Some qc) en'"
proof (cases rule: handle_precommit_Ret [OF assms(3)])
  case (2 whole backing en3 h)
  have "vote_power E (active_validators C (en_db en))
      (votes_for (v_block_hash w) (record_vote w (precommits en))) = Some backing"
    using 2(2) vote_power_cong [OF votes_for_record_validators [OF assms(1,2)]] assms(1) by metis
  moreover obtain fn3 where "commit_proposed E C (v_block_hash w)
      (en\<lparr>precommits := record_vote w (precommits en), en_step := Commit\<rparr>) = Ret () fn3"
    using commit_proposed_transfer [OF 2(6), of "en\<lparr>precommits := record_vote w (precommits en), en_step := Commit\<rparr>"]
      assms(1) by auto
  moreover have "add_ck (prof E) (cur_height en) 1 = Some h"
    using 2(7) commit_proposed_keeps(1) [OF 2(6)] by simp
  ultimately show ?thesis using 2(1,3-5,8,9) by (blast intro: handle_precommit_SomeI)
qed simp

section \<open>Properties\<close>

text \<open>
  C25: every state an engine reaches from a fresh start through submissions, proposals and
  votes holds at most one vote of each validator under each block hash, a pool whose indexes
  agree, and, as proposed block, only a block whose Merkle root and signatures check.
\<close>
theorem engine_reachable:
  assumes "engine_new E kp db mp chain = Some en0" and "om_ok (kv_map (db_kv db))"
    and "pool_reach E C config mp" and "engine_reach E C en0 en"
  shows "(\<forall>h. distinct (map v_validator (votes_for h (prevotes en))) \<and>
         distinct (map v_validator (votes_for h (precommits en))) \<and>
         (\<forall>v \<in> set (votes_for h (precommits en)). v_block_hash v = h)) \<and>
    mp_inv E (en_pool en) \<and> mp_limits (en_pool en) \<and> en_step en \<noteq> Commit \<and>
    (\<forall>b. proposed_block en = Some b \<longrightarrow> validate_basic E b = Inr ())"
proof -
  have "engine_ok E en0" using engine_new_ok [OF assms(1,2)] pool_reach_inv [OF assms(3)] by blast
  then have "engine_ok E en" by (rule engine_reach_ok [OF assms(4)])
  then show ?thesis by (simp add: engine_ok_def votes_ok_def)
qed

text \<open>
  C1: a certificate the engine issues names the block, height and round it was voting on,
  its votes are for that block by pairwise distinct validators, its two power figures are
  the exact stake sums over the whole active set and over the voters in it, and the voters
  hold more than two thirds.
\<close>
theorem certificate_sound:
  assumes "engine_ok E en" and "total_stake (active_validators C (en_db en)) < 2 ^ 64"
    and "handle_precommit E C held v en = Ret (Some qc) en'"
  shows "qc_block_hash qc = v_block_hash v \<and> qc_height qc = cur_height en \<and> qc_round qc = cur_round en \<and>
    distinct (map v_validator (qc_votes qc)) \<and>
    (\<forall>w \<in> set (qc_votes qc). v_block_hash w = v_block_hash v) \<and>
    unat (qc_total_voting_power qc) = total_stake (active_validators C (en_db en)) \<and>
    unat (qc_signers_voting_power qc) =
      (\<Sum>a \<in> v_validator ` set (qc_votes qc). stake_of (active_validators C (en_db en)) a) \<and>
    2 * unat (qc_total_voting_power qc) < 3 * unat (qc_signers_voting_power qc)"
proof -
  note cert = certificate_stake [OF assms]
  then have "2 * unat (qc_total_voting_power qc) < 3 * unat (qc_signers_voting_power qc)"
    by (simp add: is_valid_quorum_def exceeds_two_thirds_unat split: if_splits)
  with cert show ?thesis unfolding voters_def by blast
qed

text \<open>
  C2: two certificates issued over the same validator set share recorded voters that hold
  more than a third of its stake. So if the validators that ever let two votes be recorded
  hold at most a third, no two certificates name different blocks.
\<close>
theorem certificates_overlap:
  assumes "engine_ok E en" and "engine_ok E fn"
    and "active_validators C (en_db en) = vs" and "active_validators C (en_db fn) = vs"
    and "total_stake vs < 2 ^ 64"
    and "handle_precommit E C held v en = Ret (Some qc) en'"
    and "handle_precommit E C held' w fn = Ret (Some qc') fn'"
  shows "total_stake vs < 3 * (\<Sum>a \<in> voters (qc_votes qc) \<inter> voters (qc_votes qc'). stake_of vs a) \<and>
    (F \<subseteq> members vs \<and> 3 * (\<Sum>a \<in> F. stake_of vs a) \<le> total_stake vs \<longrightarrow>
       (\<exists>a. a \<notin> F \<and> a \<in> voters (qc_votes qc) \<and> a \<in> voters (qc_votes qc')))"
proof -
  let ?A = "voters (qc_votes qc) \<inter> members vs" and ?B = "voters (qc_votes qc') \<inter> members vs"
  have maj: "2 * sum (stake_of vs) (members vs) < 3 * sum (stake_of vs) ?A"
    "2 * sum (stake_of vs) (members vs) < 3 * sum (stake_of vs) ?B"
    using certificate_majority [OF assms(1) _ assms(6)] certificate_majority [OF assms(2) _ assms(7)]
      assms(3-5) by simp_all
  have ts: "total_stake vs = sum (stake_of vs) (members vs)"
    using assms(1,3) total_stake_members [OF distinct_active_validators, of "en_db en" C]
    by (simp add: engine_ok_def)
  have "sum (stake_of vs) (?A \<inter> ?B) \<le> sum (stake_of vs) (voters (qc_votes qc) \<inter> voters (qc_votes qc'))"
    by (intro sum_mono2) (auto simp: voters_def)
  with validator_quorum.quorum_overlap [OF _ _ maj] ts
  have "total_stake vs < 3 * sum (stake_of vs) (voters (qc_votes qc) \<inter> voters (qc_votes qc'))"
    by simp
  moreover have "\<exists>a. a \<notin> F \<and> a \<in> voters (qc_votes qc) \<and> a \<in> voters (qc_votes qc')"
    if "F \<subseteq> members vs" "3 * sum (stake_of vs) F \<le> total_stake vs"
    using validator_quorum.quorum_honest_overlap [OF _ _ that(1) maj] that(2) ts by auto
  ultimately show ?thesis by blast
qed

text \<open>
  C7: the precommit that completes a quorum for the proposed block commits it, whether its call
  returns or waits for ever: the stored ledger is the one the block's transactions lead to, and
  the block is found under its height. Either the call waits in the mempool, before the height
  moves, or none of the transactions stays in the pool and the engine is at the next height,
  round 0, without a proposal; if the call returns, with the certificate, all votes are gone too.
  With the lock the crate documents it does not return.
\<close>
theorem commit_effect:
  assumes "engine_ok E en" and "account_codec_laws C"
    and "proposed_block en = Some b" and "block_hash E b = v_block_hash v"
    and "block_dec C (block_enc C b) = Some b"
    and "handle_precommit E C held v en \<in> {Ret (Some qc) en', Blocked en'}"
  shows "get_account C (en_db en') = fold ledger_step (b_transactions b) (get_account C (en_db en)) \<and>
    get_block_by_height C (en_db en') (h_height (b_header b)) = Some b \<and>
    get_latest_height (en_db en') = h_height (b_header b) \<and>
    (handle_precommit E C held v en = Blocked en' \<and> cur_height en' = cur_height en \<and> \<not> locks E [ReadGuard] WriteGuard \<or>
     (\<forall>tx \<in> set (b_transactions b). get_transaction (tx_hash E tx) (en_pool en') = None) \<and>
       cur_height en' = cur_height en + 1 \<and> cur_round en' = 0 \<and> en_step en' = NewRound \<and> proposed_block en' = None) \<and>
    (handle_precommit E C held v en = Ret (Some qc) en' \<longrightarrow>
       prevotes en' = [] \<and> precommits en' = [] \<and> last_qc en' = Some qc) \<and>
    (exclusive_writes (locks E) \<longrightarrow> handle_precommit E C held v en = Blocked en')"
proof -
  have ok: "om_ok (kv_map (db_kv (en_db en)))" "mp_inv E (en_pool en)"
    using assms(1) by (simp_all add: engine_ok_def)
  obtain ov mp where ov: "engine_execute_all E C (en_db en) (b_transactions b) [] = Some ov"
    and db: "en_db en' = write_all E C ov b (h_height (b_header b)) (en_db en)" and pool: "en_pool en' = mp"
    and cases: "(remove_committed E (b_transactions b) (en_pool en) = Blocked mp \<and> handle_precommit E C held v en = Blocked en' \<and>
        cur_height en' = cur_height en) \<or>
     (remove_committed E (b_transactions b) (en_pool en) = Ret () mp \<and> cur_height en' = cur_height en + 1 \<and>
        cur_round en' = 0 \<and> en_step en' = NewRound \<and> proposed_block en' = None \<and> last_qc en' \<noteq> None)"
    by (rule precommit_decides [OF assms(6,3,4)])
  have "get_account C (en_db en') = fold ledger_step (b_transactions b) (get_account C (en_db en))"
    using engine_execute_all_step [OF ov] ok(1) assms(2)
    by (auto simp: db fun_eq_iff get_account_write_all account_codec_laws_def map_of_rev_hm overlay_get_def)
  moreover have "get_block_by_height C (en_db en') (h_height (b_header b)) = Some b"
    "get_latest_height (en_db en') = h_height (b_header b)"
    using ok(1) assms(5) by (simp_all add: db get_block_by_height_write_all get_latest_height_write_all)
  moreover have "\<forall>tx \<in> set (b_transactions b). get_transaction (tx_hash E tx) (en_pool en') = None"
    if "remove_committed E (b_transactions b) (en_pool en) = Ret () mp"
    using remove_committed_keeps [OF ok(2) that] by (simp add: get_transaction_def pool)
  moreover have "prevotes en' = [] \<and> precommits en' = [] \<and> last_qc en' = Some qc"
    if "handle_precommit E C held v en = Ret (Some qc) en'"
    by (cases rule: handle_precommit_Ret [OF that]) auto
  moreover have "handle_precommit E C held v en \<noteq> Ret (Some qc) en'" if "exclusive_writes (locks E)"
    using precommit_stuck [OF that] by blast
  ultimately show ?thesis using cases remove_committed_Blocked assms(6) by blast
qed

text \<open>
  A quorum for a block the engine does not hold commits nothing, yet the engine issues
  the certificate, forgets its proposal and all votes and moves to the next height: the
  chain keeps no block at the height it left.
\<close>
theorem commit_without_block:
  assumes "\<forall>b. proposed_block en = Some b \<longrightarrow> block_hash E b \<noteq> v_block_hash v"
    and "handle_precommit E C held v en = Ret (Some qc) en'"
  shows "en_db en' = en_db en \<and> en_pool en' = en_pool en \<and> cur_height en' = cur_height en + 1 \<and>
    proposed_block en' = None \<and> precommits en' = [] \<and> last_qc en' = Some qc"
proof (cases rule: handle_precommit_Ret [OF assms(2)])
  case (2 whole backing en3 h)
  let ?en = "en\<lparr>precommits := record_vote v (precommits en), en_step := Commit\<rparr>"
  have "en3 = ?en" using assms(1) by (cases rule: commit_proposed_Ret [OF 2(6)]) auto
  with 2(7,10) show ?thesis by (auto simp: 2(11) dest: add_ck_SomeD)
qed simp

text \<open>
  C33: with the lock the crate documents, the handler that completes a quorum waits for the
  vote lists it has locked itself. So an engine all of whose calls so far have returned,
  whatever proposals, votes and submissions it handled, is at the height, round and stored
  state it started with and has issued no certificate, and so it is after any further vote it
  returns from; a vote that changes the stored state or the height does not return.
\<close>
theorem consensus_self_deadlock:
  assumes "exclusive_writes (locks E)" and "engine_reach E C en0 en"
  shows "cur_height en = cur_height en0 \<and> cur_round en = cur_round en0 \<and> en_db en = en_db en0 \<and>
    last_qc en = last_qc en0 \<and>
    (handle_precommit E C held v en = Ret r en' \<longrightarrow> r = None \<and> cur_height en' = cur_height en0 \<and> en_db en' = en_db en0)"
  using reach_stuck [OF assms(2,1)] precommit_stuck [OF assms(1), of C held v en r en']
  by (auto simp: same_chain_def)

text \<open>
  What the precommit handler decides depends only on the block hash and the validator a
  vote names: a vote with any other signature, key, height, round or phase, valid or not, is
  recorded and counted alike.
\<close>
theorem precommit_unauthenticated:
  assumes "v_block_hash w = v_block_hash v" and "v_validator w = v_validator v"
  shows "(\<exists>qc en'. handle_precommit E C held w en = Ret (Some qc) en') \<longleftrightarrow>
    (\<exists>qc en'. handle_precommit E C held v en = Ret (Some qc) en')"
  using precommit_transfer [OF assms, of E C held en]
    precommit_transfer [OF assms(1,2) [symmetric], of E C held en] by blast

text \<open>
  C24: a block the engine proposes passes the structural check of every receiver, carries the
  proposer's verifying signature, extends the stored block one below its height and stays
  within one megabyte of transactions; its state root is that of the state before them.
\<close>
theorem proposal_correct:
  assumes "engine_ok E en" and "ed25519_laws E" and "kp_ok E (en_keypair en)"
    and "create_proposal E C now en = Ret (Inr b) en'"
  shows "validate_basic E b = Inr () \<and>
    header_verify_signature E (b_header b) (kp_public (en_keypair en)) = Inr () \<and>
    h_height (b_header b) = cur_height en \<and> h_round (b_header b) = cur_round en \<and>
    (\<exists>prev. get_block_by_height C (en_db en) (cur_height en - 1) = Some prev \<and>
       h_prev_hash (b_header b) = block_hash E prev) \<and>
    sum_list (map size_bytes (b_transactions b)) \<le> 1048576 \<and>
    h_state_root (b_header b) = get_state_root E (en_db en) \<and>
    proposed_block en' = Some b \<and> en_db en' = en_db en"
proof (cases rule: create_proposal_Ret [OF assms(4)])
  case (2 proposer parent prev_block time h b')
  have b: "b' = b" using 2(8) by simp
  have "engine_ok E en'" by (rule create_proposal_ok [OF assms(1,4)])
  then have "validate_basic E b = Inr ()" by (simp add: 2(9) engine_ok_def b)
  moreover have "parent = cur_height en - 1" using 2(3) by (simp add: sub_ck_def split: if_splits)
  moreover have "sum_list (map size_bytes (harvest (1024 * 1024) (en_pool en))) \<le> 1048576"
    using harvest_loop_size [of 0 1048576 "en_pool en" "rev (priority_index (en_pool en))"]
    by (simp add: harvest_def size_sum_def)
  moreover have "header_verify_signature E h (kp_public (en_keypair en)) = Inr ()"
    using 2(6) pk_verify_kp_sign [OF assms(2,3)]
    by (auto simp: header_verify_signature_def header_sign_Inr)
  ultimately show ?thesis
    using 2(4,6) by (auto simp: 2(7) 2(9) b [symmetric] header_sign_Inr)
qed simp

text \<open>
  A received proposal is refused exactly when its height, its round or its structural
  check fails, leaving the engine as it was. The proposer, the header's signature, the parent
  hash and the state root are not looked at: changing them changes nothing of the answer.
\<close>
theorem handle_proposal_exact:
  shows "((\<exists>e en'. handle_proposal E C b en = Ret (Inl e) en') \<longleftrightarrow>
      \<not> (h_height (b_header b) = cur_height en \<and> h_round (b_header b) = cur_round en \<and>
          validate_basic E b = Inr ())) \<and>
    (\<forall>p s a g.
       (\<exists>e en'. handle_proposal E C (b\<lparr>b_header := (b_header b)\<lparr>h_prev_hash := p, h_state_root := s,
          h_proposer := a, h_signature := g\<rparr>\<rparr>) en = Ret (Inl e) en') =
       (\<exists>e en'. handle_proposal E C b en = Ret (Inl e) en'))"
proof -
  have refused: "(\<exists>e en'. handle_proposal E C b en = Ret (Inl e) en') \<longleftrightarrow>
      \<not> (h_height (b_header b) = cur_height en \<and> h_round (b_header b) = cur_round en \<and>
          validate_basic E b = Inr ())" for b
  proof (cases "h_height (b_header b) = cur_height en \<and> h_round (b_header b) = cur_round en \<and>
      validate_basic E b = Inr ()")
    case True
    then show ?thesis by (auto simp: handle_proposal_def Let_def andThen_Ret_iff)
  next
    case False
    then have "handle_proposal E C b en = Ret (Inl InvalidProposal) en"
      by (cases "validate_basic E b") (auto simp: handle_proposal_def)
    with False show ?thesis by blast
  qed
  then show ?thesis by (simp add: refused) (simp add: validate_basic_Inr compute_merkle_root_def)
qed
section \<open>Examples\<close>

definition seat :: account where
  "seat = \<lparr>balance = 0, nonce = 0, staked_amount = 300, is_validator = True,
     validator_pubkey = Some (PublicKey 7)\<rparr>"

definition own_address :: address where
  "own_address = address_from_pubkey fee_env (PublicKey 7)"

definition val_db :: state_db where
  "val_db = snd (commit_block fee_env fee_codec (sample_block []) [(own_address, seat)] memory_db)"

definition val_engine :: engine where
  "val_engine =
     \<lparr>en_keypair = keypair_from_secret_bytes fee_env 7, en_address = own_address, en_db = val_db,
      en_pool = mempool_new tiny_config, en_chain_id = ''aura'', cur_height = 2, cur_round = 0,
      en_step = NewRound, proposed_block = Some (sample_block []), prevotes = [], precommits = [],
      last_qc = None\<rparr>"

definition seat_vote :: "hash \<Rightarrow> vote" where
  "seat_vote h = vote_new_signed fee_env h 2 0 PreCommitType (keypair_from_secret_bytes fee_env 7)"

lemma seat_vote_simps [simp]: "v_block_hash (seat_vote h) = h" "v_validator (seat_vote h) = own_address"
  by (simp_all add: seat_vote_def vote_new_signed_def Let_def own_address_def
      keypair_from_secret_bytes_def fee_env_def)

lemma om_ok_val_db: "om_ok (kv_map (db_kv val_db))"
  by (simp add: val_db_def commit_block_write_all om_ok_write_all)

lemma kv_get_memory [simp]: "kv_get (db_kv memory_db) k = None"
  by (simp add: memory_db_def open_in_memory_def kv_get_def)

lemma distinct_singleton: "distinct xs \<Longrightarrow> set xs = {x} \<Longrightarrow> xs = [x]"
  by (cases xs; cases "tl xs") auto

lemma active_val_db: "active_validators fee_codec val_db = [\<lparr>vi_address = own_address, vi_pubkey = PublicKey 7, vi_power = 300\<rparr>]"
proof -
  have "(a, acc) \<in> set (get_validators fee_codec val_db) \<longleftrightarrow> (a, acc) = (own_address, seat)" for a acc
    unfolding get_validators_iff [OF om_ok_val_db]
    using account_codec_laws_toy [of "sample_block []"]
    by (auto simp: val_db_def commit_block_write_all kv_get_write_account fee_codec_def
        account_codec_laws_def seat_def)
  then have "set (get_validators fee_codec val_db) = {(own_address, seat)}" by auto
  moreover have "distinct (get_validators fee_codec val_db)"
    using distinct_get_validators [OF om_ok_val_db, of fee_codec] by (simp add: distinct_map)
  ultimately have "get_validators fee_codec val_db = [(own_address, seat)]"
    by (intro distinct_singleton)
  then show ?thesis
    by (simp add: active_validators_def map_filter_simps seat_def)
qed

lemma engine_ok_val: "engine_ok fee_env val_engine"
  using mp_inv_new [of fee_env tiny_config] om_ok_val_db
  by (simp add: engine_ok_def val_engine_def own_address_def keypair_from_secret_bytes_def
      validate_basic_Inr sample_block_def compute_merkle_root_def from_leaf_hashes_def tree_root_def
      fee_env_def)

lemma commit_block_memory:
  assumes "kv_path (db_kv db) = None"
  shows "\<exists>h. commit_block E C b ov db = (Inr h, write_all E C ov b (h_height (b_header b)) db)"
  using assms commit_block_write_all [of E C b ov db]
  by (simp add: commit_block_def Let_def apply_batch_def persist_memory case_prod_beta)

lemma val_db_path: "kv_path (db_kv val_db) = None"
  by (simp add: val_db_def commit_block_write_all write_all_def apply_batch_def memory_db_def
      open_in_memory_def)

abbreviation val_hash :: hash where
  "val_hash \<equiv> block_hash fee_env (sample_block [])"

lemma fee_env_locks: "locks fee_env = reentrant" "prof fee_env = Debug"
  by (simp_all add: fee_env_def)

lemma val_commits:
  assumes "en = val_engine \<or> en = val_engine\<lparr>proposed_block := None\<rparr>"
  shows "\<exists>qc en'. handle_precommit fee_env fee_codec [] (seat_vote val_hash) en = Ret (Some qc) en'"
proof -
  have f: "en_db en = val_db" "precommits en = []" "en_step en = NewRound" "cur_height en = 2"
    using assms by (auto simp: val_engine_def)
  have l: "votes_for val_hash (record_vote (seat_vote val_hash) []) = [seat_vote val_hash]"
    by (simp add: votes_for_record) (simp add: votes_for_def voters_def)
  have "commit_proposed fee_env fee_codec val_hash
      (en\<lparr>precommits := record_vote (seat_vote val_hash) (precommits en), en_step := Commit\<rparr>) \<in>
      range (Ret ())"
  proof -
    obtain h where "commit_block fee_env fee_codec (sample_block []) [] val_db =
        (Inr h, write_all fee_env fee_codec [] (sample_block []) (h_height (b_header (sample_block []))) val_db)"
      using commit_block_memory [OF val_db_path] by blast
    moreover have "b_transactions (sample_block []) = []" by (simp add: sample_block_def)
    ultimately show ?thesis
      using assms by (auto simp: commit_proposed_def val_engine_def Let_def)
  qed
  then obtain en3 where "commit_proposed fee_env fee_codec (v_block_hash (seat_vote val_hash))
      (en\<lparr>precommits := record_vote (seat_vote val_hash) (precommits en), en_step := Commit\<rparr>) = Ret () en3"
    by auto
  then show ?thesis
    by (rule handle_precommit_SomeI [where whole = 300 and backing = 300, rotated 5])
       (simp_all add: f active_val_db total_power_def vote_power_def sum_ck_def add_ck_def l
         map_filter_simps fee_env_locks exceeds_two_thirds_unat word_less_nat_alt)
qed

lemma val_engine_new: "engine_new fee_env (keypair_from_secret_bytes fee_env 7) val_db
    (mempool_new tiny_config) ''aura'' = Some (val_engine\<lparr>proposed_block := None\<rparr>)"
  by (simp add: engine_new_def val_engine_def val_db_def commit_block_write_all
      get_latest_height_write_all sample_block_def sample_header_def header_new_unsigned_def
      add_ck_def own_address_def keypair_from_secret_bytes_def fee_env_def)

lemma val_stake: "total_stake (active_validators fee_codec (en_db val_engine)) < 2 ^ 64"
  by (simp add: val_engine_def active_val_db total_stake_def)

theorem engine_reachable_witness:
  "\<exists>qc en'. handle_precommit fee_env fee_codec [] (seat_vote val_hash) (val_engine\<lparr>proposed_block := None\<rparr>) = Ret (Some qc) en' \<and>
     engine_reach fee_env fee_codec (val_engine\<lparr>proposed_block := None\<rparr>) en' \<and> mp_inv fee_env (en_pool en') \<and>
     en_step en' \<noteq> Commit"
proof -
  obtain qc en' where run: "handle_precommit fee_env fee_codec [] (seat_vote val_hash)
      (val_engine\<lparr>proposed_block := None\<rparr>) = Ret (Some qc) en'"
    using val_commits by blast
  note reach = engine_precommit [OF engine_start run]
  from engine_reachable [OF val_engine_new om_ok_val_db pool_new reach] run reach show ?thesis by blast
qed

theorem certificate_sound_witness:
  "\<exists>qc en'. handle_precommit fee_env fee_codec [] (seat_vote val_hash) val_engine = Ret (Some qc) en' \<and>
     qc_height qc = 2 \<and> qc_block_hash qc = val_hash"
proof -
  obtain qc en' where "handle_precommit fee_env fee_codec [] (seat_vote val_hash) val_engine = Ret (Some qc) en'"
    using val_commits by blast
  with certificate_sound [OF engine_ok_val val_stake this] show ?thesis
    by (auto simp: val_engine_def)
qed

theorem certificates_overlap_witness:
  "\<exists>qc en'. handle_precommit fee_env fee_codec [] (seat_vote val_hash) val_engine = Ret (Some qc) en' \<and>
     total_stake (active_validators fee_codec val_db) <
       3 * (\<Sum>a \<in> voters (qc_votes qc). stake_of (active_validators fee_codec val_db) a)"
proof -
  obtain qc en' where run:
    "handle_precommit fee_env fee_codec [] (seat_vote val_hash) val_engine = Ret (Some qc) en'"
    using val_commits by blast
  have db: "en_db val_engine = val_db" by (simp add: val_engine_def)
  from certificates_overlap [OF engine_ok_val engine_ok_val refl refl val_stake run run] run db
  show ?thesis by auto
qed

text \<open>The same environment with the documented lock.\<close>

definition locked_env :: env where
  "locked_env = fee_env\<lparr>locks := rwlock\<rparr>"

lemma locked_same:
  "locks locked_env = rwlock" "prof locked_env = Debug" "blake3 locked_env = blake3 fee_env"
  "address_from_pubkey locked_env = address_from_pubkey fee_env" "block_hash locked_env = block_hash fee_env"
  "tx_hash locked_env = tx_hash fee_env" "tx_verify locked_env = tx_verify fee_env"
  "validate_stateless locked_env = validate_stateless fee_env"
  "keypair_from_secret_bytes locked_env = keypair_from_secret_bytes fee_env" "key_hash locked_env = key_hash fee_env"
  by (simp_all add: locked_env_def fee_env_locks fun_eq_iff address_from_pubkey_def hash_with_domain_def hash_bytes_def
      block_hash_def header_hash_def tx_hash_def tx_verify_def pk_verify_def validate_stateless_def Let_def
      keypair_from_secret_bytes_def key_hash_def)

lemma write_all_locked: "write_all locked_env = write_all fee_env"
proof -
  have tree: "smt_update locked_env = smt_update fee_env"
    by (simp add: fun_eq_iff locked_same smt_update_def hash_smt_leaf_def hash_with_domain_def)
  show ?thesis
    unfolding write_all_def [abs_def] block_entries_def [abs_def] locked_same tree ..
qed

lemma locked_ok: "engine_ok locked_env val_engine" "exclusive_writes (locks locked_env)"
  using engine_ok_val mp_inv_new [of locked_env tiny_config]
  by (simp_all add: engine_ok_def locked_same exclusive_writes_rwlock validate_basic_Inr val_engine_def sample_block_def
      compute_merkle_root_def from_leaf_hashes_def)

lemma val_waits: "\<exists>en'. handle_precommit locked_env fee_codec [] (seat_vote val_hash) val_engine = Blocked en'"
proof -
  let ?en = "val_engine\<lparr>precommits := record_vote (seat_vote val_hash) (precommits val_engine), en_step := Commit\<rparr>"
  have f: "en_db val_engine = val_db" "precommits val_engine = []" "en_step val_engine = NewRound" "cur_height val_engine = 2"
    by (simp_all add: val_engine_def)
  have l: "votes_for val_hash (record_vote (seat_vote val_hash) []) = [seat_vote val_hash]"
    by (simp add: votes_for_record) (simp add: votes_for_def voters_def)
  have power: "total_power locked_env (active_validators fee_codec val_db) = Some 300"
    "vote_power locked_env (active_validators fee_codec val_db) [seat_vote val_hash] = Some 300"
    by (simp_all add: active_val_db total_power_def vote_power_def sum_ck_def add_ck_def map_filter_simps locked_same)
  obtain h where "commit_block locked_env fee_codec (sample_block []) [] val_db =
      (Inr h, write_all locked_env fee_codec [] (sample_block []) (h_height (b_header (sample_block []))) val_db)"
    using commit_block_memory [OF val_db_path] by blast
  then obtain en3 where c: "commit_proposed locked_env fee_codec val_hash ?en = Ret () en3" "cur_height en3 = 2"
    by (simp add: commit_proposed_def val_engine_def Let_def locked_same sample_block_def)
  have "\<exists>en'. advance_height locked_env [] qc en3 = Blocked en'" for qc
    by (simp add: advance_height_def Let_def locked_same c(2) add_ck_def rwlock_def)
  with c(1) power show ?thesis
    by (simp add: handle_precommit_def Let_def f l exceeds_two_thirds_unat)
qed

theorem commit_effect_witness:
  "(\<exists>qc en'. handle_precommit fee_env fee_codec [] (seat_vote val_hash) val_engine = Ret (Some qc) en' \<and>
     cur_height en' = 3 \<and> precommits en' = []) \<and>
   (\<exists>en'. handle_precommit locked_env fee_codec [] (seat_vote val_hash) val_engine = Blocked en' \<and>
     get_latest_height (en_db en') = 1 \<and> get_block_by_height fee_codec (en_db en') 1 = Some (sample_block []))"
proof -
  have laws: "account_codec_laws fee_codec" by (simp add: fee_codec_def account_codec_laws_toy)
  have held: "proposed_block val_engine = Some (sample_block [])" by (simp add: val_engine_def)
  have dec: "block_dec fee_codec (block_enc fee_codec (sample_block [])) = Some (sample_block [])"
    by (simp add: fee_codec_def)
  obtain qc en' where run: "handle_precommit fee_env fee_codec [] (seat_vote val_hash) val_engine = Ret (Some qc) en'"
    using val_commits by blast
  obtain fn where wait: "handle_precommit locked_env fee_codec [] (seat_vote val_hash) val_engine = Blocked fn"
    using val_waits by blast
  have "h_height (b_header (sample_block [])) = 1" "b_transactions (sample_block []) = []" "cur_height val_engine = 2"
    by (simp_all add: sample_block_def sample_header_def header_new_unsigned_def val_engine_def)
  then show ?thesis
    using commit_effect [OF engine_ok_val laws held _ dec, of "seat_vote val_hash" "[]" qc en'] run
      commit_effect [OF locked_ok(1) laws held _ dec, of "seat_vote val_hash" "[]" qc fn] wait
    by (auto simp: locked_same fee_env_locks)
qed

theorem commit_without_block_witness:
  "\<exists>qc en'. handle_precommit fee_env fee_codec [] (seat_vote val_hash)
       (val_engine\<lparr>proposed_block := None\<rparr>) = Ret (Some qc) en' \<and>
     en_db en' = val_db \<and> cur_height en' = 3"
proof -
  obtain qc en' where run: "handle_precommit fee_env fee_codec [] (seat_vote val_hash)
       (val_engine\<lparr>proposed_block := None\<rparr>) = Ret (Some qc) en'"
    using val_commits by blast
  have "proposed_block (val_engine\<lparr>proposed_block := None\<rparr>) = None"
    "en_db (val_engine\<lparr>proposed_block := None\<rparr>) = val_db"
    "cur_height (val_engine\<lparr>proposed_block := None\<rparr>) = 2" by (simp_all add: val_engine_def)
  with commit_without_block [OF _ run] have "en_db en' = val_db" "cur_height en' = 3" by simp_all
  with run show ?thesis by blast
qed

theorem consensus_self_deadlock_witness:
  "exclusive_writes (locks locked_env) \<and>
   \<not> (\<exists>qc en'. handle_precommit locked_env fee_codec [] (seat_vote val_hash) val_engine = Ret (Some qc) en')"
proof -
  from consensus_self_deadlock [OF locked_ok(2) engine_start] locked_ok(2) show ?thesis by blast
qed

theorem precommit_unauthenticated_witness:
  "\<exists>qc en'. handle_precommit fee_env fee_codec [] (seat_vote val_hash\<lparr>v_signature := Signature 0, v_height := 99\<rparr>)
     val_engine = Ret (Some qc) en'"
proof -
  let ?w = "seat_vote val_hash\<lparr>v_signature := Signature 0, v_height := 99\<rparr>"
  have "v_block_hash ?w = v_block_hash (seat_vote val_hash)"
    "v_validator ?w = v_validator (seat_vote val_hash)" by simp_all
  from precommit_unauthenticated [OF this] show ?thesis
    by (rule iffD2) (rule val_commits, simp)
qed

lemma ed25519_laws_fee: "ed25519_laws fee_env"
  by (simp add: ed25519_laws_def fee_env_def)

lemma val_proposes: "\<exists>b en'. create_proposal fee_env fee_codec (Some 9) val_engine = Ret (Inr b) en'"
proof -
  let ?vs = "[\<lparr>vi_address = own_address, vi_pubkey = PublicKey 7, vi_power = 300\<rparr>]"
  have "total_stake ?vs = 300" by (simp add: total_stake_def)
  with select_proposer_exists [of ?vs fee_env 2 0]
  have sel: "select_proposer fee_env 2 0 ?vs = Some (Some (?vs ! 0))" by auto
  have parent: "get_block_by_height fee_codec val_db 1 = Some (sample_block [])"
    by (simp add: val_db_def commit_block_write_all get_block_by_height_write_all fee_codec_def
        sample_block_def sample_header_def header_new_unsigned_def)
  have "harvest (1024 * 1024) (mempool_new tiny_config) = []"
    by (simp add: harvest_def mempool_new_def)
  moreover have "sub_ck Debug (2 :: u64) 1 = Some 1" by (simp add: sub_ck_def word_le_nat_alt)
  moreover have "address_from_pubkey fee_env (kp_public (keypair_from_secret_bytes fee_env 7)) = own_address"
    by (simp add: own_address_def keypair_from_secret_bytes_def fee_env_def)
  ultimately show ?thesis
    using sel parent
    by (simp add: create_proposal_def val_engine_def active_val_db Let_def fee_env_locks
        finish_proposal_def header_sign_def)
qed

theorem proposal_correct_witness:
  "\<exists>b en'. create_proposal fee_env fee_codec (Some 9) val_engine = Ret (Inr b) en' \<and>
     validate_basic fee_env b = Inr () \<and> h_height (b_header b) = 2"
proof -
  obtain b en' where run: "create_proposal fee_env fee_codec (Some 9) val_engine = Ret (Inr b) en'"
    using val_proposes by blast
  have "kp_ok fee_env (en_keypair val_engine)" by (simp add: val_engine_def)
  from proposal_correct [OF engine_ok_val ed25519_laws_fee this run] run
  have "validate_basic fee_env b = Inr ()" "h_height (b_header b) = 2" by (auto simp: val_engine_def)
  with run show ?thesis by blast
qed

end
