(* ===== verification/Peers.thy ===== *)
theory Peers
  imports Consensus
begin

text \<open>
  \<open>aura-network/src/peer.rs\<close> and \<open>protocol.rs\<close>: the peers a node knows, their reputation
  scores and bans, and the messages nodes exchange. A score is an \<open>i32\<close>: a 32-bit word read
  through \<open>sint\<close>. The map of peers is behind one lock that no operation takes twice.
\<close>

section \<open>Signed arithmetic\<close>

type_synonym i32 = "32 word"

text \<open>\<open>+\<close> and \<open>-\<close> on \<open>i32\<close>: \<open>None\<close> is the overflow panic of a debug build.\<close>

definition sadd_ck :: "profile \<Rightarrow> i32 \<Rightarrow> i32 \<Rightarrow> i32 option" where
  "sadd_ck p a b =
     (if p = Release \<or> (- (2 ^ 31) \<le> sint a + sint b \<and> sint a + sint b < 2 ^ 31)
      then Some (a + b) else None)"

definition ssub_ck :: "profile \<Rightarrow> i32 \<Rightarrow> i32 \<Rightarrow> i32 option" where
  "ssub_ck p a b =
     (if p = Release \<or> (- (2 ^ 31) \<le> sint a - sint b \<and> sint a - sint b < 2 ^ 31)
      then Some (a - b) else None)"

section \<open>Peers\<close>

datatype peer_id = PeerId (peer_word: "256 word")

text \<open>The 32 bytes drawn from the random generator, in order.\<close>

definition peer_id_random :: "bytes \<Rightarrow> peer_id" where
  "peer_id_random drawn = PeerId (of_be_bytes drawn)"

datatype socket_addr = SocketV4 u32 u16 | SocketV6 "128 word" u16 u32 u32

record peer_info =
  pr_id :: peer_id
  pr_addr :: "socket_addr option"
  best_height :: u64
  best_hash :: hash
  reputation_score :: i32
  is_banned :: bool

type_synonym peer_manager = "(peer_id \<times> peer_info) list"

definition peer_manager_new :: peer_manager where
  "peer_manager_new = []"

definition add_peer :: "peer_info \<Rightarrow> peer_manager \<Rightarrow> peer_manager" where
  "add_peer peer pm = hm_insert (pr_id peer) peer pm"

definition remove_peer :: "peer_id \<Rightarrow> peer_manager \<Rightarrow> peer_manager" where
  "remove_peer i pm = hm_remove i pm"

definition update_status :: "peer_id \<Rightarrow> u64 \<Rightarrow> hash \<Rightarrow> peer_manager \<Rightarrow> peer_manager" where
  "update_status i height h pm =
     (case hm_get pm i of
        None \<Rightarrow> pm
      | Some peer \<Rightarrow> hm_insert i (peer\<lparr>best_height := height, best_hash := h\<rparr>) pm)"

definition penalize :: "env \<Rightarrow> peer_id \<Rightarrow> i32 \<Rightarrow> peer_manager \<Rightarrow> (unit, peer_manager) outcome" where
  "penalize E i penalty pm =
     (case hm_get pm i of
        None \<Rightarrow> Ret () pm
      | Some peer \<Rightarrow>
          or_panic (ssub_ck (prof E) (reputation_score peer) penalty) pm (\<lambda>score.
            let peer = peer\<lparr>reputation_score := score\<rparr>;
                peer = (if sint score < -100 then peer\<lparr>is_banned := True\<rparr> else peer)
            in Ret () (hm_insert i peer pm)))"

definition reward :: "env \<Rightarrow> peer_id \<Rightarrow> i32 \<Rightarrow> peer_manager \<Rightarrow> (unit, peer_manager) outcome" where
  "reward E i bonus pm =
     (case hm_get pm i of
        None \<Rightarrow> Ret () pm
      | Some peer \<Rightarrow>
          or_panic (sadd_ck (prof E) (reputation_score peer) bonus) pm (\<lambda>score.
            Ret () (hm_insert i (peer\<lparr>reputation_score := if sint score \<le> 100 then score else 100\<rparr>) pm)))"

text \<open>\<open>Iterator::max_by_key\<close> keeps the last of several greatest elements.\<close>

fun max_by_key :: "('a \<Rightarrow> 'b::linorder) \<Rightarrow> 'a list \<Rightarrow> 'a option" where
  "max_by_key f [] = None"
| "max_by_key f (x # xs) =
     (case max_by_key f xs of
        None \<Rightarrow> Some x
      | Some y \<Rightarrow> if f x > f y then Some x else Some y)"

definition active_peers :: "peer_manager \<Rightarrow> peer_info list" where
  "active_peers pm = filter (\<lambda>p. \<not> is_banned p) (map snd pm)"

definition get_highest_peer :: "peer_manager \<Rightarrow> peer_info option" where
  "get_highest_peer pm = max_by_key best_height (active_peers pm)"

definition active_peer_count :: "peer_manager \<Rightarrow> nat" where
  "active_peer_count pm = length (active_peers pm)"

section \<open>Messages\<close>

datatype network_message =
    TxGossip transaction
  | BlockGossip block
  | ConsensusNet consensus_message
  | StatusRequest u64
  | StatusResponse u64 hash hash
  | BlockRequest u64 nat
  | BlockResponse "block list"
  | MerkleProofRequest u64 nat
  | MerkleProofResponse hash "merkle_proof option"

section \<open>Lemmas\<close>

lemma max_by_key_None [simp]: "max_by_key f xs = None \<longleftrightarrow> xs = []"
  by (cases xs) (auto split: option.splits)

lemma max_by_key_Some:
  "max_by_key f xs = Some x \<Longrightarrow> x \<in> set xs \<and> (\<forall>y \<in> set xs. f y \<le> f x)"
proof (induction xs arbitrary: x)
  case (Cons a xs)
  then show ?case
    by (cases "max_by_key f xs") (fastforce split: if_splits)+
qed simp

lemma sadd_ck_SomeD: "sadd_ck p a b = Some c \<Longrightarrow> c = a + b"
  by (simp add: sadd_ck_def split: if_splits)

lemma ssub_ck_SomeD: "ssub_ck p a b = Some c \<Longrightarrow> c = a - b"
  by (simp add: ssub_ck_def split: if_splits)

lemma ssub_ck_Debug:
  "ssub_ck Debug a b = Some c \<Longrightarrow> sint c = sint a - sint b"
  by (auto simp: ssub_ck_def sint_word_diff signed_take_bit_int_eq_self split: if_splits)

lemma sadd_ck_Debug:
  "sadd_ck Debug a b = Some c \<Longrightarrow> sint c = sint a + sint b"
  by (auto simp: sadd_ck_def sint_word_add signed_take_bit_int_eq_self split: if_splits)

text \<open>Every peer is kept under its own identifier.\<close>

definition peers_ok :: "peer_manager \<Rightarrow> bool" where
  "peers_ok pm \<longleftrightarrow> hm_ok pm \<and> (\<forall>(i, p) \<in> set pm. pr_id p = i)"

lemma peers_ok_get: "peers_ok pm \<Longrightarrow> hm_get pm i = Some p \<Longrightarrow> pr_id p = i"
  by (auto simp: peers_ok_def hm_get_iff)

lemma set_hm_insert: "set (hm_insert k v m) \<subseteq> insert (k, v) (set m)"
  unfolding hm_insert_def by (induction m) auto

lemma peers_ok_insert: "peers_ok pm \<Longrightarrow> pr_id p = i \<Longrightarrow> peers_ok (hm_insert i p pm)"
  using set_hm_insert [of i p pm] by (fastforce simp: peers_ok_def hm.ok_insert)

lemma active_peers_iff:
  "peers_ok pm \<Longrightarrow> p \<in> set (active_peers pm) \<longleftrightarrow> hm_get pm (pr_id p) = Some p \<and> \<not> is_banned p"
  by (force simp: active_peers_def peers_ok_def hm_get_iff)

section \<open>Runs\<close>

datatype peer_op =
    AddPeer peer_info
  | RemovePeer peer_id
  | UpdateStatus peer_id u64 hash
  | Penalize peer_id i32
  | Reward peer_id i32

fun peer_apply :: "env \<Rightarrow> peer_op \<Rightarrow> peer_manager \<Rightarrow> (unit, peer_manager) outcome" where
  "peer_apply E (AddPeer p) pm = Ret () (add_peer p pm)"
| "peer_apply E (RemovePeer i) pm = Ret () (remove_peer i pm)"
| "peer_apply E (UpdateStatus i n h) pm = Ret () (update_status i n h pm)"
| "peer_apply E (Penalize i n) pm = penalize E i n pm"
| "peer_apply E (Reward i n) pm = reward E i n pm"

inductive peer_run :: "env \<Rightarrow> peer_manager \<Rightarrow> peer_op list \<Rightarrow> peer_manager \<Rightarrow> bool" for E pm0 where
  run_start: "peer_run E pm0 [] pm0"
| run_step: "peer_run E pm0 ops pm \<Longrightarrow> peer_apply E op pm = Ret () pm' \<Longrightarrow> peer_run E pm0 (ops @ [op]) pm'"

fun touches :: "peer_id \<Rightarrow> peer_op \<Rightarrow> bool" where
  "touches i (AddPeer p) \<longleftrightarrow> pr_id p = i"
| "touches i (RemovePeer j) \<longleftrightarrow> j = i"
| "touches i op \<longleftrightarrow> False"

lemmas peer_op_defs = add_peer_def remove_peer_def update_status_def penalize_def reward_def

lemma peer_apply_ok:
  assumes "peer_apply E op pm = Ret () pm'" and "peers_ok pm"
  shows "peers_ok pm'"
proof -
  have rm: "peers_ok (hm_remove i pm)" for i
    using assms(2) by (auto simp: peers_ok_def hm.ok_remove set_hm_remove)
  show ?thesis
    using assms
    by (cases op)
       (auto simp: peer_op_defs or_panic_Ret_iff Let_def rm peers_ok_get intro!: peers_ok_insert
         split: option.splits)
qed

lemma peer_apply_banned:
  assumes "peer_apply E op pm = Ret () pm'" and "\<not> touches i op"
    and "hm_get pm i = Some p" and "is_banned p"
  shows "\<exists>p'. hm_get pm' i = Some p' \<and> is_banned p'"
  using assms
  by (cases op)
     (auto simp: peer_op_defs or_panic_Ret_iff Let_def hm_get_insert hm_get_remove
       split: option.splits)

lemma peer_run_ok: "peer_run E pm0 ops pm \<Longrightarrow> peers_ok pm0 \<Longrightarrow> peers_ok pm"
  by (induction rule: peer_run.induct) (auto intro: peer_apply_ok)

lemma peer_run_banned:
  "peer_run E pm0 ops pm \<Longrightarrow> \<forall>op \<in> set ops. \<not> touches i op \<Longrightarrow>
     \<exists>p. hm_get pm0 i = Some p \<and> is_banned p \<Longrightarrow> \<exists>p. hm_get pm i = Some p \<and> is_banned p"
  by (induction rule: peer_run.induct) (auto intro: peer_apply_banned)

text \<open>Scores never above 100, and a peer below -100 is banned.\<close>

definition fair_score :: "peer_info \<Rightarrow> bool" where
  "fair_score p \<longleftrightarrow> sint (reputation_score p) \<le> 100 \<and> (sint (reputation_score p) < -100 \<longrightarrow> is_banned p)"

definition fair_scores :: "peer_manager \<Rightarrow> bool" where
  "fair_scores pm \<longleftrightarrow> (\<forall>i p. hm_get pm i = Some p \<longrightarrow> fair_score p)"

fun fair_op :: "peer_op \<Rightarrow> bool" where
  "fair_op (AddPeer p) \<longleftrightarrow> fair_score p"
| "fair_op (Penalize i n) \<longleftrightarrow> 0 \<le> sint n"
| "fair_op (Reward i n) \<longleftrightarrow> 0 \<le> sint n"
| "fair_op op \<longleftrightarrow> True"

lemma penalize_Ret:
  assumes "penalize E i n pm = Ret () pm'"
  obtains (unknown) "hm_get pm i = None" "pm' = pm"
  | (known) p score where "hm_get pm i = Some p" "ssub_ck (prof E) (reputation_score p) n = Some score"
      "pm' = hm_insert i (p\<lparr>reputation_score := score, is_banned := is_banned p \<or> sint score < -100\<rparr>) pm"
  using assms by (cases "sint (reputation_score (the (hm_get pm i)) - n) < -100")
    (auto simp: penalize_def or_panic_Ret_iff Let_def dest: ssub_ck_SomeD split: option.splits)

lemma reward_Ret:
  assumes "reward E i n pm = Ret () pm'"
  obtains (unknown) "hm_get pm i = None" "pm' = pm"
  | (known) p score where "hm_get pm i = Some p" "sadd_ck (prof E) (reputation_score p) n = Some score"
      "pm' = hm_insert i (p\<lparr>reputation_score := if sint score \<le> 100 then score else 100\<rparr>) pm"
  using assms by (auto simp: reward_def or_panic_Ret_iff split: option.splits)

lemma fair_scores_insert: "fair_scores pm \<Longrightarrow> fair_score p \<Longrightarrow> fair_scores (hm_insert i p pm)"
  by (simp add: fair_scores_def hm_get_insert)

lemma peer_apply_fair:
  assumes "peer_apply E op pm = Ret () pm'" and "prof E = Debug" and "fair_op op" and "fair_scores pm"
  shows "fair_scores pm'"
proof (cases op)
  case (Penalize i n)
  with assms(1) have "penalize E i n pm = Ret () pm'" by simp
  then show ?thesis
  proof (cases rule: penalize_Ret)
    case (known p score)
    with assms Penalize have "sint score = sint (reputation_score p) - sint n" "0 \<le> sint n" "fair_score p"
      by (auto simp: fair_scores_def dest: ssub_ck_Debug)
    then show ?thesis unfolding known(3)
      by (intro fair_scores_insert assms(4)) (simp add: fair_score_def)
  qed (simp add: assms)
next
  case (Reward i n)
  with assms(1) have "reward E i n pm = Ret () pm'" by simp
  then show ?thesis
  proof (cases rule: reward_Ret)
    case (known p score)
    with assms Reward have "sint score = sint (reputation_score p) + sint n" "0 \<le> sint n" "fair_score p"
      by (auto simp: fair_scores_def dest: sadd_ck_Debug)
    then show ?thesis unfolding known(3)
      by (intro fair_scores_insert assms(4)) (auto simp: fair_score_def)
  qed (simp add: assms)
qed (use assms in \<open>auto simp: peer_op_defs hm_get_insert hm_get_remove fair_scores_def fair_score_def
      split: option.splits if_splits\<close>)

section \<open>Properties\<close>

text \<open>
  C32: a ban lasts: whatever status updates, rewards, penalties and operations on other peers
  follow, a banned peer stays banned, is not counted as active and is never the peer to sync
  from, until it is removed or added anew.
\<close>
theorem ban_lasts:
  assumes "peers_ok pm" and "hm_get pm i = Some p" and "is_banned p"
    and "peer_run E pm ops pm'" and "\<forall>op \<in> set ops. \<not> touches i op"
  shows "(\<exists>p'. hm_get pm' i = Some p' \<and> is_banned p') \<and>
    i \<notin> pr_id ` set (active_peers pm') \<and>
    (\<forall>q. get_highest_peer pm' = Some q \<longrightarrow> pr_id q \<noteq> i)"
proof -
  have ok: "peers_ok pm'" using assms(1,4) by (auto intro: peer_run_ok)
  obtain p' where p': "hm_get pm' i = Some p'" "is_banned p'"
    using peer_run_banned [OF assms(4,5)] assms(2,3) by blast
  then have no: "i \<notin> pr_id ` set (active_peers pm')" by (auto simp: active_peers_iff [OF ok])
  then show ?thesis using p' max_by_key_Some by (fastforce simp: get_highest_peer_def)
qed

text \<open>
  The peer to sync from is a known peer that is not banned, and no such peer reports a
  greater height; there is none exactly when every known peer is banned.
\<close>
theorem highest_peer_exact:
  assumes "peers_ok pm"
  shows "case get_highest_peer pm of
      None \<Rightarrow> active_peer_count pm = 0 \<and> (\<forall>i p. hm_get pm i = Some p \<longrightarrow> is_banned p)
    | Some p \<Rightarrow> hm_get pm (pr_id p) = Some p \<and> \<not> is_banned p \<and>
        (\<forall>i q. hm_get pm i = Some q \<and> \<not> is_banned q \<longrightarrow> best_height q \<le> best_height p)"
proof -
  have act: "hm_get pm i = Some q \<Longrightarrow> \<not> is_banned q \<Longrightarrow> q \<in> set (active_peers pm)" for i q
    using peers_ok_get [OF assms] by (auto simp: active_peers_iff [OF assms])
  show ?thesis
  proof (cases "get_highest_peer pm")
    case None
    then have "active_peers pm = []" by (simp add: get_highest_peer_def)
    with None act show ?thesis by (fastforce simp: active_peer_count_def)
  next
    case (Some p)
    from max_by_key_Some [OF this [unfolded get_highest_peer_def]] act Some show ?thesis
      by (auto simp: active_peers_iff [OF assms])
  qed
qed

text \<open>
  In a debug build, with penalties and rewards that are not negative, no score is ever
  above 100 and every peer below -100 is banned.
\<close>
theorem scores_fair:
  assumes "prof E = Debug" and "fair_scores pm" and "peer_run E pm ops pm'" and "\<forall>op \<in> set ops. fair_op op"
  shows "fair_scores pm'"
  using assms(3,4,2)
  by (induction rule: peer_run.induct) (auto intro: peer_apply_fair [OF _ assms(1)])

text \<open>
  In a release build the subtraction wraps: the greatest penalty given to a peer at -100
  makes it the best-scored peer of the node instead of banning it.
\<close>
theorem penalty_wraps:
  assumes "prof E = Release" and "hm_get pm i = Some p" and "reputation_score p = - 100" and "\<not> is_banned p"
  shows "\<exists>pm'. penalize E i 0x7FFFFFFF pm = Ret () pm' \<and>
    hm_get pm' i = Some (p\<lparr>reputation_score := 0x7FFFFF9D\<rparr>)"
  using assms by (simp add: penalize_def ssub_ck_def hm_get_insert)

definition sample_peer :: "u64 \<Rightarrow> i32 \<Rightarrow> peer_info" where
  "sample_peer n score =
     \<lparr>pr_id = PeerId 1, pr_addr = None, best_height = n, best_hash = HASH_ZERO,
      reputation_score = score, is_banned = False\<rparr>"

lemma sample_run:
  "peer_run toy_env [(PeerId 1, sample_peer 50 10)] [Penalize (PeerId 1) 150]
     [(PeerId 1, (sample_peer 50 (- 140))\<lparr>is_banned := True\<rparr>)]"
proof -
  have "peer_apply toy_env (Penalize (PeerId 1) 150) [(PeerId 1, sample_peer 50 10)] =
      Ret () [(PeerId 1, (sample_peer 50 (- 140))\<lparr>is_banned := True\<rparr>)]"
    by (simp add: penalize_def hm_get_def sample_peer_def ssub_ck_def hm_insert_def)
  from run_step [OF run_start this] show ?thesis by simp
qed

theorem ban_lasts_witness:
  "\<exists>pm'. peer_run toy_env [(PeerId 1, (sample_peer 90 0)\<lparr>is_banned := True\<rparr>)]
       [Reward (PeerId 1) 50, UpdateStatus (PeerId 1) 99 HASH_ZERO] pm' \<and>
     (\<exists>p. hm_get pm' (PeerId 1) = Some p \<and> is_banned p \<and> best_height p = 99) \<and> get_highest_peer pm' = None"
proof -
  let ?p = "(sample_peer 90 0)\<lparr>is_banned := True\<rparr>" and ?ops = "[Reward (PeerId 1) 50, UpdateStatus (PeerId 1) 99 HASH_ZERO]"
  let ?q = "?p\<lparr>reputation_score := 50, best_height := 99\<rparr>"
  have "peer_apply toy_env (Reward (PeerId 1) 50) [(PeerId 1, ?p)] = Ret () [(PeerId 1, ?p\<lparr>reputation_score := 50\<rparr>)]"
    by (simp add: reward_def hm_get_def sample_peer_def sadd_ck_def hm_insert_def)
  moreover have "peer_apply toy_env (UpdateStatus (PeerId 1) 99 HASH_ZERO) [(PeerId 1, ?p\<lparr>reputation_score := 50\<rparr>)] = Ret () [(PeerId 1, ?q)]"
    by (simp add: update_status_def hm_get_def sample_peer_def hm_insert_def)
  ultimately have run: "peer_run toy_env [(PeerId 1, ?p)] ?ops [(PeerId 1, ?q)]"
    using run_step [OF run_step [OF run_start]] by fastforce
  have "get_highest_peer [(PeerId 1, ?q)] = None"
  proof (cases "get_highest_peer [(PeerId 1, ?q)]")
    case (Some r)
    with ban_lasts [OF _ _ _ run, of "PeerId 1" ?p]
    have "PeerId 1 \<notin> pr_id ` set (active_peers [(PeerId 1, ?q)])"
      by (simp add: peers_ok_def hm_ok_def hm_get_def sample_peer_def)
    with Some show ?thesis by (simp add: get_highest_peer_def active_peers_def sample_peer_def)
  qed simp
  with run show ?thesis by (intro exI [of _ "[(PeerId 1, ?q)]"]) (simp add: hm_get_def)
qed

theorem highest_peer_exact_witness:
  "get_highest_peer [(PeerId 1, sample_peer 90 0)] = Some (sample_peer 90 0)"
  using highest_peer_exact [of "[(PeerId 1, sample_peer 90 0)]"]
  by (simp add: peers_ok_def hm_ok_def sample_peer_def get_highest_peer_def active_peers_def)

theorem scores_fair_witness:
  "fair_scores [(PeerId 1, (sample_peer 50 (- 140))\<lparr>is_banned := True\<rparr>)]"
  by (rule scores_fair [OF _ _ sample_run])
     (simp_all add: fair_scores_def fair_score_def hm_get_def sample_peer_def)

theorem penalty_wraps_witness:
  "\<exists>pm'. penalize (toy_env\<lparr>prof := Release\<rparr>) (PeerId 1) 0x7FFFFFFF [(PeerId 1, sample_peer 5 (- 100))] = Ret () pm' \<and>
     hm_get pm' (PeerId 1) = Some (sample_peer 5 0x7FFFFF9D)"
  using penalty_wraps [of "toy_env\<lparr>prof := Release\<rparr>" "[(PeerId 1, sample_peer 5 (- 100))]" "PeerId 1" "sample_peer 5 (- 100)"]
  by (simp add: hm_get_def sample_peer_def)

end
