(* ===== verification/Sync.thy ===== *)
theory Sync
  imports Engine Peers
begin

text \<open>
  \<open>aura-network/src/sync.rs\<close>: replaying a batch of downloaded blocks on the state database,
  and the light client's inclusion check. The syncer's execution loop is a second copy of
  the engine's; it is modelled on its own and shown to agree with it.
\<close>

section \<open>Operations\<close>

datatype sync_error =
    SyncPrimitive primitive_error
  | SyncStorage storage_error
  | InvalidBlockLink u64
  | InvalidStateRoot

definition sync_execute_tx :: "env \<Rightarrow> codec \<Rightarrow> state_db \<Rightarrow> transaction \<Rightarrow> overlay \<Rightarrow> overlay option" where
  "sync_execute_tx E C db tx ov =
     (let sender_acc = overlay_get C ov db (tx_sender tx) in
      case add_ck (prof E) (tx_amount tx) (tx_fee tx) of
        None \<Rightarrow> None
      | Some total_deduct \<Rightarrow>
          let sender_acc = sender_acc\<lparr>balance := sat_sub (balance sender_acc) total_deduct\<rparr> in
          case add_ck (prof E) (nonce sender_acc) 1 of
            None \<Rightarrow> None
          | Some n \<Rightarrow>
              let sender_acc = sender_acc\<lparr>nonce := n\<rparr>;
                  (sender_acc, ov) =
                    (case tx_type tx of
                       Transfer \<Rightarrow>
                         let recipient_acc = overlay_get C ov db (tx_recipient tx);
                             recipient_acc = recipient_acc\<lparr>balance := sat_add (balance recipient_acc) (tx_amount tx)\<rparr>
                         in (sender_acc, overlay_set (tx_recipient tx) recipient_acc ov)
                     | RegisterValidator \<Rightarrow>
                         (sender_acc\<lparr>is_validator := True, validator_pubkey := Some (tx_pubkey tx),
                            staked_amount := sat_add (staked_amount sender_acc) (tx_amount tx)\<rparr>, ov)
                     | Stake \<Rightarrow>
                         (sender_acc\<lparr>staked_amount := sat_add (staked_amount sender_acc) (tx_amount tx)\<rparr>, ov)
                     | Unstake \<Rightarrow>
                         let sender_acc = sender_acc\<lparr>staked_amount := sat_sub (staked_amount sender_acc) (tx_amount tx)\<rparr>
                         in (sender_acc\<lparr>balance := sat_add (balance sender_acc) (tx_amount tx)\<rparr>, ov))
              in Some (overlay_set (tx_sender tx) sender_acc ov))"

fun sync_execute_all :: "env \<Rightarrow> codec \<Rightarrow> state_db \<Rightarrow> transaction list \<Rightarrow> overlay \<Rightarrow> overlay option" where
  "sync_execute_all E C db [] ov = Some ov"
| "sync_execute_all E C db (tx # txs) ov =
     (case sync_execute_tx E C db tx ov of
        None \<Rightarrow> None
      | Some ov' \<Rightarrow> sync_execute_all E C db txs ov')"

text \<open>One iteration of the batch loop: the new latest height, or the error that ends it.\<close>

definition sync_block :: "env \<Rightarrow> codec \<Rightarrow> u64 \<Rightarrow> block \<Rightarrow> state_db \<Rightarrow> (sync_error + u64, state_db) outcome" where
  "sync_block E C latest_height b db =
     (let height = h_height (b_header b) in
      or_panic (add_ck (prof E) latest_height 1) db (\<lambda>next_height.
        if height \<noteq> next_height then Ret (Inr latest_height) db
        else case validate_basic E b of
          Inl e \<Rightarrow> Ret (Inl (SyncPrimitive e)) db
        | Inr _ \<Rightarrow>
            or_panic (get_block_by_height C db latest_height) db (\<lambda>prev_block.
              if h_prev_hash (b_header b) \<noteq> block_hash E prev_block
              then Ret (Inl (InvalidBlockLink height)) db
              else or_panic (sync_execute_all E C db (b_transactions b) []) db (\<lambda>ov.
                case commit_block E C b ov db of
                  (Inl e, db') \<Rightarrow> Ret (Inl (SyncStorage e)) db'
                | (Inr _, db') \<Rightarrow> Ret (Inr height) db'))))"

fun sync_blocks :: "env \<Rightarrow> codec \<Rightarrow> u64 \<Rightarrow> block list \<Rightarrow> state_db \<Rightarrow> (sync_error + u64, state_db) outcome" where
  "sync_blocks E C latest_height [] db = Ret (Inr latest_height) db"
| "sync_blocks E C latest_height (b # bs) db =
     andThen (sync_block E C latest_height b db) (\<lambda>r db'.
       case r of Inl e \<Rightarrow> Ret (Inl e) db' | Inr h \<Rightarrow> sync_blocks E C h bs db')"

definition apply_block_batch :: "env \<Rightarrow> codec \<Rightarrow> block list \<Rightarrow> state_db \<Rightarrow> (sync_error + u64, state_db) outcome" where
  "apply_block_batch E C bs db = sync_blocks E C (get_latest_height db) bs db"

definition verify_light_client_proof :: "env \<Rightarrow> hash \<Rightarrow> transaction \<Rightarrow> merkle_proof \<Rightarrow> bool" where
  "verify_light_client_proof E root tx p = proof_verify E p root (hash_bytes_of (tx_hash E tx))"

section \<open>Execution\<close>

lemma sync_execute_tx_engine: "sync_execute_tx E C db tx ov = engine_execute_tx E C db tx ov"
  by (cases "tx_type tx") (simp_all add: sync_execute_tx_def engine_execute_tx_def Let_def split: option.splits)

lemma sync_execute_all_engine: "sync_execute_all E C db txs ov = engine_execute_all E C db txs ov"
  by (induction txs arbitrary: ov) (simp_all add: sync_execute_tx_engine split: option.splits)

section \<open>The stored chain\<close>

text \<open>
  The chain up to a height: every height holds a block of that height under its hash, with
  a valid body, whose parent is the block one below.
\<close>

definition chain_to :: "env \<Rightarrow> codec \<Rightarrow> state_db \<Rightarrow> nat \<Rightarrow> bool" where
  "chain_to E C db m \<longleftrightarrow>
     (\<forall>k \<le> m. \<exists>b. get_block_by_height C db (word_of_nat k) = Some b \<and>
        h_height (b_header b) = word_of_nat k \<and>
        kv_get (db_kv db) (height_key (word_of_nat k)) = Some (hash_bytes_of (block_hash E b)) \<and>
        (0 < k \<longrightarrow> validate_basic E b = Inr () \<and>
           (\<exists>a. get_block_by_height C db (word_of_nat (k - 1)) = Some a \<and>
              h_prev_hash (b_header b) = block_hash E a)))"

definition chain_ok :: "env \<Rightarrow> codec \<Rightarrow> state_db \<Rightarrow> bool" where
  "chain_ok E C db \<longleftrightarrow> om_ok (kv_map (db_kv db)) \<and> chain_to E C db (unat (get_latest_height db))"

text \<open>No two blocks of different heights, stored or in the batch, share a hash.\<close>

definition heights_apart :: "env \<Rightarrow> codec \<Rightarrow> state_db \<Rightarrow> block list \<Rightarrow> bool" where
  "heights_apart E C db bs \<longleftrightarrow>
     (\<forall>a b. (a \<in> set bs \<or> (\<exists>k. get_block_by_height C db k = Some a)) \<and> b \<in> set bs \<and>
        block_hash E a = block_hash E b \<longrightarrow> h_height (b_header a) = h_height (b_header b))"

lemma heights_apart_tl: "heights_apart E C db (b # bs) \<Longrightarrow> heights_apart E C db bs"
  unfolding heights_apart_def by (meson list.set_intros(2))

lemma sync_block_Ret:
  assumes "sync_block E C n b db = Ret r db'"
  obtains (skip) "h_height (b_header b) \<noteq> n + 1" "r = Inr n" "db' = db"
  | (refused) e where "r = Inl e" "db' = db"
  | (written) ov prev where
      "h_height (b_header b) = n + 1" "prof E = Debug \<longrightarrow> unat n + 1 < 2 ^ 64"
      "validate_basic E b = Inr ()" "get_block_by_height C db n = Some prev"
      "h_prev_hash (b_header b) = block_hash E prev"
      "engine_execute_all E C db (b_transactions b) [] = Some ov"
      "db' = write_all E C ov b (n + 1) db"
      "r = Inr (n + 1) \<or> (\<exists>e. r = Inl (SyncStorage e))"
proof -
  from assms obtain m where m: "add_ck (prof E) n 1 = Some m"
    by (auto simp: sync_block_def Let_def or_panic_Ret_iff)
  then have m1: "m = n + 1" by (rule add_ck_SomeD)
  have room: "prof E = Debug \<longrightarrow> unat n + 1 < 2 ^ 64"
    using m by (auto simp: add_ck_def split: if_splits)
  note step = assms [unfolded sync_block_def Let_def m or_panic_simps m1]
  show thesis
  proof (cases "h_height (b_header b) = n + 1 \<and> validate_basic E b = Inr ()")
    case False
    with step skip refused show ?thesis by (auto split: sum.splits if_splits)
  next
    case True
    then have h: "h_height (b_header b) = n + 1" and v: "validate_basic E b = Inr ()" by simp_all
    from step h v obtain prev where prev: "get_block_by_height C db n = Some prev"
      by (auto simp: or_panic_Ret_iff)
    show ?thesis
    proof (cases "h_prev_hash (b_header b) = block_hash E prev")
      case False
      with step h v prev refused [of "InvalidBlockLink (n + 1)"] show ?thesis by auto
    next
      case link: True
      from step h v prev link obtain ov where
        ov: "sync_execute_all E C db (b_transactions b) [] = Some ov"
        by (auto simp: or_panic_Ret_iff)
      have w: "snd (commit_block E C b ov db) = write_all E C ov b (n + 1) db"
        by (simp add: commit_block_write_all h)
      from step h v prev link ov w show ?thesis
        by (intro written [OF h room v prev link ov [unfolded sync_execute_all_engine]])
           (auto split: sum.splits prod.splits)
    qed
  qed
qed

lemma sync_block_outcome:
  assumes "chain_ok E C db" and "n = get_latest_height db" and "unat n + 1 < 2 ^ 64"
  shows "(\<exists>r db'. sync_block E C n b db = Ret r db') \<or> sync_block E C n b db = Panic db \<and> prof E = Debug"
proof -
  have "\<exists>prev. get_block_by_height C db (word_of_nat (unat n)) = Some prev"
    using assms(1) unfolding chain_ok_def chain_to_def assms(2) by blast
  then obtain prev where prev: "get_block_by_height C db n = Some prev" by auto
  have m: "add_ck (prof E) n 1 = Some (n + 1)" using assms(3) by (simp add: add_ck_def)
  have "prof E = Debug" if "sync_execute_all E C db txs [] = None" for txs
    using execution_panics_debug that by (simp add: sync_execute_all_engine)
  then show ?thesis
    unfolding sync_block_def Let_def m or_panic_simps prev
    by (cases "validate_basic E b"; cases "sync_execute_all E C db (b_transactions b) []")
       (auto split: prod.split sum.split)
qed

lemma word_of_nat_neq:
  assumes "k \<le> unat n" and "unat n + 1 < 2 ^ 64"
  shows "(word_of_nat k :: u64) \<noteq> n + 1"
proof
  assume "(word_of_nat k :: u64) = n + 1"
  then have "unat (word_of_nat k :: u64) = unat n + 1" using assms(2) by (simp add: unat_plus_small)
  moreover have "unat (word_of_nat k :: u64) = k" using assms by (simp add: unat_of_nat)
  ultimately show False using assms(1) by simp
qed

lemma chain_extend:
  assumes ok: "chain_ok E C db" and n: "n = get_latest_height db" and room: "unat n + 1 < 2 ^ 64"
    and b: "h_height (b_header b) = n + 1" "validate_basic E b = Inr ()"
    and prev: "get_block_by_height C db n = Some prev" "h_prev_hash (b_header b) = block_hash E prev"
    and dec: "block_dec C (block_enc C b) = Some b" and apart: "heights_apart E C db (b # bs)"
    and db': "db' = write_all E C ov b (n + 1) db"
  shows "chain_ok E C db'" and "get_latest_height db' = n + 1" and "heights_apart E C db' bs"
    and "\<And>k. k \<le> n \<Longrightarrow> get_block_by_height C db' k = get_block_by_height C db k"
proof -
  have om: "om_ok (kv_map (db_kv db))" using ok by (simp add: chain_ok_def)
  note get = get_block_by_height_write_all [OF om dec, of E ov "n + 1", folded db']
  have sn: "unat (n + 1) = unat n + 1" using room by (simp add: unat_plus_small)
  have old: "\<exists>a. get_block_by_height C db (word_of_nat k) = Some a \<and> h_height (b_header a) = word_of_nat k \<and>
      kv_get (db_kv db) (height_key (word_of_nat k)) = Some (hash_bytes_of (block_hash E a)) \<and>
      (0 < k \<longrightarrow> validate_basic E a = Inr () \<and>
         (\<exists>c. get_block_by_height C db (word_of_nat (k - 1)) = Some c \<and> h_prev_hash (b_header a) = block_hash E c))"
    if "k \<le> unat n" for k
    using ok that unfolding chain_ok_def chain_to_def n by blast
  have same: "get_block_by_height C db' (word_of_nat k) = get_block_by_height C db (word_of_nat k)"
    if k: "k \<le> unat n" for k
  proof -
    obtain a where a: "get_block_by_height C db (word_of_nat k) = Some a" "h_height (b_header a) = word_of_nat k"
      "kv_get (db_kv db) (height_key (word_of_nat k)) = Some (hash_bytes_of (block_hash E a))"
      using old [OF k] by blast
    have "block_hash E a \<noteq> block_hash E b"
      using apart a(1,2) b(1) word_of_nat_neq [OF k room] unfolding heights_apart_def by (metis list.set_intros(1))
    then show ?thesis
      using word_of_nat_neq [OF k room] a(3) by (auto simp: get dest: hash_arr.to_bytes_inject)
  qed
  show latest: "get_latest_height db' = n + 1" by (simp add: db' get_latest_height_write_all [OF om])
  show "get_block_by_height C db' k = get_block_by_height C db k" if "k \<le> n" for k
    using same [of "unat k"] that by (simp add: word_le_nat_alt)
  show "heights_apart E C db' bs"
    unfolding heights_apart_def
  proof (intro allI impI, elim conjE)
    fix a c
    assume a: "a \<in> set bs \<or> (\<exists>k. get_block_by_height C db' k = Some a)"
      and c: "c \<in> set bs" "block_hash E a = block_hash E c"
    have "a \<in> set (b # bs) \<or> (\<exists>k. get_block_by_height C db k = Some a)"
      using a by (auto simp: get split: if_splits)
    with apart c show "h_height (b_header a) = h_height (b_header c)"
      unfolding heights_apart_def by (metis list.set_intros(2))
  qed
  have height: "kv_get (db_kv db') (height_key m) =
      (if m = n + 1 then Some (hash_bytes_of (block_hash E b)) else kv_get (db_kv db) (height_key m))" for m
    by (simp add: db' kv_get_write_block [OF om])
  have "chain_to E C db' (unat (n + 1))"
    unfolding chain_to_def
  proof (intro allI impI)
    fix k assume k: "k \<le> unat (n + 1)"
    show "\<exists>a. get_block_by_height C db' (word_of_nat k) = Some a \<and> h_height (b_header a) = word_of_nat k \<and>
        kv_get (db_kv db') (height_key (word_of_nat k)) = Some (hash_bytes_of (block_hash E a)) \<and>
        (0 < k \<longrightarrow> validate_basic E a = Inr () \<and>
           (\<exists>c. get_block_by_height C db' (word_of_nat (k - 1)) = Some c \<and> h_prev_hash (b_header a) = block_hash E c))"
    proof (cases "k \<le> unat n")
      case True
      then have "k - 1 \<le> unat n" by simp
      with old [OF True] same [OF True] same [OF this] word_of_nat_neq [OF True room] height
      show ?thesis by auto
    next
      case False
      with k sn have k: "k = unat n + 1" by simp
      then have "(word_of_nat k :: u64) = n + 1" by simp
      with k b prev same [of "unat n"] get height show ?thesis by auto
    qed
  qed
  then show "chain_ok E C db'"
    unfolding chain_ok_def latest by (simp add: db' om_ok_write_all [OF om])
qed

section \<open>Replicas\<close>

lemma engine_execute_all_cong:
  assumes "get_account C db = get_account C db'"
  shows "engine_execute_all E C db txs ov = engine_execute_all E C db' txs ov"
proof -
  have "overlay_get C ov db = overlay_get C ov db'" for ov
    unfolding overlay_get_def [abs_def] assms ..
  then have "engine_execute_tx E C db tx ov = engine_execute_tx E C db' tx ov" for tx ov
    by (simp only: engine_execute_tx_def)
  then show ?thesis by (induction txs arbitrary: ov) (auto split: option.split)
qed

definition same_accounts :: "state_db \<Rightarrow> state_db \<Rightarrow> bool" where
  "same_accounts db db' \<longleftrightarrow> (\<forall>a. kv_get (db_kv db) (account_key a) = kv_get (db_kv db') (account_key a))"

lemma same_accounts_get: "same_accounts db db' \<Longrightarrow> get_account C db = get_account C db'"
  by (simp add: same_accounts_def get_account_def fun_eq_iff)

lemma same_accounts_write:
  assumes "same_accounts db db'" and "om_ok (kv_map (db_kv db))" and "om_ok (kv_map (db_kv db'))"
  shows "same_accounts (write_all E C l b m db) (write_all E C l b' m' db')"
  using assms by (simp add: same_accounts_def kv_get_write_account split: option.split)

definition mirrored :: "env \<Rightarrow> state_db \<Rightarrow> bool" where
  "mirrored E db \<longleftrightarrow> om_ok (kv_map (db_kv db)) \<and> synced E (kv_get (db_kv db)) (db_smt db)"

lemma mirrored_write:
  "keys_apart E (kv_get (db_kv (write_all E C l b m db))) \<Longrightarrow> mirrored E db \<Longrightarrow> mirrored E (write_all E C l b m db)"
  by (simp add: mirrored_def om_ok_write_all synced_write_all)

lemma key_clash_write:
  "om_ok (kv_map (db_kv db)) \<Longrightarrow> key_clash E db \<Longrightarrow> key_clash E (write_all E C l b m db)"
  unfolding key_clash_def by (elim exE conjE, intro exI conjI) (auto simp: kv_get_write_account split: option.split)

lemma mirrored_kept:
  assumes "om_ok (kv_map (db_kv db))" and "\<not> key_clash E db \<longrightarrow> mirrored E db"
  shows "\<not> key_clash E (write_all E C l b m db) \<longrightarrow> mirrored E (write_all E C l b m db)"
  using key_clash_write [OF assms(1)] assms(2) mirrored_write no_key_clash by blast

lemma mirrored_opened:
  "om_ok (kv_map kv) \<Longrightarrow> \<not> key_clash E (state_db_new E kv) \<longrightarrow> mirrored E (state_db_new E kv)"
  using no_key_clash [of E "state_db_new E kv"] synced_state_db_new [of E kv]
  by (auto simp: mirrored_def state_db_new_def)

lemma mirrored_root:
  "mirrored E db \<Longrightarrow> mirrored E db' \<Longrightarrow> same_accounts db db' \<Longrightarrow> get_state_root E db = get_state_root E db'"
  unfolding get_state_root_def mirrored_def same_accounts_def by (blast intro: synced_root)

lemma same_accounts_clash: "same_accounts db db' \<Longrightarrow> key_clash E db = key_clash E db'"
  by (simp add: same_accounts_def key_clash_def)

text \<open>What a run of the syncer keeps of the database it started on.\<close>

definition kept :: "env \<Rightarrow> codec \<Rightarrow> state_db \<Rightarrow> (sync_error + u64, state_db) outcome \<Rightarrow> bool" where
  "kept E C db out \<longleftrightarrow>
     (case out of
        Ret r db' \<Rightarrow> chain_ok E C db' \<and> get_latest_height db \<le> get_latest_height db' \<and>
          (\<forall>h. r = Inr h \<longrightarrow> get_latest_height db' = h) \<and>
          (\<forall>k \<le> get_latest_height db. get_block_by_height C db' k = get_block_by_height C db k)
      | Panic db' \<Rightarrow> prof E = Debug \<and> chain_ok E C db'
      | _ \<Rightarrow> False)"

lemma kept_same: "chain_ok E C db \<Longrightarrow> r = Inr (get_latest_height db) \<or> (\<exists>e. r = Inl e) \<Longrightarrow> kept E C db (Ret r db)"
  by (auto simp: kept_def)

lemma kept_step:
  assumes "kept E C db' out" and "get_latest_height db \<le> get_latest_height db'"
    and "\<And>k. k \<le> get_latest_height db \<Longrightarrow> get_block_by_height C db' k = get_block_by_height C db k"
  shows "kept E C db out"
proof (cases out)
  case (Ret r db2)
  with assms(1) have "get_latest_height db' \<le> get_latest_height db2" by (simp add: kept_def)
  with assms(2) have "get_latest_height db \<le> get_latest_height db2" by (rule order_trans)
  with assms Ret show ?thesis unfolding kept_def by (auto dest: order_trans)
qed (use assms(1) in \<open>simp_all add: kept_def\<close>)

lemma sync_blocks_kept:
  assumes "chain_ok E C db" and "\<forall>b \<in> set bs. block_dec C (block_enc C b) = Some b"
    and "heights_apart E C db bs" and "unat (get_latest_height db) + length bs < 2 ^ 64"
  shows "kept E C db (sync_blocks E C (get_latest_height db) bs db)"
  using assms
proof (induction bs arbitrary: db)
  case Nil
  then show ?case by (simp add: kept_same)
next
  case (Cons b bs)
  let ?n = "get_latest_height db"
  have room: "unat ?n + 1 < 2 ^ 64" and len: "unat ?n + length bs < 2 ^ 64"
    and dec: "block_dec C (block_enc C b) = Some b" "\<forall>b \<in> set bs. block_dec C (block_enc C b) = Some b"
    using Cons.prems(2,4) by simp_all
  have rest: "heights_apart E C db bs" using Cons.prems(3) by (rule heights_apart_tl)
  show ?case
  proof (cases "sync_block E C ?n b db")
    case (Ret r db')
    then show ?thesis
    proof (cases rule: sync_block_Ret)
      case skip
      with Cons.IH [OF Cons.prems(1) dec(2) rest len] show ?thesis by (simp only: Ret sync_blocks.simps) simp
    next
      case (refused e)
      with kept_same [OF Cons.prems(1)] show ?thesis by (simp only: Ret sync_blocks.simps) simp
    next
      case (written ov prev)
      note ext = chain_extend [OF Cons.prems(1) refl room written(1,3,4,5) dec(1) Cons.prems(3) written(7)]
      have sn: "unat (?n + 1) = unat ?n + 1" using room by (simp add: unat_plus_small)
      have le: "?n \<le> get_latest_height db'" unfolding ext(2) word_le_nat_alt sn by simp
      have "unat (get_latest_height db') + length bs < 2 ^ 64"
        using Cons.prems(4) unfolding ext(2) sn by simp
      note IH = Cons.IH [OF ext(1) dec(2) ext(3) this]
      have "sync_blocks E C ?n (b # bs) db = sync_blocks E C (?n + 1) bs db' \<or>
          (\<exists>e. sync_blocks E C ?n (b # bs) db = Ret (Inl e) db')"
        using written(8) by (auto simp only: Ret sync_blocks.simps andThen.simps sum.case)
      then show ?thesis
        using kept_step [OF IH le ext(4)] kept_step [OF kept_same [OF ext(1)] le ext(4)]
        unfolding ext(2) by auto
    qed
  next
    case (Panic db')
    with sync_block_outcome [where b = b, OF Cons.prems(1) refl room] Cons.prems(1)
    show ?thesis by (simp add: kept_def)
  qed (use sync_block_outcome [where b = b, OF Cons.prems(1) refl room] in simp_all)
qed

section \<open>Properties\<close>

text \<open>
  C22: whatever batch of blocks a peer sends, the syncer keeps the stored chain: it ends with
  a database whose every height holds a block with a valid body under its hash, linked to
  the block below, it never lowers the height, rewrites no block below it, reports the
  height it stored, and panics only in a debug build (on an overflow while executing),
  leaving a chain too; as long as no two blocks of the batch and the store that differ in
  height share a hash, the finite condition \<open>heights_apart\<close>.
\<close>
theorem sync_keeps_chain:
  assumes "chain_ok E C db" and "\<forall>b \<in> set bs. block_dec C (block_enc C b) = Some b"
    and "heights_apart E C db bs" and "unat (get_latest_height db) + length bs < 2 ^ 64"
  shows "case apply_block_batch E C bs db of
      Ret r db' \<Rightarrow> chain_ok E C db' \<and> get_latest_height db \<le> get_latest_height db' \<and>
        (\<forall>h. r = Inr h \<longrightarrow> get_latest_height db' = h) \<and>
        (\<forall>k \<le> get_latest_height db. get_block_by_height C db' k = get_block_by_height C db k)
    | Panic db' \<Rightarrow> prof E = Debug \<and> chain_ok E C db'
    | _ \<Rightarrow> False"
  using sync_blocks_kept [OF assms] unfolding kept_def apply_block_batch_def .

text \<open>
  C23: replicas agree: a node that syncs the block another node's engine committed on the
  same accounts ends with the same accounts, whether the call of the deciding precommit
  returned or waits for ever; and with the same state root, unless two different addresses
  stored have tree keys that are an explicit BLAKE3 collision.
\<close>
theorem sync_replica_agrees:
  assumes "mirrored E (en_db en)" and "mirrored E db" and "same_accounts (en_db en) db"
    and "handle_precommit E C held v en \<in> {Ret (Some qc) en', Blocked en'}"
    and "proposed_block en = Some b" and "block_hash E b = v_block_hash v"
    and "sync_block E C n b db = Ret (Inr (h_height (b_header b))) db'" and "h_height (b_header b) \<noteq> n"
  shows "same_accounts (en_db en') db' \<and>
    (get_state_root E (en_db en') = get_state_root E db' \<or> key_clash E db')"
proof -
  obtain ov where ov: "engine_execute_all E C (en_db en) (b_transactions b) [] = Some ov"
    "en_db en' = write_all E C ov b (h_height (b_header b)) (en_db en)"
    using precommit_decides [OF assms(4-6)] by blast
  note same = engine_execute_all_cong [OF same_accounts_get [OF assms(3)]]
  have w: "db' = write_all E C ov b (n + 1) db"
    using assms(8) ov(1) by (cases rule: sync_block_Ret [OF assms(7)]) (auto simp: same)
  have accounts: "same_accounts (en_db en') db'"
    unfolding ov(2) w using assms(1-3) by (auto simp: mirrored_def intro: same_accounts_write)
  have "get_state_root E (en_db en') = get_state_root E db'" if "\<not> key_clash E db'"
  proof -
    have "\<not> key_clash E (en_db en')" using that same_accounts_clash [OF accounts] by simp
    with no_key_clash that have "keys_apart E (kv_get (db_kv (en_db en')))" "keys_apart E (kv_get (db_kv db'))" by blast+
    then have "mirrored E (en_db en')" "mirrored E db'"
      unfolding ov(2) w using assms(1,2) by (auto intro: mirrored_write)
    from mirrored_root [OF this accounts] show ?thesis .
  qed
  with accounts show ?thesis by blast
qed

text \<open>
  The syncer authenticates nothing: when it applies a block, it also applies any block of
  the same height, parent, body and body root, whatever its proposer, signature, state root,
  round, time and certificate, with the same effect on every account.
\<close>
theorem sync_unauthenticated:
  assumes "sync_block E C n b db = Ret (Inr (n + 1)) db1" and "n + 1 \<noteq> n"
    and "kv_path (db_kv db) = None" and "om_ok (kv_map (db_kv db))"
    and "b_transactions b' = b_transactions b" and "h_height (b_header b') = h_height (b_header b)"
    and "h_prev_hash (b_header b') = h_prev_hash (b_header b)"
    and "h_merkle_root (b_header b') = h_merkle_root (b_header b)"
  shows "\<exists>db2. sync_block E C n b' db = Ret (Inr (n + 1)) db2 \<and> same_accounts db1 db2"
proof (cases rule: sync_block_Ret [OF assms(1)])
  case (3 ov prev)
  note written = 3
  have v: "validate_basic E b' = Inr ()"
    using written(3) assms(5,8) by (simp add: validate_basic_Inr compute_merkle_root_def)
  obtain h where "commit_block E C b' ov db = (Inr h, write_all E C ov b' (n + 1) db)"
    using commit_block_memory [OF assms(3)] assms(6) written(1) by metis
  then have "sync_block E C n b' db = Ret (Inr (n + 1)) (write_all E C ov b' (n + 1) db)"
    using written assms(5-7) v
    by (cases "prof E") (simp_all add: sync_block_def Let_def add_ck_def sync_execute_all_engine)
  moreover have "same_accounts db1 (write_all E C ov b' (n + 1) db)"
    unfolding written(7) by (rule same_accounts_write) (simp_all add: same_accounts_def assms(4))
  ultimately show ?thesis by blast
qed (use assms(2) in auto)

text \<open>
  The light client hashes a transaction hash once more than the tree of a block does, so
  a proof taken from a block's own tree is refused: if one is accepted, the leaf hash of the
  transaction hash is the transaction hash itself or there is an explicit collision.
\<close>
theorem light_client_refuses_block_proofs:
  assumes "i < length txs"
    and "generate_proof (from_leaf_hashes E (map (tx_hash E) txs)) i = Some (Some p)"
    and "verify_light_client_proof E (tree_root (from_leaf_hashes E (map (tx_hash E) txs))) (txs ! i) p"
    and "hash_leaf E (hash_bytes_of (tx_hash E (txs ! i))) \<noteq> tx_hash E (txs ! i)"
  shows "\<exists>x y. clash E (hash_leaf E (hash_bytes_of (tx_hash E (txs ! i)))) (tx_hash E (txs ! i))
      (audit_path p) (audit_path p) = Some (x, y) \<and> blake3_collision E x y"
proof (rule clash_sound [OF assms(4) refl])
  have "climb E (tx_hash E (txs ! i)) (audit_path p) = tree_root (from_leaf_hashes E (map (tx_hash E) txs))"
    using generate_proof_climb [of i "map (tx_hash E) txs" E] assms(1,2) by auto
  with assms(3) show "climb E (hash_leaf E (hash_bytes_of (tx_hash E (txs ! i)))) (audit_path p) =
      climb E (tx_hash E (txs ! i)) (audit_path p)"
    by (simp add: verify_light_client_proof_def proof_verify_def)
qed

section \<open>Examples\<close>

lemma block_hash_fee: "block_hash fee_env b = Hash (ucast (sig_word (h_signature (b_header b))))"
  using of_be_bytes_tail_512 [of "le_len DOMAIN_BLOCK_HEADER @ DOMAIN_BLOCK_HEADER @
      header_signing_bytes (b_header b)" "sig_word (h_signature (b_header b))"]
  by (simp add: block_hash_def header_hash_def hash_with_domain_def domain_preimage_def fee_env_def
      sig_bytes_def)

text \<open>A codec that tells two blocks apart.\<close>

definition two_block_codec :: "block \<Rightarrow> block \<Rightarrow> codec" where
  "two_block_codec a b =
     (toy_codec b)\<lparr>block_enc := (\<lambda>c. if c = a then [0] else [1]),
        block_dec := (\<lambda>bs. Some (if bs = [0] then a else b))\<rparr>"

abbreviation genesis_sample :: block where
  "genesis_sample \<equiv> to_genesis_block fee_env sample_genesis"

definition next_sample :: block where
  "next_sample = (sample_block [])\<lparr>b_header := (b_header (sample_block []))\<lparr>h_signature := Signature 5\<rparr>\<rparr>"

abbreviation chain_codec :: codec where
  "chain_codec \<equiv> two_block_codec genesis_sample next_sample"

definition chain_db :: state_db where
  "chain_db = snd (apply_genesis fee_env chain_codec sample_genesis memory_db)"

lemma next_sample_simps [simp]:
  "h_height (b_header next_sample) = 1" "b_transactions next_sample = []"
  "h_prev_hash (b_header next_sample) = HASH_ZERO" "block_hash fee_env next_sample = Hash 5"
  by (simp_all add: next_sample_def sample_block_def sample_header_def header_new_unsigned_def block_hash_fee)

lemma genesis_sample_simps [simp]:
  "h_height (b_header genesis_sample) = 0" "block_hash fee_env genesis_sample = HASH_ZERO"
  by (simp_all add: to_genesis_block_def block_hash_fee HASH_ZERO_def)

lemma chain_codec_laws:
  "block_dec chain_codec (block_enc chain_codec genesis_sample) = Some genesis_sample"
  "block_dec chain_codec (block_enc chain_codec next_sample) = Some next_sample"
  by (auto simp: two_block_codec_def)

lemma chain_db_reads:
  "om_ok (kv_map (db_kv chain_db))" "get_latest_height chain_db = 0" "kv_path (db_kv chain_db) = None"
  "get_block_by_height chain_codec chain_db k = (if k = 0 then Some genesis_sample else None)"
  "kv_get (db_kv chain_db) (height_key 0) = Some (hash_bytes_of HASH_ZERO)"
  by (simp_all add: chain_db_def apply_genesis_write_all om_ok_write_all get_latest_height_write_all
      kv_get_write_block get_block_by_height_write_all [OF om_ok_memory_db chain_codec_laws(1)])
     (simp_all add: write_all_def apply_batch_def memory_db_def open_in_memory_def get_block_by_height_def
       kv_get_def persist_memory)

lemma chain_db_ok: "chain_ok fee_env chain_codec chain_db"
  by (simp add: chain_ok_def chain_to_def chain_db_reads)

lemma chain_db_apart: "heights_apart fee_env chain_codec chain_db [next_sample]"
  by (auto simp: heights_apart_def chain_db_reads HASH_ZERO_def split: if_splits)

lemma next_sample_valid: "validate_basic fee_env next_sample = Inr ()"
  by (simp add: validate_basic_Inr compute_merkle_root_def)
     (simp add: next_sample_def sample_block_def from_leaf_hashes_def tree_root_def)

lemma next_sample_syncs:
  "sync_block fee_env chain_codec 0 next_sample chain_db =
     Ret (Inr 1) (write_all fee_env chain_codec [] next_sample 1 chain_db)"
proof -
  obtain h where "commit_block fee_env chain_codec next_sample [] chain_db =
      (Inr h, write_all fee_env chain_codec [] next_sample 1 chain_db)"
    using commit_block_memory [OF chain_db_reads(3)] next_sample_simps(1) by metis
  then show ?thesis
    by (simp add: sync_block_def add_ck_def next_sample_valid chain_db_reads)
qed

theorem sync_keeps_chain_witness:
  "\<exists>db'. apply_block_batch fee_env chain_codec [next_sample] chain_db = Ret (Inr 1) db' \<and>
     chain_ok fee_env chain_codec db' \<and> get_latest_height db' = 1"
proof -
  have run: "apply_block_batch fee_env chain_codec [next_sample] chain_db =
      Ret (Inr 1) (write_all fee_env chain_codec [] next_sample 1 chain_db)"
    by (simp add: apply_block_batch_def chain_db_reads next_sample_syncs)
  from sync_keeps_chain [OF chain_db_ok _ chain_db_apart] chain_codec_laws(2) run show ?thesis
    by (simp add: chain_db_reads)
qed

theorem sync_unauthenticated_witness:
  "\<exists>db2. sync_block fee_env chain_codec 0
     (next_sample\<lparr>b_header := (b_header next_sample)\<lparr>h_signature := Signature 0, h_state_root := Hash 3\<rparr>\<rparr>)
     chain_db = Ret (Inr (0 + 1)) db2"
  using sync_unauthenticated [where b' = "next_sample\<lparr>b_header := (b_header next_sample)
      \<lparr>h_signature := Signature 0, h_state_root := Hash 3\<rparr>\<rparr>" and n = 0 and E = fee_env
      and C = chain_codec and b = next_sample and db = chain_db]
  by (auto simp: next_sample_syncs chain_db_reads)

lemma inj_key_hash_locked: "inj (key_hash locked_env)"
proof -
  have "key_hash locked_env = key_hash toy_env"
    by (simp add: locked_same fun_eq_iff key_hash_def hash_with_domain_def fee_env_def)
  then show ?thesis by (simp add: inj_key_hash_toy)
qed

lemma mirrored_memory: "mirrored E memory_db"
  by (simp add: mirrored_def synced_memory_db)

text \<open>A follower with the accounts of the validator's database, one block behind.\<close>

definition follower_db :: state_db where
  "follower_db = write_all fee_env fee_codec [(own_address, seat)] (sample_block []) 0 memory_db"

theorem sync_replica_agrees_witness:
  "\<exists>en' db'. handle_precommit locked_env fee_codec [] (seat_vote val_hash) val_engine = Blocked en' \<and>
     sync_block locked_env fee_codec 0 (sample_block []) follower_db = Ret (Inr 1) db' \<and>
     get_state_root locked_env (en_db en') = get_state_root locked_env db'"
proof -
  obtain en' where run: "handle_precommit locked_env fee_codec [] (seat_vote val_hash) val_engine = Blocked en'"
    using val_waits by blast
  have h: "h_height (b_header (sample_block [])) = 1" "b_transactions (sample_block []) = []"
    "h_prev_hash (b_header (sample_block [])) = HASH_ZERO" "block_hash locked_env (sample_block []) = HASH_ZERO"
    by (simp_all add: sample_block_def sample_header_def header_new_unsigned_def locked_same block_hash_fee HASH_ZERO_def)
  have val: "en_db val_engine = val_db" "proposed_block val_engine = Some (sample_block [])"
    by (simp_all add: val_engine_def)
  have vdb: "val_db = write_all locked_env fee_codec [(own_address, seat)] (sample_block []) 1 memory_db"
    by (simp add: val_db_def commit_block_write_all h write_all_locked)
  have fdb: "follower_db = write_all locked_env fee_codec [(own_address, seat)] (sample_block []) 0 memory_db"
    by (simp add: follower_db_def write_all_locked)
  note apart = no_key_clash [OF no_clash_inj [OF inj_key_hash_locked]]
  have mir: "mirrored locked_env val_db" "mirrored locked_env follower_db"
    unfolding vdb fdb by (auto intro: mirrored_write apart mirrored_memory)
  have same: "same_accounts val_db follower_db"
    unfolding vdb fdb by (rule same_accounts_write) (simp_all add: same_accounts_def)
  have path: "kv_path (db_kv follower_db) = None"
    by (simp add: follower_db_def write_all_def apply_batch_def memory_db_def open_in_memory_def)
  have prev: "get_block_by_height fee_codec follower_db 0 = Some (sample_block [])"
    by (simp add: follower_db_def get_block_by_height_write_all fee_codec_def)
  obtain r where "commit_block locked_env fee_codec (sample_block []) [] follower_db =
      (Inr r, write_all locked_env fee_codec [] (sample_block []) 1 follower_db)"
    using commit_block_memory [OF path] h(1) by metis
  moreover have "validate_basic locked_env (sample_block []) = Inr ()"
    by (simp add: validate_basic_Inr sample_block_def compute_merkle_root_def from_leaf_hashes_def tree_root_def)
  ultimately have sync: "sync_block locked_env fee_codec 0 (sample_block []) follower_db =
      Ret (Inr (h_height (b_header (sample_block [])))) (write_all locked_env fee_codec [] (sample_block []) 1 follower_db)"
    by (simp add: sync_block_def add_ck_def prev h)
  have "handle_precommit locked_env fee_codec [] (seat_vote val_hash) val_engine \<in> {Ret (Some qc) en', Blocked en'}" for qc
    by (simp add: run)
  then have "get_state_root locked_env (en_db en') =
      get_state_root locked_env (write_all locked_env fee_codec [] (sample_block []) 1 follower_db)"
    using sync_replica_agrees [OF _ _ _ _ _ _ sync, of val_engine "[]" "seat_vote val_hash"] mir same
      no_clash_inj [OF inj_key_hash_locked]
    by (simp add: val h locked_same(5))
  with run sync h(1) show ?thesis by auto
qed

definition flat_env :: env where
  "flat_env = toy_env\<lparr>blake3 := (\<lambda>bs. if length bs = 85 then 0 else if length bs = 53 then 1 else 2)\<rparr>"

lemma climb_flat: "p \<noteq> [] \<Longrightarrow> climb flat_env h p = Hash 0"
proof (induction p arbitrary: h)
  case (Cons sr p)
  have "climb flat_env h (sr # p) = climb flat_env (Hash 0) p"
    by (cases sr) (simp add: hash_internal_node_def hash_with_domain_def domain_preimage_def flat_env_def
      DOMAIN_MERKLE_NODE_def)
  with Cons.IH show ?case by (cases p) auto
qed simp

theorem light_client_refuses_block_proofs_witness:
  "\<exists>p x y. verify_light_client_proof flat_env (Hash 0) (sample_signed 1) p \<and>
     clash flat_env (Hash 1) (Hash 2) (audit_path p) (audit_path p) = Some (x, y) \<and>
     blake3_collision flat_env x y"
proof -
  let ?txs = "[sample_signed 1, sample_signed 2]"
  have h: "tx_hash flat_env (sample_signed n) = Hash 2" for n
    by (simp add: tx_hash_def hash_with_domain_def domain_preimage_def flat_env_def tx_signing_bytes_def
        DOMAIN_TX_def)
  have leaf: "hash_leaf flat_env (hash_bytes_of k) = Hash 1" for k
    by (simp add: hash_leaf_def hash_with_domain_def domain_preimage_def flat_env_def DOMAIN_MERKLE_LEAF_def)
  have lt: "0 < length ?txs" by simp
  obtain p where p: "generate_proof (from_leaf_hashes flat_env (map (tx_hash flat_env) ?txs)) 0 = Some (Some p)"
    "climb flat_env (map (tx_hash flat_env) ?txs ! 0) (audit_path p) =
       tree_root (from_leaf_hashes flat_env (map (tx_hash flat_env) ?txs))"
    using generate_proof_climb [of 0 "map (tx_hash flat_env) ?txs" flat_env] by auto
  have root: "tree_root (from_leaf_hashes flat_env (map (tx_hash flat_env) ?txs)) = Hash 0"
    by (simp add: tree_root_from_leaf_hashes build_levels.simps hash_internal_node_def h
        hash_with_domain_def domain_preimage_def flat_env_def DOMAIN_MERKLE_NODE_def)
  have "audit_path p \<noteq> []" using p(2) unfolding root by (auto simp: h)
  then have ver: "verify_light_client_proof flat_env (Hash 0) (sample_signed 1) p"
    by (simp add: verify_light_client_proof_def proof_verify_def climb_flat)
  with light_client_refuses_block_proofs [OF lt p(1)] show ?thesis
    unfolding root by (auto simp: h leaf)
qed

end
