(* ===== verification/Text.thy ===== *)
theory Text
  imports Crypto
begin

text \<open>
  The textual and wire forms of addresses, public keys and signatures (\<open>address.rs\<close>,
  \<open>keys.rs\<close>; those of hashes are in \<open>Crypto\<close>): what \<open>to_hex\<close>, \<open>Display\<close> and the serde
  implementations write and read. The laws that make a form readable again are stated once,
  as a locale, and hold for every type.
\<close>

section \<open>Numbers\<close>

text \<open>\<open>Display\<close> of an unsigned integer.\<close>

fun show_nat :: "nat \<Rightarrow> string" where
  "show_nat n =
     (if n < 10 then [char_of (48 + n)] else show_nat (n div 10) @ [char_of (48 + n mod 10)])"

declare show_nat.simps [simp del]

lemma length_show_nat: "n < 10 ^ Suc k \<Longrightarrow> length (show_nat n) \<le> Suc k"
proof (induction k arbitrary: n)
  case 0
  then show ?case by (subst show_nat.simps) simp
next
  case (Suc k)
  then have "n div 10 < 10 ^ Suc k" by simp
  from Suc.IH [OF this] show ?case by (subst show_nat.simps) simp
qed

section \<open>Hashes, public keys and signatures\<close>

definition hash_display :: "env \<Rightarrow> hash \<Rightarrow> string" where
  "hash_display E h = hex_encode E (hash_bytes_of h)"

definition pk_to_hex :: "env \<Rightarrow> public_key \<Rightarrow> string" where
  "pk_to_hex E pk = hex_encode E (pk_bytes pk)"

definition pk_display :: "env \<Rightarrow> public_key \<Rightarrow> string" where
  "pk_display E pk = hex_encode E (pk_bytes pk)"

definition pk_serialize :: "env \<Rightarrow> bool \<Rightarrow> public_key \<Rightarrow> wire" where
  "pk_serialize E human pk = (if human then WireStr (pk_to_hex E pk) else WireBytes (pk_bytes pk))"

text \<open>The outer option is a panic of \<open>copy_from_slice\<close>, the inner one a refused input.\<close>

definition pk_deserialize :: "env \<Rightarrow> wire \<Rightarrow> public_key option option" where
  "pk_deserialize E w =
     (case w of
        WireStr s \<Rightarrow> map_option (case_sum (\<lambda>_. None) Some) (pubkey_from_str E s)
      | WireBytes bs \<Rightarrow>
          if length bs \<noteq> 32 then Some None
          else map_option (\<lambda>v. Some (PublicKey v)) (copy_from_slice 32 bs))"

definition sig_to_hex :: "env \<Rightarrow> signature \<Rightarrow> string" where
  "sig_to_hex E sg = hex_encode E (sig_bytes sg)"

definition sig_display :: "env \<Rightarrow> signature \<Rightarrow> string" where
  "sig_display E sg = hex_encode E (sig_bytes sg)"

definition sig_serialize :: "env \<Rightarrow> bool \<Rightarrow> signature \<Rightarrow> wire" where
  "sig_serialize E human sg = (if human then WireStr (sig_to_hex E sg) else WireBytes (sig_bytes sg))"

definition sig_deserialize :: "env \<Rightarrow> wire \<Rightarrow> signature option option" where
  "sig_deserialize E w =
     (case w of
        WireStr s \<Rightarrow> map_option (case_sum (\<lambda>_. None) Some) (signature_from_str E s)
      | WireBytes bs \<Rightarrow>
          if length bs \<noteq> 64 then Some None
          else map_option (\<lambda>v. Some (Signature v)) (copy_from_slice 64 bs))"

section \<open>Key pairs\<close>

text \<open>The 32 secret bytes are drawn by the operating system.\<close>

definition keypair_generate :: "env \<Rightarrow> 256 word \<Rightarrow> key_pair" where
  "keypair_generate E drawn = \<lparr>signing_key = drawn, kp_public = PublicKey (ed_public E drawn)\<rparr>"

definition secret_bytes :: "key_pair \<Rightarrow> 256 word" where
  "secret_bytes kp = signing_key kp"

section \<open>Addresses\<close>

definition address_to_hex :: "env \<Rightarrow> address \<Rightarrow> string" where
  "address_to_hex E a = hex_encode E (addr_bytes a)"

definition address_display :: "env \<Rightarrow> address \<Rightarrow> string" where
  "address_display E a =
     (case to_bech32 E a DEFAULT_HRP of Inl _ \<Rightarrow> hex_encode E (addr_bytes a) | Inr s \<Rightarrow> s)"

definition address_serialize :: "env \<Rightarrow> bool \<Rightarrow> address \<Rightarrow> address_error + wire" where
  "address_serialize E human a =
     (if human
      then (case to_bech32 E a DEFAULT_HRP of Inl e \<Rightarrow> Inl e | Inr s \<Rightarrow> Inr (WireStr s))
      else Inr (WireBytes (addr_bytes a)))"

definition address_deserialize :: "env \<Rightarrow> wire \<Rightarrow> address option option" where
  "address_deserialize E w =
     (case w of
        WireStr s \<Rightarrow> map_option (case_sum (\<lambda>_. None) Some) (address_from_str E s)
      | WireBytes bs \<Rightarrow>
          if length bs \<noteq> 20 then Some None
          else map_option (\<lambda>v. Some (Address v)) (copy_from_slice 20 bs))"

section \<open>Laws of textual forms\<close>

text \<open>
  Documented behaviour of the bech32 crate: the human-readable part \<open>aura\<close> is valid, twenty
  bytes can be encoded, the text starts with that part, and decoding reads both back.
\<close>

definition bech32_laws :: "env \<Rightarrow> bool" where
  "bech32_laws E \<longleftrightarrow> hrp_error E DEFAULT_HRP = None \<and>
     (\<forall>bs. length bs = 20 \<longrightarrow> (\<exists>s. bech32_encode E DEFAULT_HRP bs = Inr s)) \<and>
     (\<forall>bs s. bech32_encode E DEFAULT_HRP bs = Inr s \<longrightarrow>
        take 4 s = DEFAULT_HRP \<and> bech32_decode E s = Inr (DEFAULT_HRP, bs))"

definition text_laws :: "env \<Rightarrow> bool" where
  "text_laws E \<longleftrightarrow> hex_laws E \<and> bech32_laws E"

text \<open>
  What a type with a textual and a binary form promises: both are read back, and reading
  text never panics.
\<close>

locale wire_type = byte_array to_bytes size
  for to_bytes :: "'a \<Rightarrow> bytes" and size +
  fixes put_wire :: "env \<Rightarrow> bool \<Rightarrow> 'a \<Rightarrow> wire option"
    and get_wire :: "env \<Rightarrow> wire \<Rightarrow> 'a option option"
  assumes put_wire_binary: "put_wire E False a = Some (WireBytes (to_bytes a))"
    and put_wire_text: "text_laws E \<Longrightarrow> \<exists>s. put_wire E True a = Some (WireStr s)"
    and get_put: "text_laws E \<Longrightarrow> put_wire E human a = Some w \<Longrightarrow> get_wire E w = Some (Some a)"
    and get_total: "text_laws E \<Longrightarrow> get_wire E w \<noteq> None"
    and read_binary: "get_wire E (WireBytes bs) = Some (Some a) \<Longrightarrow> to_bytes a = bs"
begin

lemma roundtrip:
  assumes "text_laws E"
  shows "\<exists>w. put_wire E human a = Some w \<and> get_wire E w = Some (Some a)"
proof -
  have "\<exists>w. put_wire E human a = Some w"
    using put_wire_binary [of E a] put_wire_text [OF assms, of a] by (cases human) auto
  then show ?thesis using get_put [OF assms] by blast
qed

lemma text_inject:
  assumes "text_laws E" and "put_wire E human a = put_wire E human b"
  shows "a = b"
proof -
  obtain w where "put_wire E human a = Some w" "get_wire E w = Some (Some a)"
    using roundtrip [OF assms(1)] by blast
  with assms get_put [of E human b w] show ?thesis by simp
qed

lemma binary_canonical: "get_wire E (WireBytes bs) = Some (Some a) \<Longrightarrow> put_wire E False a = Some (WireBytes bs)"
  by (simp add: put_wire_binary read_binary)

end

lemma strip_0x_hex: "text_laws E \<Longrightarrow> strip_0x (hex_encode E bs) = hex_encode E bs"
  by (simp add: text_laws_def strip_0x_encode)

lemma of_be_bytes_newtypes:
  "PublicKey (of_be_bytes (pk_bytes pk)) = pk" "Signature (of_be_bytes (sig_bytes sg)) = sg"
  "Address (of_be_bytes (addr_bytes a)) = a" "Hash (of_be_bytes (hash_bytes_of h)) = h"
  by (cases pk, simp add: pk_bytes_def of_be_bytes_be_bytes)
     (cases sg, simp add: sig_bytes_def of_be_bytes_be_bytes,
      cases a, simp add: addr_bytes_def of_be_bytes_be_bytes,
      cases h, simp add: hash_bytes_of_def of_be_bytes_be_bytes)

text \<open>Reading hex of a fixed length never panics.\<close>

lemma hex_slice_total:
  "hex_laws E \<Longrightarrow> hex_decode E s = Inr bs \<Longrightarrow> length s = 2 * n \<Longrightarrow> copy_from_slice n bs = Some (of_be_bytes bs)"
  using hex_lawsD(1) [of E s bs] by (simp add: copy_from_slice_def)

lemma pubkey_from_str_text:
  assumes "text_laws E"
  shows "pubkey_from_str E (pk_to_hex E pk) = Some (Inr pk)" and "pubkey_from_str E s \<noteq> None"
proof -
  have h: "hex_laws E" using assms by (simp add: text_laws_def)
  show "pubkey_from_str E (pk_to_hex E pk) = Some (Inr pk)"
    by (simp add: pubkey_from_str_def pk_to_hex_def strip_0x_hex [OF assms] hex_lawsD [OF h]
        copy_from_slice_def of_be_bytes_newtypes)
  show "pubkey_from_str E s \<noteq> None"
    using hex_slice_total [OF h, of _ _ 32] by (auto simp: pubkey_from_str_def Let_def split: sum.split)
qed

lemma signature_from_str_text:
  assumes "text_laws E"
  shows "signature_from_str E (sig_to_hex E sg) = Some (Inr sg)" and "signature_from_str E s \<noteq> None"
proof -
  have h: "hex_laws E" using assms by (simp add: text_laws_def)
  show "signature_from_str E (sig_to_hex E sg) = Some (Inr sg)"
    by (simp add: signature_from_str_def sig_to_hex_def strip_0x_hex [OF assms] hex_lawsD [OF h]
        copy_from_slice_def of_be_bytes_newtypes)
  show "signature_from_str E s \<noteq> None"
    using hex_slice_total [OF h, of _ _ 64] by (auto simp: signature_from_str_def Let_def split: sum.split)
qed

lemma hash_from_str_total:
  assumes "text_laws E"
  shows "hash_from_str E s \<noteq> None"
proof -
  have h: "hex_laws E" using assms by (simp add: text_laws_def)
  show ?thesis using hex_slice_total [OF h, of _ _ 32] by (auto simp: hash_from_str_def Let_def split: sum.split)
qed

lemma to_bech32_text:
  assumes "text_laws E"
  shows "\<exists>s. to_bech32 E a DEFAULT_HRP = Inr s \<and> address_from_str E s = Some (Inr a)"
proof -
  have b: "hrp_error E DEFAULT_HRP = None"
    "\<And>bs. length bs = 20 \<Longrightarrow> \<exists>s. bech32_encode E DEFAULT_HRP bs = Inr s"
    "\<And>bs s. bech32_encode E DEFAULT_HRP bs = Inr s \<Longrightarrow> take 4 s = DEFAULT_HRP \<and> bech32_decode E s = Inr (DEFAULT_HRP, bs)"
    using assms unfolding text_laws_def bech32_laws_def by blast+
  obtain s where "bech32_encode E DEFAULT_HRP (addr_bytes a) = Inr s" using b(2) [of "addr_bytes a"] by auto
  with b(1) b(3) [OF this] show ?thesis
    by (simp add: to_bech32_def address_from_str_def from_bech32_def copy_from_slice_def of_be_bytes_newtypes)
qed

lemma address_from_str_total:
  assumes "text_laws E"
  shows "address_from_str E s \<noteq> None"
proof (cases "take 4 s = DEFAULT_HRP")
  case True
  then show ?thesis
    by (simp add: address_from_str_def from_bech32_def copy_from_slice_def split: sum.split prod.split)
next
  case False
  have h: "hex_laws E" using assms by (simp add: text_laws_def)
  from False show ?thesis
    using hex_slice_total [OF h, of _ _ 20] by (auto simp: address_from_str_def Let_def split: sum.split)
qed

lemma copy_from_slice_read:
  "copy_from_slice n bs = Some (w :: 'a::len word) \<Longrightarrow> LENGTH('a) = 8 * n \<Longrightarrow> be_bytes n w = bs"
  by (auto simp: copy_from_slice_def be_bytes_of_be_bytes split: if_splits)

interpretation hash_wire: wire_type hash_bytes_of 32 "\<lambda>E human h. Some (hash_serialize E human h)" hash_deserialize
proof (unfold_locales, goal_cases)
  case (3 E human a w)
  then have "hex_laws E" by (simp add: text_laws_def)
  then have "hash_from_str E (hash_to_hex E a) = Some (Inr a)"
    by (simp add: hash_from_str_def hash_to_hex_def strip_0x_hex [OF 3(1)] hex_lawsD copy_from_slice_def
        of_be_bytes_newtypes)
  with 3(2) show ?case
    by (cases human) (auto simp: hash_serialize_def hash_deserialize_def copy_from_slice_def of_be_bytes_newtypes)
next
  case (4 E w)
  show ?case
    by (cases w) (simp_all add: hash_deserialize_def hash_from_str_total [OF 4] copy_from_slice_def split: option.split sum.split)
next
  case (5 E bs a)
  then show ?case
    by (auto simp: hash_deserialize_def hash_bytes_of_def split: if_splits dest: copy_from_slice_read)
qed (auto simp: hash_serialize_def)

interpretation pk_wire: wire_type pk_bytes 32 "\<lambda>E human pk. Some (pk_serialize E human pk)" pk_deserialize
proof (unfold_locales, goal_cases)
  case (3 E human a w)
  then show ?case
    by (cases human) (auto simp: pk_serialize_def pk_deserialize_def pubkey_from_str_text copy_from_slice_def
        of_be_bytes_newtypes)
next
  case (4 E w)
  show ?case
    by (cases w) (simp_all add: pk_deserialize_def pubkey_from_str_text(2) [OF 4] copy_from_slice_def split: option.split sum.split)
next
  case (5 E bs a)
  then show ?case
    by (auto simp: pk_deserialize_def pk_bytes_def split: if_splits dest: copy_from_slice_read)
qed (auto simp: pk_serialize_def)

interpretation sig_wire: wire_type sig_bytes 64 "\<lambda>E human sg. Some (sig_serialize E human sg)" sig_deserialize
proof (unfold_locales, goal_cases)
  case (3 E human a w)
  then show ?case
    by (cases human) (auto simp: sig_serialize_def sig_deserialize_def signature_from_str_text copy_from_slice_def
        of_be_bytes_newtypes)
next
  case (4 E w)
  show ?case
    by (cases w) (simp_all add: sig_deserialize_def signature_from_str_text(2) [OF 4] copy_from_slice_def split: option.split sum.split)
next
  case (5 E bs a)
  then show ?case
    by (auto simp: sig_deserialize_def sig_bytes_def split: if_splits dest: copy_from_slice_read)
qed (auto simp: sig_serialize_def)

interpretation addr_wire: wire_type addr_bytes 20
  "\<lambda>E human a. case_sum (\<lambda>_. None) Some (address_serialize E human a)" address_deserialize
proof (unfold_locales, goal_cases)
  case (2 E a)
  then show ?case using to_bech32_text [OF 2, of a] by (auto simp: address_serialize_def)
next
  case (3 E human a w)
  then show ?case
    using to_bech32_text [OF 3(1), of a]
    by (cases human) (auto simp: address_serialize_def address_deserialize_def copy_from_slice_def
        of_be_bytes_newtypes)
next
  case (4 E w)
  show ?case
    by (cases w) (simp_all add: address_deserialize_def address_from_str_total [OF 4] copy_from_slice_def split: option.split sum.split)
next
  case (5 E bs a)
  then show ?case
    by (auto simp: address_deserialize_def addr_bytes_def split: if_splits dest: copy_from_slice_read)
qed (auto simp: address_serialize_def)

lemma text_laws_toy: "text_laws toy_env"
  using hex_laws_toy by (auto simp: text_laws_def bech32_laws_def toy_env_def DEFAULT_HRP_def)

section \<open>Properties\<close>

text \<open>
  Addresses, keys, signatures and hashes survive both of their wire forms, each form
  tells different values apart, no input makes a reader panic, and the binary form read is
  the binary form that would be written.
\<close>
theorem wire_roundtrip:
  assumes "text_laws E"
  shows "(\<exists>w. address_serialize E human a = Inr w \<and> address_deserialize E w = Some (Some a)) \<and>
    pk_deserialize E (pk_serialize E human pk) = Some (Some pk) \<and>
    sig_deserialize E (sig_serialize E human sg) = Some (Some sg) \<and>
    hash_deserialize E (hash_serialize E human h) = Some (Some h) \<and>
    (address_serialize E human a = address_serialize E human b \<longleftrightarrow> a = b) \<and>
    address_deserialize E w \<noteq> None \<and> pk_deserialize E w \<noteq> None \<and> sig_deserialize E w \<noteq> None \<and>
    (pk_deserialize E (WireBytes bs) = Some (Some pk) \<longleftrightarrow> pk_serialize E False pk = WireBytes bs)"
proof -
  obtain v where "case_sum (\<lambda>_. None) Some (address_serialize E human a) = Some v"
    "address_deserialize E v = Some (Some a)"
    using addr_wire.roundtrip [OF assms] by blast
  then have "\<exists>w. address_serialize E human a = Inr w \<and> address_deserialize E w = Some (Some a)"
    by (auto split: sum.splits)
  moreover have "pk_deserialize E (WireBytes bs) = Some (Some pk) \<longleftrightarrow> pk_serialize E False pk = WireBytes bs"
    using pk_wire.binary_canonical [of E bs pk] pk_wire.get_put [OF assms, of False pk] by auto
  ultimately show ?thesis
    using pk_wire.get_put [OF assms] sig_wire.get_put [OF assms] hash_wire.get_put [OF assms]
      addr_wire.text_inject [OF assms, of human a b] addr_wire.get_total [OF assms]
      pk_wire.get_total [OF assms] sig_wire.get_total [OF assms] by auto
qed

theorem wire_roundtrip_witness:
  "text_laws toy_env \<and> pk_deserialize toy_env (pk_serialize toy_env True (PublicKey 7)) = Some (Some (PublicKey 7))"
  using wire_roundtrip [OF text_laws_toy] text_laws_toy by blast

text \<open>Printing an address and parsing it gives the address back.\<close>

theorem address_display_parses:
  assumes "text_laws E"
  shows "address_from_str E (address_display E a) = Some (Inr a)"
  using to_bech32_text [OF assms, of a] by (auto simp: address_display_def)

theorem address_display_parses_witness:
  "address_from_str toy_env (address_display toy_env (Address 9)) = Some (Inr (Address 9))"
  using address_display_parses [OF text_laws_toy] .

section \<open>Arrays and debug forms\<close>

text \<open>
  The newtypes wrap arrays of their size; an array is its bytes. \<open>to_bytes\<close>, \<open>as_ref\<close> and the
  conversion back to an array are \<open>hash_bytes_of\<close>, \<open>pk_bytes\<close>, \<open>sig_bytes\<close> and \<open>addr_bytes\<close>.
\<close>

definition hash_new :: "bytes \<Rightarrow> hash" where
  "hash_new arr = Hash (of_be_bytes arr)"

definition pk_from_bytes :: "bytes \<Rightarrow> public_key" where
  "pk_from_bytes arr = PublicKey (of_be_bytes arr)"

definition sig_from_bytes :: "bytes \<Rightarrow> signature" where
  "sig_from_bytes arr = Signature (of_be_bytes arr)"

definition address_from_bytes :: "bytes \<Rightarrow> address" where
  "address_from_bytes arr = Address (of_be_bytes arr)"

definition hash_debug :: "env \<Rightarrow> hash \<Rightarrow> string" where
  "hash_debug E h = ''Hash('' @ hex_encode E (hash_bytes_of h) @ '')''"

definition pk_debug :: "env \<Rightarrow> public_key \<Rightarrow> string" where
  "pk_debug E pk = ''PublicKey('' @ hex_encode E (pk_bytes pk) @ '')''"

definition sig_debug :: "env \<Rightarrow> signature \<Rightarrow> string" where
  "sig_debug E sg = ''Signature('' @ hex_encode E (sig_bytes sg) @ '')''"

definition address_debug :: "env \<Rightarrow> address \<Rightarrow> string" where
  "address_debug E a = ''Address('' @ address_display E a @ '')''"

lemma arrays_wrap:
  "length bs = 32 \<Longrightarrow> hash_bytes_of (hash_new bs) = bs" "hash_new (hash_bytes_of h) = h"
  "length bs = 32 \<Longrightarrow> pk_bytes (pk_from_bytes bs) = bs" "pk_from_bytes (pk_bytes pk) = pk"
  "length bs = 64 \<Longrightarrow> sig_bytes (sig_from_bytes bs) = bs" "sig_from_bytes (sig_bytes sg) = sg"
  "length bs = 20 \<Longrightarrow> addr_bytes (address_from_bytes bs) = bs" "address_from_bytes (addr_bytes a) = a"
  by (simp_all add: hash_new_def pk_from_bytes_def sig_from_bytes_def address_from_bytes_def of_be_bytes_newtypes)
    (simp_all add: hash_bytes_of_def pk_bytes_def sig_bytes_def addr_bytes_def be_bytes_of_be_bytes)

lemma hex_encode_inject: "hex_laws E \<Longrightarrow> hex_encode E xs = hex_encode E ys \<Longrightarrow> xs = ys"
  using hex_lawsD(2) by (metis Inr_inject)

text \<open>What is logged of a value identifies it.\<close>

theorem debug_forms_distinct:
  assumes "text_laws E"
  shows "(hash_debug E h = hash_debug E h' \<longrightarrow> h = h') \<and> (pk_debug E pk = pk_debug E pk' \<longrightarrow> pk = pk') \<and>
    (sig_debug E sg = sig_debug E sg' \<longrightarrow> sg = sg') \<and> (address_debug E a = address_debug E a' \<longrightarrow> a = a')"
proof -
  have hex: "hex_laws E" and b32: "bech32_laws E" using assms by (simp_all add: text_laws_def)
  have "\<exists>s. to_bech32 E x DEFAULT_HRP = Inr s \<and> bech32_decode E s = Inr (DEFAULT_HRP, addr_bytes x)" for x
  proof -
    obtain s where s: "bech32_encode E DEFAULT_HRP (addr_bytes x) = Inr s"
      using b32 unfolding bech32_laws_def by (metis addr_arr.length_to_bytes)
    with b32 show ?thesis unfolding bech32_laws_def to_bech32_def by simp
  qed
  then have "addr_bytes a = addr_bytes a'" if "address_display E a = address_display E a'"
    using that unfolding address_display_def by (metis Inr_inject Pair_inject sum.simps(6))
  then show ?thesis
    using hex_encode_inject [OF hex]
    by (auto simp: hash_debug_def pk_debug_def sig_debug_def address_debug_def
        dest: hash_arr.to_bytes_inject pk_arr.to_bytes_inject sig_arr.to_bytes_inject addr_arr.to_bytes_inject)
qed

section \<open>Text of bytes\<close>

text \<open>Well-formed UTF-8, the check of \<open>String::from_utf8\<close>.\<close>

definition utf8_tail :: "u8 \<Rightarrow> bool" where
  "utf8_tail b \<longleftrightarrow> 0x80 \<le> b \<and> b \<le> 0xBF"

function utf8_ok :: "bytes \<Rightarrow> bool" where
  "utf8_ok bs =
     (case bs of
        [] \<Rightarrow> True
      | a # r \<Rightarrow>
          if a \<le> 0x7F then utf8_ok r
          else if 0xC2 \<le> a \<and> a \<le> 0xDF then r \<noteq> [] \<and> utf8_tail (hd r) \<and> utf8_ok (drop 1 r)
          else if 0xE0 \<le> a \<and> a \<le> 0xEF then
            2 \<le> length r \<and>
            (if a = 0xE0 then 0xA0 \<le> r ! 0 \<and> r ! 0 \<le> 0xBF
             else if a = 0xED then 0x80 \<le> r ! 0 \<and> r ! 0 \<le> 0x9F else utf8_tail (r ! 0)) \<and>
            utf8_tail (r ! 1) \<and> utf8_ok (drop 2 r)
          else if 0xF0 \<le> a \<and> a \<le> 0xF4 then
            3 \<le> length r \<and>
            (if a = 0xF0 then 0x90 \<le> r ! 0 \<and> r ! 0 \<le> 0xBF
             else if a = 0xF4 then 0x80 \<le> r ! 0 \<and> r ! 0 \<le> 0x8F else utf8_tail (r ! 0)) \<and>
            utf8_tail (r ! 1) \<and> utf8_tail (r ! 2) \<and> utf8_ok (drop 3 r)
          else False)"
  by pat_completeness auto
termination
  by (relation "measure length") auto

declare utf8_ok.simps [simp del]

definition string_of_bytes :: "bytes \<Rightarrow> string" where
  "string_of_bytes bs = map (\<lambda>b. char_of (unat b)) bs"

lemma string_of_str_bytes: "string_of_bytes (str_bytes s) = s"
proof -
  have "char_of (unat (word_of_nat (of_char c) :: u8)) = c" for c :: char
    using nat_of_char_less_256 [of c] by (simp add: unat_of_nat)
  then show ?thesis by (simp add: string_of_bytes_def str_bytes_def map_idI)
qed

end
