(* ===== verification/Rpc.thy ===== *)
theory Rpc
  imports Peers Text
begin

text \<open>
  \<open>aura-rpc\<close>: the JSON-RPC methods of a node (\<open>server.rs\<close>, \<open>types.rs\<close>) on its state
  database, mempool and peers. serde_json is third-party: its values are a type parameter
  \<open>'j\<close> and what the code uses of it, including the derived serializers, is the record
  \<open>json_lib\<close>. The web framework itself and the metrics registry are not modelled.
\<close>

section \<open>Error texts\<close>

fun crypto_error_text :: "crypto_error \<Rightarrow> string" where
  "crypto_error_text InvalidKeyLength = ''invalid key length''"
| "crypto_error_text InvalidSignatureLength = ''invalid signature length''"
| "crypto_error_text SignatureVerificationFailed = ''signature verification failed''"
| "crypto_error_text (InvalidPublicKey e) = ''invalid public key: '' @ e"
| "crypto_error_text (CryptoHexDecode e) = ''hex decode error: '' @ e"

fun primitive_error_text :: "env \<Rightarrow> primitive_error \<Rightarrow> string" where
  "primitive_error_text E (CryptoE e) = ''crypto error: '' @ crypto_error_text e"
| "primitive_error_text E InvalidSignature = ''invalid transaction signature''"
| "primitive_error_text E AddressMismatch = ''sender address does not match public key''"
| "primitive_error_text E PrimInvalidAmount = ''amount overflow or zero amount''"
| "primitive_error_text E PrimInsufficientFee = ''insufficient fee: minimum fee required''"
| "primitive_error_text E (MerkleRootMismatch x y) =
     ''merkle root mismatch: expected '' @ hash_display E x @ '', calculated '' @ hash_display E y"
| "primitive_error_text E (InvalidBlockHeight m n) =
     ''invalid block height: expected '' @ show_nat (unat m) @ '', found '' @ show_nat (unat n)"
| "primitive_error_text E (InvalidPrevHash x y) =
     ''invalid prev hash: expected '' @ hash_display E x @ '', found '' @ hash_display E y"

fun validation_error_text :: "env \<Rightarrow> validation_error \<Rightarrow> string" where
  "validation_error_text E (PrimitiveV e) = ''primitive error: '' @ primitive_error_text E e"
| "validation_error_text E (ExceedsMaxSize sz limit) =
     ''transaction exceeds max size limit of '' @ show_nat limit @ '' bytes (size: '' @ show_nat sz @ '')''"
| "validation_error_text E (InsufficientFee fee min_fee) =
     ''insufficient fee: minimum fee is '' @ show_nat (unat min_fee) @ '', provided '' @ show_nat (unat fee)"
| "validation_error_text E InvalidAmount = ''zero or overflow amount''"
| "validation_error_text E (InsufficientBalance bal required) =
     ''insufficient sender balance: balance '' @ show_nat (unat bal) @ '', required '' @ show_nat (unat required)"
| "validation_error_text E (NonceTooLow expected got) =
     ''nonce too low: expected >= '' @ show_nat (unat expected) @ '', got '' @ show_nat (unat got)"
| "validation_error_text E (NonceGapTooLarge expected got) =
     ''nonce gap too large: expected '' @ show_nat (unat expected) @ '', got '' @ show_nat (unat got)"
| "validation_error_text E AlreadyValidator = ''account is already registered as validator''"
| "validation_error_text E NotValidator = ''account is not a validator''"
| "validation_error_text E InsufficientStake = ''insufficient stake amount''"

fun mempool_error_text :: "env \<Rightarrow> mempool_error \<Rightarrow> string" where
  "mempool_error_text E (Validation e) = ''validation error: '' @ validation_error_text E e"
| "mempool_error_text E (Duplicate h) = ''transaction already exists in mempool: '' @ hash_display E h"
| "mempool_error_text E PoolFull = ''mempool full and transaction fee too low to evict''"
| "mempool_error_text E (InsufficientRbfBump n) =
     ''insufficient fee bump for RBF (required at least +'' @ show_nat (unat n) @ ''%)''"

section \<open>Requests and responses\<close>

record 'j json_lib =
  js_get :: "'j \<Rightarrow> string \<Rightarrow> 'j option"
  js_as_array :: "'j \<Rightarrow> 'j list option"
  js_as_u64 :: "'j \<Rightarrow> u64 option"
  js_as_str :: "'j \<Rightarrow> string option"
  js_null :: 'j
  js_bool :: "bool \<Rightarrow> 'j"
  js_uint :: "nat \<Rightarrow> 'j"
  js_str :: "string \<Rightarrow> 'j"
  js_list :: "'j list \<Rightarrow> 'j"
  js_object :: "(string \<times> 'j) list \<Rightarrow> 'j"
  js_block :: "block \<Rightarrow> 'j"
  js_account :: "account \<Rightarrow> 'j"
  js_tx :: "transaction \<Rightarrow> 'j"
  js_hash :: "hash \<Rightarrow> 'j"
  js_read_tx :: "'j \<Rightarrow> string + transaction"
  js_custom_error :: "string \<Rightarrow> string"
  js_text :: "'j \<Rightarrow> string"
  js_parse :: "string \<Rightarrow> string + 'j"

record 'j rpc_request =
  rq_jsonrpc :: string
  rq_id :: 'j
  rq_method :: string
  rq_params :: 'j

record rpc_error =
  re_code :: i32
  re_message :: string

record 'j rpc_response =
  rp_jsonrpc :: string
  rp_id :: 'j
  rp_result :: "'j option"
  rp_error :: "rpc_error option"

definition rpc_success :: "'j \<Rightarrow> 'j \<Rightarrow> 'j rpc_response" where
  "rpc_success i result = \<lparr>rp_jsonrpc = ''2.0'', rp_id = i, rp_result = Some result, rp_error = None\<rparr>"

definition rpc_failure :: "'j \<Rightarrow> i32 \<Rightarrow> string \<Rightarrow> 'j rpc_response" where
  "rpc_failure i code message =
     \<lparr>rp_jsonrpc = ''2.0'', rp_id = i, rp_result = None,
      rp_error = Some \<lparr>re_code = code, re_message = message\<rparr>\<rparr>"

text \<open>The node behind the server; \<open>rs_sent\<close> lists the messages given to the broadcaster.\<close>

record rpc_state =
  rs_db :: state_db
  rs_pool :: mempool
  rs_peers :: peer_manager
  rs_chain_id :: string
  rs_sent :: "string list"

definition PKG_VERSION :: string where
  "PKG_VERSION = ''0.1.0''"

section \<open>Methods\<close>

text \<open>A parameter by name, or else the first one of an array.\<close>

definition rpc_param :: "'j json_lib \<Rightarrow> ('j \<Rightarrow> 'a option) \<Rightarrow> string \<Rightarrow> 'j \<Rightarrow> 'a option" where
  "rpc_param J read name params =
     (case Option.bind (js_get J params name) read of
        Some v \<Rightarrow> Some v
      | None \<Rightarrow>
          (case js_as_array J params of
             None \<Rightarrow> None
           | Some [] \<Rightarrow> None
           | Some (x # xs) \<Rightarrow> read x))"

text \<open>\<open>opt.and_then(|s| T::from_str(s).ok())\<close>; the outer option is a panic of \<open>from_str\<close>.\<close>

definition parse_param :: "(string \<Rightarrow> ('e + 'a) option) \<Rightarrow> string option \<Rightarrow> 'a option option" where
  "parse_param from_str s =
     (case s of
        None \<Rightarrow> Some None
      | Some t \<Rightarrow> map_option (case_sum (\<lambda>_. None) Some) (from_str t))"

definition get_block_height :: "'j json_lib \<Rightarrow> 'j rpc_request \<Rightarrow> rpc_state \<Rightarrow> ('j rpc_response, rpc_state) outcome" where
  "get_block_height J req st =
     Ret (rpc_success (rq_id req) (js_uint J (unat (get_latest_height (rs_db st))))) st"

definition rpc_block_by_height ::
  "codec \<Rightarrow> 'j json_lib \<Rightarrow> 'j rpc_request \<Rightarrow> rpc_state \<Rightarrow> ('j rpc_response, rpc_state) outcome" where
  "rpc_block_by_height C J req st =
     (case rpc_param J (js_as_u64 J) ''height'' (rq_params req) of
        Some h \<Rightarrow>
          (case get_block_by_height C (rs_db st) h of
             Some b \<Rightarrow> Ret (rpc_success (rq_id req) (js_block J b)) st
           | None \<Rightarrow> Ret (rpc_failure (rq_id req) (- 32602)
               (''Block at height '' @ show_nat (unat h) @ '' not found'')) st)
      | None \<Rightarrow> Ret (rpc_failure (rq_id req) (- 32602) ''Invalid parameters: missing height'') st)"

definition rpc_block_by_hash ::
  "env \<Rightarrow> codec \<Rightarrow> 'j json_lib \<Rightarrow> 'j rpc_request \<Rightarrow> rpc_state \<Rightarrow> ('j rpc_response, rpc_state) outcome" where
  "rpc_block_by_hash E C J req st =
     or_panic (parse_param (hash_from_str E) (rpc_param J (js_as_str J) ''hash'' (rq_params req))) st (\<lambda>p.
       case p of
         Some h \<Rightarrow>
           (case get_block_by_hash C (rs_db st) h of
              Some b \<Rightarrow> Ret (rpc_success (rq_id req) (js_block J b)) st
            | None \<Rightarrow> Ret (rpc_failure (rq_id req) (- 32602)
                (''Block '' @ hash_display E h @ '' not found'')) st)
       | None \<Rightarrow> Ret (rpc_failure (rq_id req) (- 32602) ''Invalid parameters: invalid block hash'') st)"

definition rpc_balance ::
  "env \<Rightarrow> codec \<Rightarrow> 'j json_lib \<Rightarrow> 'j rpc_request \<Rightarrow> rpc_state \<Rightarrow> ('j rpc_response, rpc_state) outcome" where
  "rpc_balance E C J req st =
     or_panic (parse_param (address_from_str E) (rpc_param J (js_as_str J) ''address'' (rq_params req))) st (\<lambda>p.
       case p of
         Some a \<Rightarrow>
           Ret (rpc_success (rq_id req) (js_uint J (unat (balance (get_account C (rs_db st) a))))) st
       | None \<Rightarrow> Ret (rpc_failure (rq_id req) (- 32602) ''Invalid address parameter'') st)"

definition rpc_account ::
  "env \<Rightarrow> codec \<Rightarrow> 'j json_lib \<Rightarrow> 'j rpc_request \<Rightarrow> rpc_state \<Rightarrow> ('j rpc_response, rpc_state) outcome" where
  "rpc_account E C J req st =
     or_panic (parse_param (address_from_str E) (rpc_param J (js_as_str J) ''address'' (rq_params req))) st (\<lambda>p.
       case p of
         Some a \<Rightarrow> Ret (rpc_success (rq_id req) (js_account J (get_account C (rs_db st) a))) st
       | None \<Rightarrow> Ret (rpc_failure (rq_id req) (- 32602) ''Invalid address parameter'') st)"

definition read_transaction :: "'j json_lib \<Rightarrow> 'j \<Rightarrow> string + transaction" where
  "read_transaction J params =
     (case js_read_tx J params of
        Inr tx \<Rightarrow> Inr tx
      | Inl _ \<Rightarrow>
          (case js_as_array J params of
             Some (x # xs) \<Rightarrow> js_read_tx J x
           | _ \<Rightarrow> Inl (js_custom_error J ''invalid tx format'')))"

definition send_transaction ::
  "env \<Rightarrow> codec \<Rightarrow> 'j json_lib \<Rightarrow> 'j rpc_request \<Rightarrow> rpc_state \<Rightarrow> ('j rpc_response, rpc_state) outcome" where
  "send_transaction E C J req st =
     (case read_transaction J (rq_params req) of
        Inl e \<Rightarrow> Ret (rpc_failure (rq_id req) (- 32602) (''Invalid transaction format: '' @ e)) st
      | Inr tx \<Rightarrow>
          (case add_transaction E C (rs_db st) tx (rs_pool st) of
             Ret (Inr h) mp \<Rightarrow>
               Ret (rpc_success (rq_id req) (js_object J [(''tx_hash'', js_str J (hash_to_hex E h))]))
                 (st\<lparr>rs_pool := mp, rs_sent := rs_sent st @
                    [js_text J (js_object J [(''type'', js_str J ''newTransaction''), (''tx'', js_tx J tx),
                       (''hash'', js_hash J h)])]\<rparr>)
           | Ret (Inl e) mp \<Rightarrow>
               Ret (rpc_failure (rq_id req) (- 32000) (''Mempool rejection: '' @ mempool_error_text E e))
                 (st\<lparr>rs_pool := mp\<rparr>)
           | Panic mp \<Rightarrow> Panic (st\<lparr>rs_pool := mp\<rparr>)
           | Blocked mp \<Rightarrow> Blocked (st\<lparr>rs_pool := mp\<rparr>)
           | Spin \<Rightarrow> Spin))"

definition rpc_validators ::
  "env \<Rightarrow> codec \<Rightarrow> 'j json_lib \<Rightarrow> 'j rpc_request \<Rightarrow> rpc_state \<Rightarrow> ('j rpc_response, rpc_state) outcome" where
  "rpc_validators E C J req st =
     Ret (rpc_success (rq_id req) (js_list J (map (\<lambda>(addr, acc).
       js_object J
         [(''address'', js_str J (address_display E addr)),
          (''pubkey'', case validator_pubkey acc of None \<Rightarrow> js_null J | Some pk \<Rightarrow> js_str J (pk_to_hex E pk)),
          (''staked_amount'', js_uint J (unat (staked_amount acc))),
          (''is_active'', js_bool J True)]) (get_validators C (rs_db st))))) st"

definition rpc_node_info ::
  "env \<Rightarrow> 'j json_lib \<Rightarrow> 'j rpc_request \<Rightarrow> rpc_state \<Rightarrow> ('j rpc_response, rpc_state) outcome" where
  "rpc_node_info E J req st =
     Ret (rpc_success (rq_id req) (js_object J
       [(''chain_id'', js_str J (rs_chain_id st)),
        (''latest_height'', js_uint J (unat (get_latest_height (rs_db st)))),
        (''state_root'', js_str J (hash_to_hex E (get_state_root E (rs_db st)))),
        (''peer_count'', js_uint J (active_peer_count (rs_peers st))),
        (''mempool_size'', js_uint J (mempool_len (rs_pool st))),
        (''version'', js_str J PKG_VERSION)])) st"

definition handle_rpc ::
  "env \<Rightarrow> codec \<Rightarrow> 'j json_lib \<Rightarrow> 'j rpc_request \<Rightarrow> rpc_state \<Rightarrow> ('j rpc_response, rpc_state) outcome" where
  "handle_rpc E C J req st =
     (let m = rq_method req in
      if m = ''getBlockHeight'' then get_block_height J req st
      else if m = ''getBlockByHeight'' then rpc_block_by_height C J req st
      else if m = ''getBlockByHash'' then rpc_block_by_hash E C J req st
      else if m = ''getBalance'' then rpc_balance E C J req st
      else if m = ''getAccount'' then rpc_account E C J req st
      else if m = ''sendTransaction'' then send_transaction E C J req st
      else if m = ''getValidators'' then rpc_validators E C J req st
      else if m = ''getNodeInfo'' then rpc_node_info E J req st
      else Ret (rpc_failure (rq_id req) (- 32601) (''Method '' @ [char_of (39 :: nat)] @ m @ [char_of (39 :: nat)] @ '' not found'')) st)"

text \<open>
  The routes of \<open>build_app\<close>. The web framework answers \<open>HEAD\<close> with the handler registered
  for \<open>GET\<close>, and refuses every other verb and path itself (\<open>None\<close>).
\<close>

datatype rpc_handler = HandleRpc | HealthCheck | HandleWs | HandleMetrics

definition route :: "string \<Rightarrow> string \<Rightarrow> rpc_handler option" where
  "route verb path =
     (let is_post = (verb = ''POST''); is_get = (verb = ''GET'' \<or> verb = ''HEAD'') in
      if path = ''/'' then (if is_post then Some HandleRpc else if is_get then Some HealthCheck else None)
      else if path = ''/rpc'' then (if is_post then Some HandleRpc else None)
      else if path = ''/ws'' then (if is_get then Some HandleWs else None)
      else if path = ''/metrics'' then (if is_get then Some HandleMetrics else None)
      else None)"

definition health_check :: "'j json_lib \<Rightarrow> nat \<times> 'j" where
  "health_check J =
     (200, js_object J [(''status'', js_str J ''healthy''), (''service'', js_str J ''aura-rpc''),
        (''version'', js_str J PKG_VERSION)])"

text \<open>
  A websocket forwards the messages its subscription yields until sending one fails;
  \<open>sends\<close> says which sends succeed. The list of messages ends where receiving fails, as it
  does for a subscriber more than 1024 messages behind.
\<close>

fun websocket_stream :: "(string list \<Rightarrow> string \<Rightarrow> bool) \<Rightarrow> string list \<Rightarrow> string list \<Rightarrow> string list" where
  "websocket_stream sends delivered [] = delivered"
| "websocket_stream sends delivered (msg # msgs) =
     (if sends delivered msg then websocket_stream sends (delivered @ [msg]) msgs else delivered)"

section \<open>Lemmas\<close>

lemmas rpc_method_defs =
  get_block_height_def rpc_block_by_height_def rpc_block_by_hash_def rpc_balance_def rpc_account_def
  rpc_validators_def rpc_node_info_def

lemma parse_param_total:
  "(\<And>t. from_str t \<noteq> None) \<Longrightarrow> \<exists>p. parse_param from_str s = Some p"
  by (cases s) (auto simp: parse_param_def)

definition well_formed_response :: "'j rpc_request \<Rightarrow> 'j rpc_response \<Rightarrow> bool" where
  "well_formed_response req resp \<longleftrightarrow>
     rp_jsonrpc resp = ''2.0'' \<and> rp_id resp = rq_id req \<and> (rp_result resp = None \<longleftrightarrow> rp_error resp \<noteq> None)"

lemma well_formed_simps [simp]:
  "well_formed_response req (rpc_success (rq_id req) x)"
  "well_formed_response req (rpc_failure (rq_id req) c m)"
  by (simp_all add: well_formed_response_def rpc_success_def rpc_failure_def)

lemma rpc_block_by_hash_Ret:
  assumes "rpc_block_by_hash E C J req st = Ret resp st'"
  shows "st' = st \<and> well_formed_response req resp"
proof -
  from assms obtain p where "(case p of
      Some h \<Rightarrow> (case get_block_by_hash C (rs_db st) h of
           Some b \<Rightarrow> Ret (rpc_success (rq_id req) (js_block J b)) st
         | None \<Rightarrow> Ret (rpc_failure (rq_id req) (- 32602) (''Block '' @ hash_display E h @ '' not found'')) st)
    | None \<Rightarrow> Ret (rpc_failure (rq_id req) (- 32602) ''Invalid parameters: invalid block hash'') st) = Ret resp st'"
    unfolding rpc_block_by_hash_def or_panic_Ret_iff by blast
  then show ?thesis by (auto split: option.split_asm)
qed

lemma read_method_Ret:
  assumes "handle_rpc E C J req st = Ret resp st'" and "rq_method req \<noteq> ''sendTransaction''"
  shows "st' = st \<and> well_formed_response req resp"
proof -
  consider "get_block_height J req st = Ret resp st'" | "rpc_block_by_height C J req st = Ret resp st'"
    | "rpc_block_by_hash E C J req st = Ret resp st'" | "rpc_balance E C J req st = Ret resp st'"
    | "rpc_account E C J req st = Ret resp st'" | "rpc_validators E C J req st = Ret resp st'"
    | "rpc_node_info E J req st = Ret resp st'"
    | c msg where "Ret (rpc_failure (rq_id req) c msg) st = Ret resp st'"
    using assms unfolding handle_rpc_def Let_def by (auto split: if_splits)
  then show ?thesis
    by cases (auto simp: get_block_height_def rpc_block_by_height_def rpc_balance_def rpc_account_def
      rpc_validators_def rpc_node_info_def or_panic_Ret_iff dest: rpc_block_by_hash_Ret split: option.split_asm)
qed

lemma send_transaction_Ret:
  assumes "send_transaction E C J req st = Ret resp st'"
  obtains (malformed) e where "read_transaction J (rq_params req) = Inl e" "st' = st"
      "resp = rpc_failure (rq_id req) (- 32602) (''Invalid transaction format: '' @ e)"
  | (accepted) tx h mp where "read_transaction J (rq_params req) = Inr tx"
      "add_transaction E C (rs_db st) tx (rs_pool st) = Ret (Inr h) mp"
      "resp = rpc_success (rq_id req) (js_object J [(''tx_hash'', js_str J (hash_to_hex E h))])"
      "st' = st\<lparr>rs_pool := mp, rs_sent := rs_sent st @
         [js_text J (js_object J [(''type'', js_str J ''newTransaction''), (''tx'', js_tx J tx), (''hash'', js_hash J h)])]\<rparr>"
  | (rejected) tx e mp where "read_transaction J (rq_params req) = Inr tx"
      "add_transaction E C (rs_db st) tx (rs_pool st) = Ret (Inl e) mp"
      "resp = rpc_failure (rq_id req) (- 32000) (''Mempool rejection: '' @ mempool_error_text E e)"
      "st' = st\<lparr>rs_pool := mp\<rparr>"
proof (cases "read_transaction J (rq_params req)")
  case (Inl e)
  with assms malformed show ?thesis by (simp add: send_transaction_def)
next
  case (Inr tx)
  show ?thesis
  proof (cases "add_transaction E C (rs_db st) tx (rs_pool st)")
    case (Ret r mp)
    with assms Inr accepted [OF Inr] rejected [OF Inr] show ?thesis
      by (cases r) (auto simp: send_transaction_def)
  qed (use assms Inr in \<open>simp_all add: send_transaction_def\<close>)
qed

section \<open>Properties\<close>

text \<open>
  Every response answers its request: version \<open>2.0\<close>, the request's identifier, and
  either a result or an error; no method changes the database, the peers or the chain, and
  only \<open>sendTransaction\<close> changes anything.
\<close>
theorem rpc_envelope:
  assumes "handle_rpc E C J req st = Ret resp st'"
  shows "rp_jsonrpc resp = ''2.0'' \<and> rp_id resp = rq_id req \<and>
    (rp_result resp = None \<longleftrightarrow> rp_error resp \<noteq> None) \<and>
    rs_db st' = rs_db st \<and> rs_peers st' = rs_peers st \<and> rs_chain_id st' = rs_chain_id st \<and>
    (if rq_method req = ''sendTransaction'' then True else st' = st)"
proof (cases "rq_method req = ''sendTransaction''")
  case False
  from read_method_Ret [OF assms False] False show ?thesis by (simp add: well_formed_response_def)
next
  case True
  with assms have "send_transaction E C J req st = Ret resp st'" by (simp add: handle_rpc_def)
  then show ?thesis
    by (cases rule: send_transaction_Ret) (auto simp: rpc_success_def rpc_failure_def True)
qed

text \<open>
  No request to read makes the server panic or wait: with text codecs that keep their
  documented laws, every method but \<open>sendTransaction\<close> returns a response, whatever its
  parameters are.
\<close>
theorem rpc_reads_return:
  assumes "text_laws E" and "rq_method req \<noteq> ''sendTransaction''"
  shows "\<exists>resp. handle_rpc E C J req st = Ret resp st"
proof -
  obtain p where p: "parse_param (hash_from_str E) (rpc_param J (js_as_str J) ''hash'' (rq_params req)) = Some p"
    using parse_param_total [of "hash_from_str E"] hash_from_str_total [OF assms(1)] by blast
  obtain a where a: "parse_param (address_from_str E) (rpc_param J (js_as_str J) ''address'' (rq_params req)) = Some a"
    using parse_param_total [of "address_from_str E"] address_from_str_total [OF assms(1)] by blast
  show ?thesis
    using assms(2) unfolding handle_rpc_def Let_def
    by (auto simp: rpc_method_defs p a split: option.split)
qed

text \<open>
  C31: what \<open>sendTransaction\<close> answers is what the pool said: with its hash exactly when the
  pool took the transaction, which is then in the pool under that hash, passes both validations
  against the stored account of its sender, and is broadcast once, as a \<open>newTransaction\<close>
  message; a malformed request changes nothing; a refused transaction is answered with the
  pool's error and broadcast to nobody, and the pool is the one the refusal left.
\<close>
theorem rpc_send_exact:
  assumes "rq_method req = ''sendTransaction''" and "handle_rpc E C J req st = Ret resp st'"
  shows "(rp_result resp \<noteq> None \<longleftrightarrow> (\<exists>tx h mp. read_transaction J (rq_params req) = Inr tx \<and>
      add_transaction E C (rs_db st) tx (rs_pool st) = Ret (Inr h) mp)) \<and>
    (case read_transaction J (rq_params req) of
      Inl e \<Rightarrow> st' = st \<and> resp = rpc_failure (rq_id req) (- 32602) (''Invalid transaction format: '' @ e)
    | Inr tx \<Rightarrow> \<exists>r mp. add_transaction E C (rs_db st) tx (rs_pool st) = Ret r mp \<and>
        (case r of
          Inr h \<Rightarrow> h = tx_hash E tx \<and>
            resp = rpc_success (rq_id req) (js_object J [(''tx_hash'', js_str J (hash_to_hex E (tx_hash E tx)))]) \<and>
            get_transaction (tx_hash E tx) mp = Some tx \<and> validate_stateless E tx = Inr () \<and>
            validate_stateful E tx (get_account C (rs_db st) (tx_sender tx)) = Some (Inr ()) \<and>
            st' = st\<lparr>rs_pool := mp, rs_sent := rs_sent st @ [js_text J (js_object J
              [(''type'', js_str J ''newTransaction''), (''tx'', js_tx J tx), (''hash'', js_hash J (tx_hash E tx))])]\<rparr>
        | Inl e \<Rightarrow>
            resp = rpc_failure (rq_id req) (- 32000) (''Mempool rejection: '' @ mempool_error_text E e) \<and>
            st' = st\<lparr>rs_pool := mp\<rparr>))"
proof -
  have "send_transaction E C J req st = Ret resp st'" using assms by (simp add: handle_rpc_def)
  then show ?thesis
  proof (cases rule: send_transaction_Ret)
    case (accepted tx h mp)
    from accepted(2) have "h = tx_hash E tx \<and> validate_stateless E tx = Inr () \<and>
        validate_stateful E tx (get_account C (rs_db st) (tx_sender tx)) = Some (Inr ()) \<and>
        get_transaction h mp = Some tx"
      by (cases rule: add_transaction_InrD)
         (simp add: get_transaction_def insert_transaction_def Let_def hm_get_insert)
    with accepted show ?thesis by (auto simp: rpc_success_def)
  qed (simp_all add: rpc_failure_def)
qed

text \<open>
  After a block is committed, asking for a balance by the printed form of an address
  answers what the block's execution left there.
\<close>
theorem rpc_balance_after_commit:
  assumes "text_laws E" and "account_codec_laws C" and "om_ok (kv_map (db_kv db))" and "hm_ok ov"
    and "rs_db st = snd (commit_block E C b ov db)"
    and "rq_method req = ''getBalance''" and "js_get J (rq_params req) ''address'' = Some v"
    and "js_as_str J v = Some (address_display E a)"
  shows "handle_rpc E C J req st =
    Ret (rpc_success (rq_id req) (js_uint J (unat (balance (overlay_get C ov db a))))) st"
proof -
  have "rpc_param J (js_as_str J) ''address'' (rq_params req) = Some (address_display E a)"
    using assms(7,8) by (simp add: rpc_param_def)
  moreover have "address_from_str E (address_display E a) = Some (Inr a)"
    using to_bech32_text [OF assms(1), of a] by (auto simp: address_display_def)
  moreover have "get_account C (rs_db st) a = overlay_get C ov db a"
    using assms(2-4) by (simp add: assms(5) commit_block_write_all get_account_write_all
        account_codec_laws_def map_of_rev_hm overlay_get_def)
  ultimately show ?thesis
    using assms(6) by (simp add: handle_rpc_def rpc_balance_def parse_param_def)
qed

section \<open>Examples\<close>

text \<open>A small JSON library: text, numbers, lists and objects.\<close>

datatype sample_json =
    SNull | SBool bool | SNum nat | SStr string | SList "sample_json list"
  | SObj "(string \<times> sample_json) list" | STx transaction

definition sample_lib :: "sample_json json_lib" where
  "sample_lib =
     \<lparr>js_get = (\<lambda>v k. case v of SObj kvs \<Rightarrow> map_of kvs k | _ \<Rightarrow> None),
      js_as_array = (\<lambda>v. case v of SList l \<Rightarrow> Some l | _ \<Rightarrow> None),
      js_as_u64 = (\<lambda>v. case v of SNum n \<Rightarrow> Some (word_of_nat n) | _ \<Rightarrow> None),
      js_as_str = (\<lambda>v. case v of SStr s \<Rightarrow> Some s | _ \<Rightarrow> None),
      js_null = SNull, js_bool = SBool, js_uint = SNum, js_str = SStr, js_list = SList, js_object = SObj,
      js_block = (\<lambda>b. SNum (unat (h_height (b_header b)))), js_account = (\<lambda>a. SNum (unat (balance a))),
      js_tx = STx, js_hash = (\<lambda>h. SNum (unat (hash_word h))),
      js_read_tx = (\<lambda>v. case v of STx tx \<Rightarrow> Inr tx | _ \<Rightarrow> Inl ''not a transaction''),
      js_custom_error = (\<lambda>s. s), js_text = (\<lambda>_. ''json''), js_parse = (\<lambda>s. Inr (SStr s))\<rparr>"

definition sample_request :: "string \<Rightarrow> sample_json \<Rightarrow> sample_json rpc_request" where
  "sample_request m params = \<lparr>rq_jsonrpc = ''2.0'', rq_id = SNum 1, rq_method = m, rq_params = params\<rparr>"

definition sample_node :: rpc_state where
  "sample_node = \<lparr>rs_db = fee_db, rs_pool = mempool_new tiny_config, rs_peers = [], rs_chain_id = ''aura'', rs_sent = []\<rparr>"

lemma sends_sample:
  "\<exists>resp st'. handle_rpc fee_env fee_codec sample_lib
     (sample_request ''sendTransaction'' (SList [STx (priced_tx 5 200 1 [])])) sample_node = Ret resp st' \<and>
     rp_result resp \<noteq> None"
  using add_to_tiny
  by (simp add: handle_rpc_def sample_request_def send_transaction_def read_transaction_def sample_lib_def
      sample_node_def rpc_success_def)

theorem rpc_envelope_witness:
  "\<exists>resp st'. handle_rpc fee_env fee_codec sample_lib
     (sample_request ''sendTransaction'' (SList [STx (priced_tx 5 200 1 [])])) sample_node = Ret resp st' \<and>
     rp_id resp = SNum 1 \<and> rp_error resp = None"
proof -
  obtain resp st' where r: "handle_rpc fee_env fee_codec sample_lib
      (sample_request ''sendTransaction'' (SList [STx (priced_tx 5 200 1 [])])) sample_node = Ret resp st'"
    "rp_result resp \<noteq> None" using sends_sample by blast
  from rpc_envelope [OF r(1)] r show ?thesis by (auto simp: sample_request_def)
qed

theorem rpc_reads_return_witness:
  "\<exists>resp. handle_rpc toy_env fee_codec sample_lib (sample_request ''getBalance'' (SStr ''nonsense'')) sample_node =
     Ret resp sample_node"
  by (rule rpc_reads_return [OF text_laws_toy]) (simp add: sample_request_def)

theorem rpc_send_exact_witness:
  "\<exists>resp st'. handle_rpc fee_env fee_codec sample_lib
     (sample_request ''sendTransaction'' (SList [STx (priced_tx 5 200 1 [])])) sample_node = Ret resp st' \<and>
     rp_result resp \<noteq> None \<and> get_transaction (Hash 200) (rs_pool st') = Some (priced_tx 5 200 1 []) \<and>
     rs_sent st' = [''json''] \<and> rs_db st' = fee_db"
proof -
  let ?req = "sample_request ''sendTransaction'' (SList [STx (priced_tx 5 200 1 [])])"
  obtain resp st' where r: "handle_rpc fee_env fee_codec sample_lib ?req sample_node = Ret resp st'"
    "rp_result resp \<noteq> None" using sends_sample by blast
  have "read_transaction sample_lib (rq_params ?req) = Inr (priced_tx 5 200 1 [])"
    by (simp add: sample_request_def read_transaction_def sample_lib_def)
  moreover have "rq_method ?req = ''sendTransaction''" by (simp add: sample_request_def)
  moreover have "js_text sample_lib x = ''json''" for x by (simp add: sample_lib_def)
  moreover have "rs_db sample_node = fee_db" "rs_sent sample_node = []" by (simp_all add: sample_node_def)
  ultimately have "rp_result resp \<noteq> None \<and> get_transaction (Hash 200) (rs_pool st') = Some (priced_tx 5 200 1 []) \<and>
      rs_sent st' = [''json''] \<and> rs_db st' = fee_db"
    using rpc_send_exact [of ?req fee_env fee_codec sample_lib sample_node resp st'] r
    by (auto simp: rpc_failure_def)
  with r(1) show ?thesis by blast
qed

theorem rpc_balance_after_commit_witness:
  "\<exists>st. handle_rpc toy_env fee_codec sample_lib
     (sample_request ''getBalance'' (SObj [(''address'', SStr (address_display toy_env (Address 5)))])) st =
     Ret (rpc_success (SNum 1) (SNum 70)) st"
proof -
  let ?st = "sample_node\<lparr>rs_db := snd (commit_block toy_env fee_codec (sample_block []) [(Address 5, account_new 70 1)] memory_db)\<rparr>"
  let ?req = "sample_request ''getBalance'' (SObj [(''address'', SStr (address_display toy_env (Address 5)))])"
  have "account_codec_laws fee_codec" by (simp add: fee_codec_def account_codec_laws_toy)
  from rpc_balance_after_commit [where ov = "[(Address 5, account_new 70 1)]" and st = ?st and
      b = "sample_block []" and req = ?req and J = sample_lib and v = "SStr (address_display toy_env (Address 5))" and
      a = "Address 5", OF text_laws_toy this om_ok_memory_db]
  have "handle_rpc toy_env fee_codec sample_lib ?req ?st = Ret (rpc_success (SNum 1) (SNum 70)) ?st"
    by (simp add: hm_ok_def sample_request_def sample_lib_def overlay_get_def hm_get_def account_new_def)
  then show ?thesis by blast
qed

end
