(* ===== verification/Node.thy ===== *)
theory Node
  imports Wallet Sync Rpc
begin

text \<open>
  \<open>aura-node\<close> and the in-memory cluster of \<open>aura-test-harness\<close>: what the node's commands do
  with the library, the genesis of a fresh node, the block production loop, the HTTP exchange
  of the command-line wallet and one round of the test cluster. Sockets, files and the clock
  are parameters; the text printed and logged is not modelled.
\<close>

section \<open>Commands and configuration\<close>

datatype tx_commands = TxSend string string u64 u64 string | TxBalance string string

datatype commands =
    Keygen nat
  | Init string string
  | Run string socket_addr "string option" string
  | TxCommand tx_commands

record node_config =
  nc_chain_id :: string
  nc_data_dir :: string
  nc_rpc_addr :: socket_addr
  nc_p2p_port :: u16
  nc_validator_key :: "string option"

definition node_config_default :: node_config where
  "node_config_default =
     \<lparr>nc_chain_id = ''aura-mainnet-1'', nc_data_dir = ''./.aura-data'',
      nc_rpc_addr = SocketV4 0x7F000001 8545, nc_p2p_port = 26656, nc_validator_key = None\<rparr>"

section \<open>Genesis of a node\<close>

datatype node_error =
    NodeIo
  | NodeStorage storage_error
  | BadHex string
  | BadSecretLength
  | BadAddress address_error
  | BadJson string
  | BadTransaction primitive_error
  | BadWallet hd_error

text \<open>What \<open>keygen\<close> prints: the phrase, the address, the public key and the secret key.\<close>

definition keygen ::
  "env \<Rightarrow> 'm bip39 \<Rightarrow> bytes \<Rightarrow> nat \<Rightarrow> (node_error + string \<times> string \<times> string \<times> string) option" where
  "keygen E B drawn words =
     (case generate_mnemonic B drawn words of
        Inl e \<Rightarrow> Some (Inl (BadWallet e))
      | Inr mnemonic \<Rightarrow>
          (case seed_from_mnemonic B mnemonic '''' of
             None \<Rightarrow> None
           | Some (Inl e) \<Rightarrow> Some (Inl (BadWallet e))
           | Some (Inr seed) \<Rightarrow>
               (case derive_keypair E seed 0 0 0 of
                  Inl e \<Rightarrow> Some (Inl (BadWallet e))
                | Inr keypair \<Rightarrow>
                    (case to_bech32 E (address_from_pubkey E (kp_public keypair)) DEFAULT_HRP of
                       Inl e \<Rightarrow> Some (Inl (BadAddress e))
                     | Inr bech32 \<Rightarrow> Some (Inr (mnemonic, bech32, pk_to_hex E (kp_public keypair),
                         hex_encode E (be_bytes 32 (secret_bytes keypair))))))))"

text \<open>The secret key a node is given in hexadecimal, when it is one.\<close>

definition secret_of_hex :: "env \<Rightarrow> string \<Rightarrow> 256 word option" where
  "secret_of_hex E k =
     (case hex_decode E k of
        Inl _ \<Rightarrow> None
      | Inr bs \<Rightarrow> if length bs = 32 then Some (of_be_bytes bs) else None)"

definition init_genesis :: "env \<Rightarrow> 256 word \<Rightarrow> string \<Rightarrow> u64 \<Rightarrow> genesis_config" where
  "init_genesis E drawn chain_id now =
     (let val_kp = keypair_generate E drawn;
          val_addr = address_from_pubkey E (kp_public val_kp)
      in \<lparr>g_chain_id = chain_id, g_timestamp = now,
          g_accounts = [\<lparr>ga_address = val_addr, ga_balance = 10000000000\<rparr>],
          g_validators = [\<lparr>gv_address = val_addr, gv_pubkey = kp_public val_kp, gv_stake = 1000000000\<rparr>],
          g_initial_state_root = HASH_ZERO\<rparr>)"

text \<open>\<open>clock\<close> is the time in seconds since the epoch, \<open>None\<close> when it is before it.\<close>

definition init_node ::
  "env \<Rightarrow> codec \<Rightarrow> 256 word \<Rightarrow> string \<Rightarrow> u64 option \<Rightarrow> state_db \<Rightarrow> (node_error + hash, state_db) outcome" where
  "init_node E C drawn chain_id clock db =
     or_panic clock db (\<lambda>now.
       case apply_genesis E C (init_genesis E drawn chain_id now) db of
         (Inl e, db') \<Rightarrow> Ret (Inl (NodeStorage e)) db'
       | (Inr state_root, db') \<Rightarrow> Ret (Inr state_root) db')"

definition run_genesis :: "env \<Rightarrow> string option \<Rightarrow> 256 word \<Rightarrow> string \<Rightarrow> u64 \<Rightarrow> genesis_config" where
  "run_genesis E validator_key drawn chain_id now =
     (let val_kp = (case Option.bind validator_key (secret_of_hex E) of
            Some b \<Rightarrow> keypair_from_secret_bytes E b | None \<Rightarrow> keypair_generate E drawn);
          val_addr = address_from_pubkey E (kp_public val_kp)
      in \<lparr>g_chain_id = chain_id, g_timestamp = now,
          g_accounts = [\<lparr>ga_address = val_addr, ga_balance = 100000000000\<rparr>],
          g_validators = [\<lparr>gv_address = val_addr, gv_pubkey = kp_public val_kp, gv_stake = 10000000000\<rparr>],
          g_initial_state_root = HASH_ZERO\<rparr>)"

definition open_node ::
  "env \<Rightarrow> codec \<Rightarrow> string option \<Rightarrow> 256 word \<Rightarrow> string \<Rightarrow> u64 option \<Rightarrow> state_db \<Rightarrow> (node_error + unit, state_db) outcome" where
  "open_node E C validator_key drawn chain_id clock db =
     (if get_latest_height db = 0 \<and> get_block_by_height C db 0 = None
      then or_panic clock db (\<lambda>now.
        case apply_genesis E C (run_genesis E validator_key drawn chain_id now) db of
          (Inl e, db') \<Rightarrow> Ret (Inl (NodeStorage e)) db'
        | (Inr root, db') \<Rightarrow> Ret (Inr ()) db')
      else Ret (Inr ()) db)"

text \<open>The outer option is the panic of \<open>ConsensusEngine::new\<close>; no valid key, no engine.\<close>

definition start_engine :: "env \<Rightarrow> string option \<Rightarrow> state_db \<Rightarrow> mempool \<Rightarrow> string \<Rightarrow> engine option option" where
  "start_engine E validator_key db mp chain_id =
     (case Option.bind validator_key (secret_of_hex E) of
        None \<Rightarrow> Some None
      | Some arr \<Rightarrow> map_option Some (engine_new E (keypair_from_secret_bytes E arr) db mp chain_id))"

section \<open>Block production\<close>

text \<open>
  One tick of the production loop; the value returned is the height and hash announced, if
  any, which is also when the height metric is set.
\<close>

definition node_tick :: "env \<Rightarrow> codec \<Rightarrow> u64 option \<Rightarrow> engine \<Rightarrow> ((u64 \<times> hash) option, engine) outcome" where
  "node_tick E C clock en =
     andThen (create_proposal E C clock en) (\<lambda>r en. case r of Inl _ \<Rightarrow> Ret None en | Inr proposal \<Rightarrow>
     andThen (handle_proposal E C proposal en) (\<lambda>r en. case r of Inl _ \<Rightarrow> Ret None en | Inr prevote \<Rightarrow>
     andThen (handle_prevote E C prevote en) (\<lambda>r en. case r of None \<Rightarrow> Ret None en | Some precommit \<Rightarrow>
     andThen (handle_precommit E C [] precommit en) (\<lambda>r en. case r of None \<Rightarrow> Ret None en | Some qc \<Rightarrow>
       Ret (Some (qc_height qc, qc_block_hash qc)) en))))"

fun node_loop :: "env \<Rightarrow> codec \<Rightarrow> u64 option list \<Rightarrow> engine \<Rightarrow> ((u64 \<times> hash) list, engine) outcome" where
  "node_loop E C [] en = Ret [] en"
| "node_loop E C (clock # clocks) en =
     andThen (node_tick E C clock en) (\<lambda>a en.
     andThen (node_loop E C clocks en) (\<lambda>l en. Ret ((case a of None \<Rightarrow> [] | Some x \<Rightarrow> [x]) @ l) en))"

section \<open>The command-line wallet\<close>

fun split_at :: "char \<Rightarrow> string \<Rightarrow> string list" where
  "split_at c [] = [[]]"
| "split_at c (x # xs) =
     (if x = c then [] # split_at c xs
      else case split_at c xs of [] \<Rightarrow> [[x]] | p # ps \<Rightarrow> (x # p) # ps)"

fun join_with :: "string \<Rightarrow> string list \<Rightarrow> string" where
  "join_with sep [] = []"
| "join_with sep [p] = p"
| "join_with sep (p # ps) = p @ sep @ join_with sep ps"

definition strip_prefix :: "string \<Rightarrow> string \<Rightarrow> string option" where
  "strip_prefix p s = (if take (length p) s = p then Some (drop (length p) s) else None)"

definition CRLF :: string where "CRLF = [char_of (13 :: nat), char_of (10 :: nat)]"

definition post_target :: "string \<Rightarrow> string \<times> string" where
  "post_target url_str =
     (let clean_url = (case strip_prefix ''http://'' url_str of Some u \<Rightarrow> u | None \<Rightarrow> url_str);
          parts = split_at (CHR ''/'') clean_url;
          host_port = (case parts of [] \<Rightarrow> ''127.0.0.1:8545'' | p # _ \<Rightarrow> p);
          path = ''/'' @ join_with ''/'' (tl parts)
      in (host_port, if path = ''/'' then ''/rpc'' else path))"

definition post_request :: "string \<Rightarrow> string \<Rightarrow> string" where
  "post_request url_str json_body =
     (let (host_port, actual_path) = post_target url_str
      in ''POST '' @ actual_path @ '' HTTP/1.1'' @ CRLF @ ''Host: '' @ host_port @ CRLF @
         ''Content-Type: application/json'' @ CRLF @
         ''Content-Length: '' @ show_nat (length json_body) @ CRLF @
         ''Connection: close'' @ CRLF @ CRLF @ json_body)"

fun find_str :: "string \<Rightarrow> string \<Rightarrow> nat option" where
  "find_str p [] = (if p = [] then Some 0 else None)"
| "find_str p (x # xs) =
     (if take (length p) (x # xs) = p then Some 0 else map_option Suc (find_str p xs))"

definition response_body :: "string \<Rightarrow> string" where
  "response_body resp_str =
     (case find_str (CRLF @ CRLF) resp_str of
        Some pos \<Rightarrow> drop (pos + 4) resp_str
      | None \<Rightarrow> resp_str)"

text \<open>
  \<open>server\<close> is what a host answers to a request (its text, decoded), or nothing when the
  exchange fails.
\<close>

definition rpc_post :: "(string \<Rightarrow> string \<Rightarrow> string option) \<Rightarrow> string \<Rightarrow> string \<Rightarrow> node_error + string" where
  "rpc_post server url_str json_body =
     (case server (fst (post_target url_str)) (post_request url_str json_body) of
        None \<Rightarrow> Inl NodeIo
      | Some resp_str \<Rightarrow> Inr (response_body resp_str))"

definition rpc_query :: "'j json_lib \<Rightarrow> nat \<Rightarrow> string \<Rightarrow> 'j \<Rightarrow> string" where
  "rpc_query J i m params =
     js_text J (js_object J [(''jsonrpc'', js_str J ''2.0''), (''id'', js_uint J i), (''method'', js_str J m),
       (''params'', params)])"

definition tx_balance :: "'j json_lib \<Rightarrow> (string \<Rightarrow> string \<Rightarrow> string option) \<Rightarrow> string \<Rightarrow> string \<Rightarrow> node_error + string" where
  "tx_balance J server addr rpc_url =
     rpc_post server rpc_url (rpc_query J 1 ''getAccount'' (js_object J [(''address'', js_str J addr)]))"

definition reported_nonce :: "'j json_lib \<Rightarrow> 'j \<Rightarrow> u64" where
  "reported_nonce J acc_val =
     (case Option.bind (Option.bind (js_get J acc_val ''result'') (\<lambda>r. js_get J r ''nonce'')) (js_as_u64 J) of
        None \<Rightarrow> 0
      | Some n \<Rightarrow> n)"

text \<open>
  The transaction posted and the node's answer. \<open>None\<close> is a panic: of parsing an address, or
  of the addition to the nonce.
\<close>

definition tx_send ::
  "env \<Rightarrow> 'j json_lib \<Rightarrow> (string \<Rightarrow> string \<Rightarrow> string option) \<Rightarrow> string \<Rightarrow> string \<Rightarrow> u64 \<Rightarrow> u64 \<Rightarrow> string \<Rightarrow>
     (node_error + transaction \<times> string) option" where
  "tx_send E J server from_secret to_addr amount fee rpc_url =
     (case hex_decode E from_secret of
        Inl e \<Rightarrow> Some (Inl (BadHex e))
      | Inr sec_bytes \<Rightarrow>
          if length sec_bytes \<noteq> 32 then Some (Inl BadSecretLength)
          else
            let sender_kp = keypair_from_secret_bytes E (of_be_bytes sec_bytes);
                sender_addr = address_from_pubkey E (kp_public sender_kp)
            in case address_from_str E to_addr of
              None \<Rightarrow> None
            | Some (Inl e) \<Rightarrow> Some (Inl (BadAddress e))
            | Some (Inr recipient_addr) \<Rightarrow>
                (case rpc_post server rpc_url (rpc_query J 1 ''getAccount''
                    (js_object J [(''address'', js_str J (address_display E sender_addr))])) of
                   Inl e \<Rightarrow> Some (Inl e)
                 | Inr acc_res \<Rightarrow>
                     (case js_parse J acc_res of
                        Inl e \<Rightarrow> Some (Inl (BadJson e))
                      | Inr acc_val \<Rightarrow>
                          (case add_ck (prof E) (reported_nonce J acc_val) 1 of
                             None \<Rightarrow> None
                           | Some n \<Rightarrow>
                               (case tx_sign E sender_kp (tx_new_unsigned sender_addr recipient_addr amount fee n
                                   Transfer [] (kp_public sender_kp)) of
                                  Inl e \<Rightarrow> Some (Inl (BadTransaction e))
                                | Inr tx \<Rightarrow>
                                    (case rpc_post server rpc_url (rpc_query J 2 ''sendTransaction'' (js_tx J tx)) of
                                       Inl e \<Rightarrow> Some (Inl e)
                                     | Inr send_res \<Rightarrow> Some (Inr (tx, send_res))))))))"

section \<open>The test cluster\<close>

record test_node =
  tn_keypair :: key_pair
  tn_address :: address
  tn_db :: state_db
  tn_pool :: mempool

record test_cluster =
  tc_nodes :: "test_node list"
  tc_genesis :: genesis_config

definition cluster_genesis :: "env \<Rightarrow> key_pair list \<Rightarrow> genesis_config" where
  "cluster_genesis E kps =
     \<lparr>g_chain_id = ''aura-cluster-test'', g_timestamp = 1700000000,
      g_accounts = map (\<lambda>kp. \<lparr>ga_address = address_from_pubkey E (kp_public kp), ga_balance = 100000000\<rparr>) kps,
      g_validators = map (\<lambda>kp. \<lparr>gv_address = address_from_pubkey E (kp_public kp), gv_pubkey = kp_public kp,
        gv_stake = 10000000\<rparr>) kps,
      g_initial_state_root = HASH_ZERO\<rparr>"

text \<open>\<open>draws\<close> are the secret keys drawn, one per validator; \<open>None\<close> is the panic of \<open>expect\<close>.\<close>

fun spawn_nodes :: "env \<Rightarrow> codec \<Rightarrow> genesis_config \<Rightarrow> key_pair list \<Rightarrow> test_node list option" where
  "spawn_nodes E C g [] = Some []"
| "spawn_nodes E C g (kp # kps) =
     (case apply_genesis E C g (state_db_new E open_in_memory) of
        (Inl _, _) \<Rightarrow> None
      | (Inr _, db) \<Rightarrow>
          map_option (\<lambda>ns. \<lparr>tn_keypair = kp, tn_address = address_from_pubkey E (kp_public kp), tn_db = db,
            tn_pool = mempool_new mempool_config_default\<rparr> # ns) (spawn_nodes E C g kps))"

definition spawn_validators :: "env \<Rightarrow> codec \<Rightarrow> 256 word list \<Rightarrow> test_cluster option" where
  "spawn_validators E C draws =
     (let kps = map (keypair_generate E) draws; g = cluster_genesis E kps
      in map_option (\<lambda>ns. \<lparr>tc_nodes = ns, tc_genesis = g\<rparr>) (spawn_nodes E C g kps))"

text \<open>The engine of a round works on the first node's own database and pool.\<close>

definition with_engine ::
  "test_cluster \<Rightarrow> test_node \<Rightarrow> test_node list \<Rightarrow> ('a, engine) outcome \<Rightarrow>
     ('a \<Rightarrow> engine \<Rightarrow> ('b, test_cluster) outcome) \<Rightarrow> ('b, test_cluster) outcome" where
  "with_engine cl p rest m k =
     (let back = (\<lambda>en. cl\<lparr>tc_nodes := p\<lparr>tn_db := en_db en, tn_pool := en_pool en\<rparr> # rest\<rparr>)
      in case m of
        Ret a en \<Rightarrow> k a en
      | Panic en \<Rightarrow> Panic (back en)
      | Blocked en \<Rightarrow> Blocked (back en)
      | Spin \<Rightarrow> Spin)"

definition step_block_round :: "env \<Rightarrow> codec \<Rightarrow> u64 option \<Rightarrow> test_cluster \<Rightarrow> (hash, test_cluster) outcome" where
  "step_block_round E C clock cl =
     (case tc_nodes cl of
        [] \<Rightarrow> Panic cl
      | p # rest \<Rightarrow>
          or_panic (add_ck (prof E) (get_latest_height (tn_db p)) 1) cl (\<lambda>_.
          or_panic (engine_new E (tn_keypair p) (tn_db p) (tn_pool p) (g_chain_id (tc_genesis cl))) cl (\<lambda>en.
            let node = (\<lambda>en. p\<lparr>tn_db := en_db en, tn_pool := en_pool en\<rparr>);
                back = (\<lambda>en. cl\<lparr>tc_nodes := node en # rest\<rparr>)
            in
            with_engine cl p rest (create_proposal E C clock en) (\<lambda>r en.
              case r of Inl _ \<Rightarrow> Panic (back en) | Inr proposal \<Rightarrow>
            with_engine cl p rest (handle_proposal E C proposal en) (\<lambda>r en.
              case r of Inl _ \<Rightarrow> Panic (back en) | Inr prevote \<Rightarrow>
            with_engine cl p rest (handle_prevote E C prevote en) (\<lambda>r en.
              case r of None \<Rightarrow> Panic (back en) | Some precommit \<Rightarrow>
            with_engine cl p rest (handle_precommit E C [] precommit en) (\<lambda>r en.
              case r of None \<Rightarrow> Panic (back en) | Some qc \<Rightarrow>
                (case rest of
                   [] \<Rightarrow> Panic (back en)
                 | q # others \<Rightarrow>
                     (case apply_block_batch E C [proposal] (tn_db q) of
                        Ret _ db \<Rightarrow> Ret (qc_block_hash qc) (cl\<lparr>tc_nodes := node en # q\<lparr>tn_db := db\<rparr> # others\<rparr>)
                      | Panic db \<Rightarrow> Panic (cl\<lparr>tc_nodes := node en # q\<lparr>tn_db := db\<rparr> # others\<rparr>)
                      | Blocked db \<Rightarrow> Blocked (cl\<lparr>tc_nodes := node en # q\<lparr>tn_db := db\<rparr> # others\<rparr>)
                      | Spin \<Rightarrow> Spin)))))))))"

definition create_double_vote_evidence :: "env \<Rightarrow> key_pair \<Rightarrow> u64 \<Rightarrow> u32 \<Rightarrow> evidence" where
  "create_double_vote_evidence E kp height round =
     \<lparr>vote_a = vote_new_signed E (Hash (of_be_bytes (replicate 32 0xAA))) height round PreVoteType kp,
      vote_b = vote_new_signed E (Hash (of_be_bytes (replicate 32 0xBB))) height round PreVoteType kp\<rparr>"

section \<open>Lemmas\<close>

lemma record_vote_twice:
  "votes_for (v_block_hash v) (record_vote v (record_vote v book)) = votes_for (v_block_hash v) (record_vote v book)"
  by (auto simp: votes_for_record voters_def)

text \<open>A prevote handled again after the proposal that cast it finds no quorum to act on.\<close>

lemma prevote_again:
  assumes "handle_proposal E C b en = Ret (Inr v) en1" and "handle_prevote E C v en1 = Ret r en2"
  shows "r = None"
proof (rule ccontr)
  assume "r \<noteq> None"
  with handle_prevote_Ret [OF assms(2)] have step: "en_step en1 = PreVote" by cases auto
  from handle_proposal_Ret [OF assms(1)] show False
  proof cases
    case (2 pv q)
    have v: "v = pv" using 2(4) by simp
    from handle_prevote_Ret [OF 2(6)] show False
    proof cases
      case 1
      let ?en = "en\<lparr>proposed_block := Some b, en_step := PreVote\<rparr>"
      let ?l = "votes_for (v_block_hash pv) (record_vote pv (prevotes en))"
      let ?vs = "active_validators C (en_db en)"
      have first: "or_panic (total_power E ?vs) (?en\<lparr>prevotes := record_vote pv (prevotes en)\<rparr>) (\<lambda>whole.
          or_panic (vote_power E ?vs ?l) (?en\<lparr>prevotes := record_vote pv (prevotes en)\<rparr>) (\<lambda>backing.
            if whole > 0 \<and> exceeds_two_thirds backing whole then (Panic en :: (unit, engine) outcome)
            else Ret () en)) = Ret () en"
        using 2(6) 1(1) unfolding handle_prevote_def Let_def
        by (auto simp: or_panic_Ret_iff andThen_Ret_iff split: if_splits)
      have "votes_for (v_block_hash v) (record_vote v (prevotes en1)) = ?l"
        using record_vote_twice [of pv "prevotes en"] by (simp add: 1(2) v)
      with first \<open>r \<noteq> None\<close> assms(2) show False
        unfolding handle_prevote_def Let_def
        by (auto simp: or_panic_Ret_iff andThen_Ret_iff 1(2) v split: if_splits)
    next
      case (2 pc q2)
      from handle_precommit_Ret [OF 2(4)] show False
        by cases (use step in auto)
    qed
  qed simp
qed

lemma persist_no_faults:
  "kv_faults s = [] \<Longrightarrow> fst (persist C s) = Inr () \<and> kv_faults (snd (persist C s)) = []"
  by (auto simp: persist_def split: option.split)

lemma write_all_no_faults:
  "kv_faults (db_kv db) = [] \<Longrightarrow> kv_faults (db_kv (write_all E C l b n db)) = []"
  by (simp add: write_all_def apply_batch_def persist_no_faults)

lemma commit_no_faults:
  assumes "kv_faults (db_kv db) = []"
  shows "\<exists>r. commit_block E C b ov db = (Inr r, write_all E C ov b (h_height (b_header b)) db)"
proof -
  have "\<exists>r. fst (commit_block E C b ov db) = Inr r"
    using persist_no_faults [of "(db_kv db)\<lparr>kv_map := m\<rparr>" C for m] assms
    by (simp add: commit_block_def Let_def apply_batch_def case_prod_beta)
  then show ?thesis using commit_block_write_all [of E C b ov db] by (metis prod.collapse)
qed

lemma genesis_no_faults:
  assumes "kv_faults (db_kv db) = []"
  shows "\<exists>r. apply_genesis E C g db = (Inr r, write_all E C (genesis_writes C g db) (to_genesis_block E g) 0 db)"
proof -
  have "\<exists>r. fst (apply_genesis E C g db) = Inr r"
    using persist_no_faults [of "(db_kv db)\<lparr>kv_map := m\<rparr>" C for m] assms
    by (simp add: apply_genesis_def Let_def apply_batch_def case_prod_beta)
  then show ?thesis using apply_genesis_write_all [of E C g db] by (metis prod.collapse)
qed

text \<open>An engine that is the only validator.\<close>

definition sole :: "env \<Rightarrow> codec \<Rightarrow> engine \<Rightarrow> u64 \<Rightarrow> bool" where
  "sole E C en stake \<longleftrightarrow>
     active_validators C (en_db en) =
       [\<lparr>vi_address = en_address en, vi_pubkey = kp_public (en_keypair en), vi_power = stake\<rparr>] \<and>
     en_address en = address_from_pubkey E (kp_public (en_keypair en)) \<and> 0 < stake"

lemma sole_powers:
  assumes "sole E C en stake" and "v_validator v = en_address en"
  shows "total_power E (active_validators C (en_db en)) = Some stake"
    and "vote_power E (active_validators C (en_db en)) [v] = Some stake"
    and "0 < stake \<and> exceeds_two_thirds stake stake"
  using assms
  by (simp_all add: sole_def total_power_def vote_power_def sum_ck_def add_ck_def map_filter_simps
      exceeds_two_thirds_unat word_less_nat_alt unat_bound)
     (use unat_bound [of stake] in simp_all)

lemma record_vote_Nil: "votes_for (v_block_hash v) (record_vote v []) = [v]"
  by (simp add: votes_for_record) (simp add: votes_for_def voters_def)

text \<open>A vote book that holds at most one vote for a block, that of one validator.\<close>

definition own_votes :: "address \<Rightarrow> vote_book \<Rightarrow> bool" where
  "own_votes a book \<longleftrightarrow> list_all (\<lambda>(h, l). length l = 1 \<and> v_validator (hd l) = a) book"

lemma own_votes_Nil [simp]: "own_votes a []"
  by (simp add: own_votes_def)

lemma own_votes_for:
  "own_votes a book \<Longrightarrow> votes_for h book = [] \<or> (\<exists>w. votes_for h book = [w] \<and> v_validator w = a)"
  by (cases "hm_get book h")
     (auto simp: own_votes_def list_all_iff votes_for_def hm_get_def length_Suc_conv dest!: map_of_SomeD)

lemma own_votes_record:
  assumes "own_votes a book" and "v_validator v = a"
  shows "\<exists>w. votes_for (v_block_hash v) (record_vote v book) = [w] \<and> v_validator w = a"
    and "own_votes a (record_vote v book)"
proof -
  show one: "\<exists>w. votes_for (v_block_hash v) (record_vote v book) = [w] \<and> v_validator w = a"
    using own_votes_for [OF assms(1), of "v_block_hash v"] assms(2) by (auto simp: votes_for_record voters_def)
  have "set (hm_insert k l book) \<subseteq> insert (k, l) (set book)" for k l
    by (induction book) (auto simp: hm_insert_def)
  then show "own_votes a (record_vote v book)"
    using own_votes_for [OF assms(1), of "v_block_hash v"] assms
    by (fastforce simp: own_votes_def list_all_iff record_vote_def Let_def)
qed

text \<open>
  The only validator at its turn: it works on the height after \<open>n\<close>, on top of the block
  \<open>prev\<close> stored there, with no votes but its own, and no write of its store fails.
\<close>

definition ready :: "env \<Rightarrow> codec \<Rightarrow> u64 \<Rightarrow> u64 \<Rightarrow> block \<Rightarrow> engine \<Rightarrow> bool" where
  "ready E C stake n prev en \<longleftrightarrow>
     sole E C en stake \<and> cur_height en = n + 1 \<and> get_block_by_height C (en_db en) n = Some prev \<and>
     own_votes (en_address en) (prevotes en) \<and> precommits en = [] \<and> kv_faults (db_kv (en_db en)) = []"

text \<open>What becomes of the engine when the pool drops the committed transactions.\<close>

definition with_pool :: "('a, mempool) outcome \<Rightarrow> engine \<Rightarrow> (unit, engine) outcome" where
  "with_pool m en =
     (case m of Ret _ mp \<Rightarrow> Ret () (en\<lparr>en_pool := mp\<rparr>) | Panic mp \<Rightarrow> Panic (en\<lparr>en_pool := mp\<rparr>)
      | Blocked mp \<Rightarrow> Blocked (en\<lparr>en_pool := mp\<rparr>) | Spin \<Rightarrow> Spin)"

lemma andThen_assoc: "andThen (andThen m f) g = andThen m (\<lambda>x s. andThen (f x s) g)"
  by (cases m) simp_all

lemma sole_precommit:
  assumes "sole E C en stake" and "v_validator v = en_address en" and "precommits en = []"
    and "en_step en \<noteq> Commit" and "proposed_block en = Some b" and "block_hash E b = v_block_hash v"
    and "engine_execute_all E C (en_db en) (b_transactions b) [] = Some ov" and "kv_faults (db_kv (en_db en)) = []"
  shows "\<exists>qc. handle_precommit E C held v en =
    andThen (with_pool (remove_committed E (b_transactions b) (en_pool en)) (en\<lparr>precommits := record_vote v [],
        en_step := Commit, en_db := write_all E C ov b (h_height (b_header b)) (en_db en)\<rparr>))
      (\<lambda>_ en. advance_height E held qc en)"
proof -
  let ?en = "en\<lparr>precommits := record_vote v [], en_step := Commit\<rparr>"
  obtain r where "commit_block E C b ov (en_db en) = (Inr r, write_all E C ov b (h_height (b_header b)) (en_db en))"
    using commit_no_faults [OF assms(8)] by blast
  then have "commit_proposed E C (v_block_hash v) ?en = with_pool (remove_committed E (b_transactions b) (en_pool en))
      (?en\<lparr>en_db := write_all E C ov b (h_height (b_header b)) (en_db en)\<rparr>)"
    using assms(5-7) by (simp add: commit_proposed_def with_pool_def split: outcome.split)
  then show ?thesis
    using sole_powers [OF assms(1,2)] assms(3,4)
    by (simp add: handle_precommit_def Let_def record_vote_Nil) blast
qed

lemma sole_select:
  assumes "sole E C en stake"
  shows "select_proposer E n r (active_validators C (en_db en)) =
    Some (Some \<lparr>vi_address = en_address en, vi_pubkey = kp_public (en_keypair en), vi_power = stake\<rparr>)"
proof -
  let ?vs = "active_validators C (en_db en)"
  have vs: "?vs = [\<lparr>vi_address = en_address en, vi_pubkey = kp_public (en_keypair en), vi_power = stake\<rparr>]"
    and pos: "0 < stake" using assms by (simp_all add: sole_def)
  have "total_stake ?vs = unat stake" by (simp add: vs total_stake_def)
  with select_proposer_exists [of ?vs E n r] pos unat_bound [of stake] show ?thesis
    by (auto simp: vs word_less_nat_alt)
qed

lemma sole_proposal:
  assumes "ready E C stake n prev en" and "unat n + 1 < 2 ^ 64" and "harvest (1024 * 1024) (en_pool en) = txs"
    and "engine_execute_all E C (en_db en) txs [] = Some ov" and "\<forall>tx \<in> set txs. tx_verify E tx = Inr ()"
  shows "\<exists>b. create_proposal E C (Some t) en = Ret (Inr b) (en\<lparr>proposed_block := Some b, en_step := Propose\<rparr>) \<and>
    h_height (b_header b) = n + 1 \<and> h_round (b_header b) = cur_round en \<and>
    h_prev_hash (b_header b) = block_hash E prev \<and> b_transactions b = txs \<and> validate_basic E b = Inr ()"
proof -
  have r: "sole E C en stake" "cur_height en = n + 1" "get_block_by_height C (en_db en) n = Some prev"
    using assms(1) by (simp_all add: ready_def)
  let ?b = "proposal_block E en (active_validators C (en_db en)) (block_hash E prev) t txs"
  let ?h = "(b_header ?b)\<lparr>h_signature := kp_sign E (en_keypair en) (header_signing_bytes (b_header ?b))\<rparr>"
  have sub: "sub_ck (prof E) (n + 1) 1 = Some n"
    using assms(2) by (simp add: sub_ck_def word_le_nat_alt unat_plus_small)
  have "create_proposal E C (Some t) en = finish_proposal E ?b en"
    using sole_select [OF r(1)] assms(3,4) r(3) sub by (simp add: create_proposal_def Let_def r(2))
  moreover have "finish_proposal E ?b en =
      Ret (Inr (?b\<lparr>b_header := ?h\<rparr>)) (en\<lparr>proposed_block := Some (?b\<lparr>b_header := ?h\<rparr>), en_step := Propose\<rparr>)"
  proof -
    have "address_from_pubkey E (kp_public (en_keypair en)) = en_address en"
      using r(1) by (simp add: sole_def)
    then show ?thesis by (simp add: finish_proposal_def header_sign_def Let_def)
  qed
  moreover have "validate_basic E (?b\<lparr>b_header := ?h\<rparr>) = Inr ()"
    using assms(5) by (simp add: validate_basic_Inr compute_merkle_root_def)
  ultimately show ?thesis using r(2) by (intro exI [of _ "?b\<lparr>b_header := ?h\<rparr>"]) simp
qed

text \<open>A proposal and its handling, up to the end of the commit it triggers there.\<close>

lemma sole_round_any:
  assumes "ready E C stake n prev en" and "unat n + 1 < 2 ^ 64" and "harvest (1024 * 1024) (en_pool en) = txs"
    and "engine_execute_all E C (en_db en) txs [] = Some ov" and "\<forall>tx \<in> set txs. tx_verify E tx = Inr ()"
  shows "\<exists>b qc v en0 en1. h_height (b_header b) = n + 1 \<and> h_prev_hash (b_header b) = block_hash E prev \<and>
    b_transactions b = txs \<and> validate_basic E b = Inr () \<and> v_type v = PreVoteType \<and> v_validator v = en_address en \<and>
    en_db en1 = write_all E C ov b (n + 1) (en_db en) \<and> cur_height en1 = n + 1 \<and>
    en_keypair en1 = en_keypair en \<and> en_address en1 = en_address en \<and>
    create_proposal E C (Some t) en = Ret (Inr b) en0 \<and>
    handle_proposal E C b en0 = andThen (with_pool (remove_committed E txs (en_pool en)) en1)
      (\<lambda>_ en. andThen (advance_height E [WriteGuard] qc en) (\<lambda>_ en. Ret (Inr v) en))"
proof -
  have r: "sole E C en stake" "cur_height en = n + 1" "own_votes (en_address en) (prevotes en)"
    "precommits en = []" "kv_faults (db_kv (en_db en)) = []"
    using assms(1) by (simp_all add: ready_def)
  obtain b where c: "create_proposal E C (Some t) en = Ret (Inr b) (en\<lparr>proposed_block := Some b, en_step := Propose\<rparr>)"
    and b: "h_height (b_header b) = n + 1" "h_round (b_header b) = cur_round en"
      "h_prev_hash (b_header b) = block_hash E prev" "b_transactions b = txs" "validate_basic E b = Inr ()"
    using sole_proposal [OF assms(1-5)] by blast
  define v where "v = vote_new_signed E (block_hash E b) (cur_height en) (cur_round en) PreVoteType (en_keypair en)"
  define pc where "pc = vote_new_signed E (block_hash E b) (cur_height en) (cur_round en) PreCommitType (en_keypair en)"
  have votes: "v_block_hash v = block_hash E b" "v_validator v = en_address en"
    "v_block_hash pc = block_hash E b" "v_validator pc = en_address en" "v_type v = PreVoteType"
    using r(1) by (simp_all add: v_def pc_def vote_new_signed_def Let_def sole_def)
  let ?pv = "record_vote v (prevotes en)"
  let ?en2 = "en\<lparr>proposed_block := Some b, prevotes := ?pv, en_step := PreCommit\<rparr>"
  let ?en3 = "?en2\<lparr>precommits := record_vote pc [], en_step := Commit, en_db := write_all E C ov b (n + 1) (en_db en)\<rparr>"
  let ?pool = "with_pool (remove_committed E txs (en_pool en)) ?en3"
  have "sole E C ?en2 stake" "precommits ?en2 = []" using r(1,4) by (simp_all add: sole_def)
  from sole_precommit [OF this(1) _ this(2), of pc b ov "[WriteGuard]"] obtain qc where
    pre: "handle_precommit E C [WriteGuard] pc ?en2 = andThen ?pool (\<lambda>_ en. advance_height E [WriteGuard] qc en)"
    using assms(4) r(5) b votes by auto
  obtain w where w: "votes_for (block_hash E b) ?pv = [w]" "v_validator w = en_address en"
    using own_votes_record(1) [OF r(3) votes(2)] votes(1) by auto
  have p: "total_power E (active_validators C (en_db en)) = Some stake"
    "vote_power E (active_validators C (en_db en)) [w] = Some stake" "0 < stake \<and> exceeds_two_thirds stake stake"
    using sole_powers [OF r(1) w(2)] by auto
  have pv: "handle_prevote E C v (en\<lparr>proposed_block := Some b, en_step := PreVote\<rparr>) =
      andThen ?pool (\<lambda>_ en. andThen (advance_height E [WriteGuard] qc en) (\<lambda>_ en3. Ret (Some pc) en3))"
    using p votes(1) w(1) by (simp add: handle_prevote_def Let_def pc_def [symmetric] pre andThen_assoc)
  have "handle_proposal E C b (en\<lparr>proposed_block := Some b, en_step := Propose\<rparr>) =
      andThen (handle_prevote E C v (en\<lparr>proposed_block := Some b, en_step := PreVote\<rparr>)) (\<lambda>_ en. Ret (Inr v) en)"
    using b r(2) by (simp add: handle_proposal_def Let_def v_def)
  then have "handle_proposal E C b (en\<lparr>proposed_block := Some b, en_step := Propose\<rparr>) =
      andThen ?pool (\<lambda>_ en. andThen (advance_height E [WriteGuard] qc en) (\<lambda>_ en. Ret (Inr v) en))"
    unfolding pv by (simp add: andThen_assoc)
  with b r(2) c votes(2,5) show ?thesis
    by (intro exI [of _ b] exI [of _ qc] exI [of _ v] exI [of _ "en\<lparr>proposed_block := Some b, en_step := Propose\<rparr>"]
      exI [of _ ?en3]) simp
qed

lemma sole_round:
  assumes "ready E C stake n prev en" and "unat n + 1 < 2 ^ 64" and "harvest (1024 * 1024) (en_pool en) = txs"
    and "engine_execute_all E C (en_db en) txs [] = Some ov" and "\<forall>tx \<in> set txs. tx_verify E tx = Inr ()"
    and "remove_committed E txs (en_pool en) = Ret u mp"
  shows "\<exists>b qc v en0 en1. h_height (b_header b) = n + 1 \<and> h_prev_hash (b_header b) = block_hash E prev \<and>
    b_transactions b = txs \<and> validate_basic E b = Inr () \<and> v_type v = PreVoteType \<and> v_validator v = en_address en \<and>
    en_db en1 = write_all E C ov b (n + 1) (en_db en) \<and> en_pool en1 = mp \<and> cur_height en1 = n + 1 \<and>
    en_keypair en1 = en_keypair en \<and> en_address en1 = en_address en \<and>
    create_proposal E C (Some t) en = Ret (Inr b) en0 \<and>
    handle_proposal E C b en0 = andThen (advance_height E [WriteGuard] qc en1) (\<lambda>_ en. Ret (Inr v) en)"
proof -
  from sole_round_any [OF assms(1-5), of t] obtain b qc v en0 en1 where
    r: "h_height (b_header b) = n + 1" "h_prev_hash (b_header b) = block_hash E prev" "b_transactions b = txs"
      "validate_basic E b = Inr ()" "v_type v = PreVoteType" "v_validator v = en_address en"
      "en_db en1 = write_all E C ov b (n + 1) (en_db en)" "cur_height en1 = n + 1"
      "en_keypair en1 = en_keypair en" "en_address en1 = en_address en" "create_proposal E C (Some t) en = Ret (Inr b) en0"
      "handle_proposal E C b en0 = andThen (with_pool (remove_committed E txs (en_pool en)) en1)
        (\<lambda>_ en. andThen (advance_height E [WriteGuard] qc en) (\<lambda>_ en. Ret (Inr v) en))" by blast
  then show ?thesis
    by (intro exI [of _ b] exI [of _ qc] exI [of _ v] exI [of _ en0] exI [of _ "en1\<lparr>en_pool := mp\<rparr>"])
       (simp add: assms(6) with_pool_def)
qed

text \<open>The whole tick.\<close>

lemma sole_tick:
  assumes "ready E C stake n prev en" and "unat n + 1 < 2 ^ 64" and "harvest (1024 * 1024) (en_pool en) = txs"
    and "engine_execute_all E C (en_db en) txs [] = Some ov" and "\<forall>tx \<in> set txs. tx_verify E tx = Inr ()"
    and "remove_committed E txs (en_pool en) = Ret u mp"
  shows "\<exists>b qc v en1. h_height (b_header b) = n + 1 \<and> h_prev_hash (b_header b) = block_hash E prev \<and>
    b_transactions b = txs \<and> validate_basic E b = Inr () \<and> v_validator v = en_address en \<and>
    en_db en1 = write_all E C ov b (n + 1) (en_db en) \<and> en_pool en1 = mp \<and> cur_height en1 = n + 1 \<and>
    en_keypair en1 = en_keypair en \<and> en_address en1 = en_address en \<and>
    node_tick E C (Some t) en =
      andThen (advance_height E [WriteGuard] qc en1) (\<lambda>_ en.
      andThen (handle_prevote E C v en) (\<lambda>r en. case r of None \<Rightarrow> Ret None en | Some precommit \<Rightarrow>
      andThen (handle_precommit E C [] precommit en) (\<lambda>r en. case r of None \<Rightarrow> Ret None en | Some qc \<Rightarrow>
        Ret (Some (qc_height qc, qc_block_hash qc)) en)))"
proof -
  from sole_round [OF assms, of t] obtain b qc v en0 en1 where
    b: "h_height (b_header b) = n + 1" "h_prev_hash (b_header b) = block_hash E prev" "b_transactions b = txs"
      "validate_basic E b = Inr ()" "v_validator v = en_address en"
    and en1: "en_db en1 = write_all E C ov b (n + 1) (en_db en)" "en_pool en1 = mp" "cur_height en1 = n + 1"
      "en_keypair en1 = en_keypair en" "en_address en1 = en_address en"
    and run: "create_proposal E C (Some t) en = Ret (Inr b) en0"
      "handle_proposal E C b en0 = andThen (advance_height E [WriteGuard] qc en1) (\<lambda>_ en. Ret (Inr v) en)"
    by blast
  have "node_tick E C (Some t) en =
      andThen (advance_height E [WriteGuard] qc en1) (\<lambda>_ en.
      andThen (handle_prevote E C v en) (\<lambda>r en. case r of None \<Rightarrow> Ret None en | Some precommit \<Rightarrow>
      andThen (handle_precommit E C [] precommit en) (\<lambda>r en. case r of None \<Rightarrow> Ret None en | Some qc \<Rightarrow>
        Ret (Some (qc_height qc, qc_block_hash qc)) en)))"
    by (cases "advance_height E [WriteGuard] qc en1") (simp_all add: node_tick_def run)
  with b en1 show ?thesis by blast
qed

text \<open>
  With the documented lock the tick never ends: it waits in the mempool when the block holds a
  pooled transaction, and for the vote lists otherwise. The block is stored either way.
\<close>

lemma sole_tick_waits:
  assumes "ready E C stake n prev en" and "unat n + 2 < 2 ^ 64" and "harvest (1024 * 1024) (en_pool en) = txs"
    and "engine_execute_all E C (en_db en) txs [] = Some ov" and "\<forall>tx \<in> set txs. tx_verify E tx = Inr ()"
    and locked: "exclusive_writes (locks E)"
  shows "\<exists>b en'. h_height (b_header b) = n + 1 \<and> h_prev_hash (b_header b) = block_hash E prev \<and>
    b_transactions b = txs \<and> validate_basic E b = Inr () \<and> en_db en' = write_all E C ov b (n + 1) (en_db en) \<and>
    node_tick E C (Some t) en = Blocked en'"
proof -
  have "unat n + 1 < 2 ^ 64" using assms(2) by simp
  from sole_round_any [OF assms(1) this assms(3-5), of t] obtain b qc v en0 en1 where
    b: "h_height (b_header b) = n + 1" "h_prev_hash (b_header b) = block_hash E prev" "b_transactions b = txs"
      "validate_basic E b = Inr ()" "en_db en1 = write_all E C ov b (n + 1) (en_db en)" "cur_height en1 = n + 1"
    and run: "create_proposal E C (Some t) en = Ret (Inr b) en0"
      "handle_proposal E C b en0 = andThen (with_pool (remove_committed E txs (en_pool en)) en1)
        (\<lambda>_ en. andThen (advance_height E [WriteGuard] qc en) (\<lambda>_ en. Ret (Inr v) en))" by blast
  have "\<exists>en'. advance_height E [WriteGuard] qc (en1\<lparr>en_pool := mp\<rparr>) = Blocked en' \<and> en_db en' = en_db en1" for mp
  proof -
    have "unat (n + 1) + 1 < 2 ^ 64" using assms(2) by (simp add: unat_plus_small)
    then have "add_ck (prof E) (n + 1) 1 = Some (n + 2)" by (simp add: add_ck_def add.assoc)
    with locked b(6) show ?thesis by (simp add: advance_height_def Let_def exclusive_writes_def)
  qed
  note waits = this
  obtain mp where "remove_committed E txs (en_pool en) = Ret () mp \<or> remove_committed E txs (en_pool en) = Blocked mp"
    using remove_committed_deadlock [OF locked, of txs "en_pool en"] by (metis (full_types))
  then have "\<exists>en'. handle_proposal E C b en0 = Blocked en' \<and> en_db en' = en_db en1"
  proof
    assume "remove_committed E txs (en_pool en) = Ret () mp"
    with waits [of mp] show ?thesis unfolding run(2) by (auto simp: with_pool_def)
  next
    assume "remove_committed E txs (en_pool en) = Blocked mp"
    then show ?thesis unfolding run(2) by (simp add: with_pool_def)
  qed
  with b run(1) show ?thesis by (auto simp: node_tick_def)
qed

text \<open>A commit without accounts leaves the validators as they are.\<close>

lemma filter_om_insert_other:
  "\<not> P k \<Longrightarrow> filter (\<lambda>(j, _). P j) (om_insert k v m) = filter (\<lambda>(j, _). P j) m"
  by (induction m) auto

lemma block_entry_keys:
  "(k, v) \<in> set (block_entries E C b n) \<Longrightarrow> \<not> starts_with CF_ACCOUNTS k"
  by (auto simp: block_entries_def starts_with_def key_defs)

lemma filter_fold_insert_other:
  "\<forall>(k, v) \<in> set kvs. \<not> P k \<Longrightarrow>
     filter (\<lambda>(j, _). P j) (fold (\<lambda>(k, v). om_insert k v) kvs m) = filter (\<lambda>(j, _). P j) m"
  by (induction kvs arbitrary: m) (auto simp: filter_om_insert_other)

lemma get_validators_write_block:
  assumes "om_ok (kv_map (db_kv db))"
  shows "get_validators C (write_all E C [] b n db) = get_validators C db"
proof -
  have "kv_map (db_kv (write_all E C [] b n db)) =
      fold (\<lambda>(k, v). om_insert k v) (block_entries E C b n) (kv_map (db_kv db))"
    unfolding write_all_def apply_batch_def account_puts_def
    by (simp only: fold_apply_op_Put) simp
  then have "scan_prefix CF_ACCOUNTS (db_kv (write_all E C [] b n db)) = scan_prefix CF_ACCOUNTS (db_kv db)"
    using filter_fold_insert_other [of "block_entries E C b n" "starts_with CF_ACCOUNTS" "kv_map (db_kv db)"]
      block_entry_keys [of _ _ E C b n] assms om_ok_write_all [OF assms, of E C "[]" b n]
    by (auto simp: scan_prefix_filter)
  then show ?thesis by (simp add: get_validators_def)
qed

lemma sole_write_block:
  assumes "sole E C en stake" and "om_ok (kv_map (db_kv (en_db en)))"
    and "en_db en' = write_all E C [] b n (en_db en)"
    and "en_keypair en' = en_keypair en" and "en_address en' = en_address en"
  shows "sole E C en' stake"
  using assms by (simp add: sole_def active_validators_def get_validators_write_block)

lemma empty_db_reads:
  assumes "kv_map (db_kv db) = []"
  shows "om_ok (kv_map (db_kv db))" "get_latest_height db = 0" "get_block_by_height C db n = None"
    "get_account C db a = account_default"
  using assms by (simp_all add: get_latest_height_def get_block_by_height_def get_account_def kv_get_def)

text \<open>A genesis whose one account is its one validator, on an empty store, and an engine started on it.\<close>

lemma sole_genesis:
  assumes db: "kv_map (db_kv db) = []" "kv_faults (db_kv db) = []" and laws: "account_codec_laws C"
    and gen: "g_accounts g = [\<lparr>ga_address = a, ga_balance = x\<rparr>]"
      "g_validators g = [\<lparr>gv_address = a, gv_pubkey = kp_public kp, gv_stake = stake\<rparr>]"
      "a = address_from_pubkey E (kp_public kp)" "0 < stake"
    and dec: "block_dec C (block_enc C (to_genesis_block E g)) = Some (to_genesis_block E g)"
    and applied: "apply_genesis E C g db = (r, db1)"
    and new: "engine_new E kp db1 mp cid = Some en"
  shows "en_pool en = mp" and "en_db en = db1" and "prevotes en = []" and "precommits en = []"
    and "cur_height en = 0 + 1" and "cur_round en = 0" and "kv_faults (db_kv db1) = []" and "om_ok (kv_map (db_kv db1))"
    and "get_block_by_height C db1 0 = Some (to_genesis_block E g)" and "get_latest_height db1 = 0"
    and "sole E C en stake" and "balance (get_account C db1 (en_address en)) = 0"
proof -
  let ?acc = "genesis_validator_account C db \<lparr>gv_address = a, gv_pubkey = kp_public kp, gv_stake = stake\<rparr>"
  note empty = empty_db_reads [OF db(1)]
  have db1: "db1 = write_all E C (genesis_writes C g db) (to_genesis_block E g) 0 db"
    using genesis_no_faults [OF db(2), of E C g] applied by auto
  show latest: "get_latest_height db1 = 0" by (simp add: db1 get_latest_height_write_all empty)
  obtain y :: u64 where y: "add_ck (prof E) 0 1 = Some y"
    using latest new by (cases "add_ck (prof E) 0 (1 :: u64)") (simp_all add: engine_new_def)
  then have "y = 0 + 1" by (rule add_ck_SomeD)
  with y new latest have en: "en_pool en = mp" "en_db en = db1" "prevotes en = []" "precommits en = []"
    "cur_height en = 0 + 1" "cur_round en = 0" "en_keypair en = kp" "en_address en = a"
    by (auto simp: engine_new_def gen(3))
  then show "en_pool en = mp" "en_db en = db1" "prevotes en = []" "precommits en = []"
    "cur_height en = 0 + 1" "cur_round en = 0" by simp_all
  show "kv_faults (db_kv db1) = []" by (simp add: db1 write_all_no_faults db(2))
  show om: "om_ok (kv_map (db_kv db1))" by (simp add: db1 om_ok_write_all empty)
  show "get_block_by_height C db1 0 = Some (to_genesis_block E g)"
    by (simp add: db1 get_block_by_height_write_all empty dec)
  have rt: "acc_dec C (acc_enc C x) = Some x" for x using laws by (simp add: account_codec_laws_def)
  have kv: "kv_get (db_kv db1) (account_key x) = (if x = a then Some (acc_enc C ?acc) else None)" for x
    using db(1) by (simp add: db1 kv_get_write_account empty genesis_writes_def gen(1,2)) (simp add: kv_get_def)
  have acc: "is_validator ?acc" "staked_amount ?acc = stake" "validator_pubkey ?acc = Some (kp_public kp)"
    "balance ?acc = 0"
    by (simp_all add: genesis_validator_account_def empty account_default_def)
  then show "balance (get_account C db1 (en_address en)) = 0"
    by (simp add: get_account_def en kv rt)
  have "(x, y) \<in> set (get_validators C db1) \<longleftrightarrow> (x, y) = (a, ?acc)" for x y
    unfolding get_validators_iff [OF om] using acc gen(4) by (auto simp: kv rt split: if_splits)
  then have "set (get_validators C db1) = {(a, ?acc)}" by auto
  moreover have "distinct (get_validators C db1)"
    using distinct_get_validators [OF om, of C] by (simp add: distinct_map)
  ultimately have "get_validators C db1 = [(a, ?acc)]" by (intro distinct_singleton)
  then show "sole E C en stake"
    using acc gen(3,4) by (simp add: sole_def en active_validators_def map_filter_simps)
qed

text \<open>What a node finds that opened an empty store with a valid key.\<close>

lemma fresh_validator:
  assumes db: "kv_map (db_kv db) = []" "kv_faults (db_kv db) = []" and laws: "account_codec_laws C"
    and g: "g = run_genesis E (Some k) drawn cid now"
      "block_dec C (block_enc C (to_genesis_block E g)) = Some (to_genesis_block E g)"
    and key: "secret_of_hex E k = Some sk"
    and opened: "open_node E C (Some k) drawn cid (Some now) db = Ret r db1"
    and started: "start_engine E (Some k) db1 mp cid = Some (Some en)"
  shows "r = Inr ()" and "en_pool en = mp" and "en_db en = db1" and "prevotes en = []" and "precommits en = []"
    and "cur_height en = 0 + 1" and "cur_round en = 0" and "kv_faults (db_kv db1) = []" and "om_ok (kv_map (db_kv db1))"
    and "get_block_by_height C db1 0 = Some (to_genesis_block E g)" and "get_latest_height db1 = 0"
    and "sole E C en 10000000000" and "balance (get_account C db1 (en_address en)) = 0"
proof -
  let ?kp = "keypair_from_secret_bytes E sk"
  let ?a = "address_from_pubkey E (kp_public ?kp)"
  have gen: "g_accounts g = [\<lparr>ga_address = ?a, ga_balance = 100000000000\<rparr>]"
    "g_validators g = [\<lparr>gv_address = ?a, gv_pubkey = kp_public ?kp, gv_stake = 10000000000\<rparr>]"
    using g(1) key by (simp_all add: run_genesis_def Let_def)
  obtain h where "apply_genesis E C g db = (Inr h, write_all E C (genesis_writes C g db) (to_genesis_block E g) 0 db)"
    using genesis_no_faults [OF db(2)] by blast
  with opened have "r = Inr ()" and applied: "apply_genesis E C g db = (Inr h, db1)"
    using empty_db_reads [OF db(1)] by (auto simp: open_node_def g(1))
  then show "r = Inr ()" by simp
  have "engine_new E ?kp db1 mp cid = Some en" using started key by (auto simp: start_engine_def)
  from sole_genesis [OF db laws gen refl _ g(2) applied this] show
    "en_pool en = mp" "en_db en = db1" "prevotes en = []" "precommits en = []"
    "cur_height en = 0 + 1" "cur_round en = 0" "kv_faults (db_kv db1) = []" "om_ok (kv_map (db_kv db1))"
    "get_block_by_height C db1 0 = Some (to_genesis_block E g)" "get_latest_height db1 = 0"
    "sole E C en 10000000000" "balance (get_account C db1 (en_address en)) = 0"
    by (simp_all add: word_less_nat_alt)
qed

lemma branch_Some:
  "andThen m (\<lambda>r s. case r of Inl e \<Rightarrow> Ret None s | Inr x \<Rightarrow> k x s) = Ret (Some y) s' \<longleftrightarrow>
     (\<exists>x s1. m = Ret (Inr x) s1 \<and> k x s1 = Ret (Some y) s')"
  "andThen m' (\<lambda>r s. case r of None \<Rightarrow> Ret None s | Some x \<Rightarrow> l x s) = Ret (Some y) s' \<longleftrightarrow>
     (\<exists>x s1. m' = Ret (Some x) s1 \<and> l x s1 = Ret (Some y) s')"
  by (cases m; auto split: sum.split) (cases m'; auto split: option.split)

lemma tx_sign_Inr:
  assumes "ed25519_laws E" and "kp_ok E kp" and "tx_sign E kp u = Inr t"
  shows "tx_verify E t = Inr ()" and "\<exists>sg. t = u\<lparr>tx_pubkey := kp_public kp, tx_signature := sg\<rparr>"
  using pk_verify_kp_sign [OF assms(1,2)] assms(3)
  by (auto simp: tx_sign_def tx_verify_def Let_def split: if_splits)

lemma with_engine_Ret:
  "with_engine cl p rest m (\<lambda>r en. case r of Inl e \<Rightarrow> Panic (f en) | Inr x \<Rightarrow> k x en) = Ret y s \<longleftrightarrow>
     (\<exists>x en. m = Ret (Inr x) en \<and> k x en = Ret y s)"
  "with_engine cl p rest m' (\<lambda>r en. case r of None \<Rightarrow> Panic (f en) | Some x \<Rightarrow> l x en) = Ret y s \<longleftrightarrow>
     (\<exists>x en. m' = Ret (Some x) en \<and> l x en = Ret y s)"
  by (cases m; auto simp: with_engine_def split: sum.split)
     (cases m'; auto simp: with_engine_def split: option.split)

lemma tick_None:
  assumes "node_tick E C clock en = Ret a en'"
  shows "a = None"
proof (rule ccontr)
  assume "a \<noteq> None"
  then obtain y where "a = Some y" by auto
  with assms show False
    unfolding node_tick_def by (auto simp: branch_Some dest: prevote_again)
qed

section \<open>Properties\<close>

text \<open>
  The production loop announces nothing, ever: \<open>handle_proposal\<close> has already handled the
  prevote it returns, so handling it again gives no precommit, and the lines that publish a
  new head and set the height metric are not reached, however many ticks the loop has.
\<close>
theorem loop_never_announces:
  "node_loop E C clocks en = Ret l en' \<Longrightarrow> l = []"
  by (induction clocks arbitrary: en l) (fastforce simp: andThen_Ret_iff dest: tick_None)+

text \<open>
  C34: the first tick of a node that is its only validator stores a valid block 1 on top of
  its genesis block and then never returns: the commit, run from inside the prevote's handler,
  asks for the vote lock the handler still holds.
\<close>
theorem first_tick_deadlocks:
  assumes "kv_map (db_kv db) = []" and "kv_faults (db_kv db) = []" and "account_codec_laws C"
    and "exclusive_writes (locks E)" and "secret_of_hex E k = Some sk"
    and g: "g = run_genesis E (Some k) drawn cid now"
    and "block_dec C (block_enc C (to_genesis_block E g)) = Some (to_genesis_block E g)"
    and "open_node E C (Some k) drawn cid (Some now) db = Ret r db1"
    and "start_engine E (Some k) db1 (mempool_new config) cid = Some (Some en)"
  shows "\<exists>b en'. node_tick E C (Some t) en = Blocked en' \<and> validate_basic E b = Inr () \<and>
    h_height (b_header b) = 1 \<and> h_prev_hash (b_header b) = block_hash E (to_genesis_block E g) \<and>
    get_latest_height (en_db en') = 1 \<and>
    kv_get (db_kv (en_db en')) (height_key 1) = Some (hash_bytes_of (block_hash E b)) \<and>
    kv_get (db_kv (en_db en')) (block_key (block_hash E b)) = Some (block_enc C b)"
proof -
  note fresh = fresh_validator [OF assms(1,2,3) g assms(7,5,8,9)]
  have "harvest (1024 * 1024) (en_pool en) = []"
    using fresh(2) by (simp add: harvest_def mempool_new_def)
  moreover have "ready E C 10000000000 0 (to_genesis_block E g) en"
    using fresh(3-6,8,10,12) by (simp add: ready_def)
  ultimately obtain b qc v en1 where b: "h_height (b_header b) = 1"
      "h_prev_hash (b_header b) = block_hash E (to_genesis_block E g)" "validate_basic E b = Inr ()"
    and en1: "en_db en1 = write_all E C [] b 1 db1" "cur_height en1 = 1"
    and tick: "node_tick E C (Some t) en =
      andThen (advance_height E [WriteGuard] qc en1) (\<lambda>_ en.
      andThen (handle_prevote E C v en) (\<lambda>r en. case r of None \<Rightarrow> Ret None en | Some precommit \<Rightarrow>
      andThen (handle_precommit E C [] precommit en) (\<lambda>r en. case r of None \<Rightarrow> Ret None en | Some qc \<Rightarrow>
        Ret (Some (qc_height qc, qc_block_hash qc)) en)))"
    using sole_tick [of E C 10000000000 0 "to_genesis_block E g" en "[]" "[]" "()" "en_pool en" t] fresh(3) by auto
  have "add_ck (prof E) (1 :: u64) 1 = Some 2" by (cases "prof E") (simp_all add: add_ck_def)
  then obtain en' where "advance_height E [WriteGuard] qc en1 = Blocked en'" "en_db en' = en_db en1"
    using assms(4) en1(2) by (simp add: advance_height_def Let_def exclusive_writes_def)
  with b en1(1) tick fresh(9) show ?thesis
    by (intro exI [of _ b] exI [of _ en']) (simp add: get_latest_height_write_all kv_get_write_block)
qed

lemma single_vote_power: "\<exists>p. vote_power E vs [v] = Some p"
  using unat_bound [where 'a = 64]
  by (cases "List.find (\<lambda>i. vi_address i = v_validator v) vs")
     (simp_all add: vote_power_def map_filter_simps sum_ck_def add_ck_def)

text \<open>
  The tick when a thread may take a lock twice, with a harvest that runs and leaves the
  validator the only one.
\<close>

lemma sole_tick_reentrant:
  assumes locks: "locks E = reentrant" and rdy: "ready E C stake n prev en" and small: "unat n + 2 < 2 ^ 64"
    and harvest: "harvest (1024 * 1024) (en_pool en) = txs"
    and run: "engine_execute_all E C (en_db en) txs [] = Some ov" and verified: "\<forall>tx \<in> set txs. tx_verify E tx = Inr ()"
    and keeps: "\<And>b en'. en_db en' = write_all E C ov b (n + 1) (en_db en) \<Longrightarrow> en_keypair en' = en_keypair en \<Longrightarrow>
      en_address en' = en_address en \<Longrightarrow> sole E C en' stake"
  shows "\<exists>b en'. node_tick E C (Some t) en = Ret None en' \<and> validate_basic E b = Inr () \<and> b_transactions b = txs \<and>
    h_height (b_header b) = n + 1 \<and> h_prev_hash (b_header b) = block_hash E prev \<and>
    en_db en' = write_all E C ov b (n + 1) (en_db en) \<and> remove_committed E txs (en_pool en) = Ret () (en_pool en') \<and>
    cur_height en' = n + 2 \<and> cur_round en' = 0 \<and> en_step en' = NewRound \<and> precommits en' = [] \<and>
    own_votes (en_address en') (prevotes en') \<and> sole E C en' stake"
proof -
  have "unat n + 1 < 2 ^ 64" using small by simp
  obtain mp where mp: "remove_committed E txs (en_pool en) = Ret () mp" using remove_reentrant [OF locks] by blast
  from sole_tick [OF rdy \<open>unat n + 1 < 2 ^ 64\<close> harvest run verified mp, of t] obtain b qc v en1 where
    b: "validate_basic E b = Inr ()" "b_transactions b = txs" "h_height (b_header b) = n + 1"
      "h_prev_hash (b_header b) = block_hash E prev"
    and en1: "en_db en1 = write_all E C ov b (n + 1) (en_db en)" "en_pool en1 = mp" "cur_height en1 = n + 1"
      "en_keypair en1 = en_keypair en" "en_address en1 = en_address en"
    and v: "v_validator v = en_address en"
    and tick: "node_tick E C (Some t) en =
      andThen (advance_height E [WriteGuard] qc en1) (\<lambda>_ en.
      andThen (handle_prevote E C v en) (\<lambda>r en. case r of None \<Rightarrow> Ret None en | Some precommit \<Rightarrow>
      andThen (handle_precommit E C [] precommit en) (\<lambda>r en. case r of None \<Rightarrow> Ret None en | Some qc \<Rightarrow>
        Ret (Some (qc_height qc, qc_block_hash qc)) en)))" by blast
  have "unat (n + 1) = unat n + 1" using small by (simp add: unat_plus_small)
  then have "add_ck (prof E) (n + 1) 1 = Some (n + 1 + 1)" using small by (simp add: add_ck_def)
  then have add: "add_ck (prof E) (n + 1) 1 = Some (n + 2)" by (simp add: add.assoc)
  define en2 where "en2 = en1\<lparr>last_qc := Some qc, cur_height := n + 2, cur_round := 0, en_step := NewRound,
    proposed_block := None, prevotes := [], precommits := []\<rparr>"
  have adv: "advance_height E [WriteGuard] qc en1 = Ret (Some qc) en2"
    by (simp add: advance_height_def locks en1(3) add en2_def)
  let ?en3 = "en2\<lparr>prevotes := record_vote v []\<rparr>"
  have en2: "sole E C en2 stake" "sole E C ?en3 stake" by (rule keeps; simp add: en2_def en1)+
  have "v_validator v = en_address en2" by (simp add: en2_def en1 v)
  from sole_powers [OF en2(1) this] have "handle_prevote E C v en2 = Ret None ?en3"
    using record_vote_Nil [of v] by (simp add: handle_prevote_def Let_def en2_def)
  then have "node_tick E C (Some t) en = Ret None ?en3" by (simp add: tick adv)
  moreover have "own_votes (en_address en) (record_vote v [])" by (rule own_votes_record(2) [OF own_votes_Nil v])
  ultimately show ?thesis
    using b mp en2(2) by (intro exI [of _ b] exI [of _ ?en3]) (simp add: en2_def en1)
qed

text \<open>
  Only the lock stands in the way: with locks a thread may take twice, a tick of the only
  validator stores a valid block on top of the chain, moves the engine to the next height with
  its precommits cleared, and leaves it ready for the next tick; and still it announces nothing.
\<close>
theorem tick_commits_with_reentrant_locks:
  assumes "locks E = reentrant" and "sole E C en stake" and "om_ok (kv_map (db_kv (en_db en)))"
    and "harvest (1024 * 1024) (en_pool en) = []" and "cur_height en = n + 1" and "unat n + 2 < 2 ^ 64"
    and "get_block_by_height C (en_db en) n = Some prev"
    and "prevotes en = []" and "precommits en = []" and "kv_faults (db_kv (en_db en)) = []"
  shows "\<exists>b en'. node_tick E C (Some t) en = Ret None en' \<and> validate_basic E b = Inr () \<and>
    h_height (b_header b) = n + 1 \<and> h_prev_hash (b_header b) = block_hash E prev \<and>
    en_db en' = write_all E C [] b (n + 1) (en_db en) \<and> get_latest_height (en_db en') = n + 1 \<and>
    cur_height en' = n + 2 \<and> cur_round en' = 0 \<and> en_step en' = NewRound \<and> precommits en' = [] \<and>
    sole E C en' stake"
proof -
  have "ready E C stake n prev en" using assms(2,5,7-10) by (simp add: ready_def)
  from sole_tick_reentrant [OF assms(1) this assms(6,4), of "[]" t] sole_write_block [OF assms(2,3)]
  show ?thesis using get_latest_height_write_all [OF assms(3)] by (auto; metis)
qed

text \<open>
  A round of the test cluster never returns a block hash, whatever the validators, the
  clock and the locks: the precommit its code expects is \<open>None\<close> each time.
\<close>
theorem step_block_round_never_returns:
  "step_block_round E C clock cl \<noteq> Ret h cl'"
proof
  assume "step_block_round E C clock cl = Ret h cl'"
  then show False
    unfolding step_block_round_def Let_def
    by (auto simp: or_panic_Ret_iff with_engine_Ret dest: prevote_again split: list.split_asm)
qed

text \<open>
  The evidence the cluster forges against a key is evidence the chain accepts against
  the address of that key: two signed prevotes for two hashes at one height and round.
\<close>
theorem double_vote_evidence_accepted:
  assumes "ed25519_laws E" and "kp_ok E kp"
  shows "evidence_verify E (create_double_vote_evidence E kp height round) =
    Inr (address_from_pubkey E (kp_public kp))"
proof -
  have "vote_verify E (vote_new_signed E h height round PreVoteType kp) = Inr ()" for h
    using pk_verify_kp_sign [OF assms] by (simp add: vote_new_signed_def vote_verify_def vote_data_def Let_def)
  moreover have "(of_be_bytes (replicate 32 0xAA) :: 256 word) \<noteq> of_be_bytes (replicate 32 0xBB)"
    using be_bytes_of_be_bytes [of 32 "replicate 32 0xAA", where 'a = 256]
      be_bytes_of_be_bytes [of 32 "replicate 32 0xBB", where 'a = 256] by fastforce
  ultimately show ?thesis
    by (simp add: create_double_vote_evidence_def evidence_verify_def) (simp add: vote_new_signed_def Let_def)
qed

text \<open>
  C39: the wallet sends, signed and verifying, what its user asked for, with the nonce after
  the one the node reported, or 1 when the answer holds none; and it shows the node's answer
  to exactly that transaction.
\<close>
theorem tx_send_exact:
  assumes "ed25519_laws E"
    and "tx_send E J server from_secret to_addr amount fee rpc_url = Some (Inr (tx, res))"
  shows "\<exists>sk a acc_res acc_val. hex_decode E from_secret = Inr (be_bytes 32 sk) \<and>
    tx_sender tx = address_from_pubkey E (PublicKey (ed_public E sk)) \<and>
    address_from_str E to_addr = Some (Inr a) \<and> tx_recipient tx = a \<and>
    tx_amount tx = amount \<and> tx_fee tx = fee \<and> tx_type tx = Transfer \<and> tx_payload tx = [] \<and>
    tx_verify E tx = Inr () \<and>
    rpc_post server rpc_url (rpc_query J 1 ''getAccount''
      (js_object J [(''address'', js_str J (address_display E (tx_sender tx)))])) = Inr acc_res \<and>
    js_parse J acc_res = Inr acc_val \<and> tx_nonce tx = reported_nonce J acc_val + 1 \<and>
    rpc_post server rpc_url (rpc_query J 2 ''sendTransaction'' (js_tx J tx)) = Inr res"
proof -
  obtain bs where bs: "hex_decode E from_secret = Inr bs" "length bs = 32"
    using assms(2) by (auto simp: tx_send_def split: sum.split_asm if_split_asm)
  define sk where "sk = (of_be_bytes bs :: 256 word)"
  let ?kp = "keypair_from_secret_bytes E sk"
  let ?s = "address_from_pubkey E (kp_public ?kp)"
  have pub: "kp_public ?kp = PublicKey (ed_public E sk)" by (simp add: keypair_from_secret_bytes_def)
  have "hex_decode E from_secret = Inr (be_bytes 32 sk)"
    using bs by (simp add: sk_def be_bytes_of_be_bytes)
  moreover obtain a acc_res acc_val n where
    "address_from_str E to_addr = Some (Inr a)"
    "rpc_post server rpc_url (rpc_query J 1 ''getAccount''
      (js_object J [(''address'', js_str J (address_display E ?s))])) = Inr acc_res"
    "js_parse J acc_res = Inr acc_val" "add_ck (prof E) (reported_nonce J acc_val) 1 = Some n"
    "tx_sign E ?kp (tx_new_unsigned ?s a amount fee n Transfer [] (kp_public ?kp)) = Inr tx"
    "rpc_post server rpc_url (rpc_query J 2 ''sendTransaction'' (js_tx J tx)) = Inr res"
    using assms(2) bs
    by (auto simp: tx_send_def Let_def sk_def [symmetric] split: sum.split_asm option.split_asm)
  moreover from this(5) have "tx_sender tx = ?s" "tx_recipient tx = a" "tx_amount tx = amount" "tx_fee tx = fee"
    "tx_type tx = Transfer" "tx_payload tx = []" "tx_nonce tx = n" "tx_verify E tx = Inr ()"
    using tx_sign_Inr [OF assms(1) kp_ok_from_secret] by (fastforce simp: tx_new_unsigned_def)+
  ultimately show ?thesis
    by (intro exI [of _ sk] exI [of _ a] exI [of _ acc_res] exI [of _ acc_val]) (auto simp: pub dest: add_ck_SomeD)
qed

text \<open>The first empty line of a text ends what is before it.\<close>

lemma find_blank:
  "find_str (CRLF @ CRLF) (CRLF @ CRLF @ s) = Some 0"
  "c \<noteq> char_of (13 :: nat) \<Longrightarrow> find_str (CRLF @ CRLF) (CRLF @ c # s) = map_option (\<lambda>i. i + 2) (find_str (CRLF @ CRLF) (c # s))"
  by (auto simp: CRLF_def option.map_comp o_def)

lemma find_blank_line:
  "char_of (13 :: nat) \<notin> set w \<Longrightarrow>
     find_str (CRLF @ CRLF) (w @ s) =
       (case find_str (CRLF @ CRLF) s of None \<Rightarrow> None | Some i \<Rightarrow> Some (length w + i))"
  by (induction w) (auto simp: CRLF_def split: option.split)

abbreviation CR :: char where "CR \<equiv> char_of (13 :: nat)"

definition body_framed :: "string \<Rightarrow> string \<Rightarrow> bool" where
  "body_framed body s \<longleftrightarrow> find_str (CRLF @ CRLF) s \<noteq> None \<and> response_body s = body"

lemma body_line:
  assumes "body_framed body (l @ s)" and "CR \<notin> set w" and "l \<noteq> []" and "CR \<notin> set l"
  shows "body_framed body (w @ CRLF @ l @ s)"
proof -
  obtain c l' where l: "l = c # l'" "c \<noteq> CR" using assms(3,4) by (cases l) auto
  obtain i where i: "find_str (CRLF @ CRLF) (l @ s) = Some i" using assms(1) by (auto simp: body_framed_def)
  then have f: "find_str (CRLF @ CRLF) (w @ CRLF @ l @ s) = Some (length w + (i + 2))"
    using find_blank_line [OF assms(2)] find_blank(2) [OF l(2)] by (simp add: l(1))
  have "length w + (i + 2) + 4 = length w + Suc (Suc (i + 4))" by simp
  then have "drop (length w + (i + 2) + 4) (w @ CRLF @ l @ s) = drop (i + 4) (l @ s)"
    by (simp only: drop_append) (simp add: CRLF_def add.commute)
  with f i assms(1) show ?thesis by (simp add: body_framed_def response_body_def)
qed

lemma body_last:
  assumes "CR \<notin> set w"
  shows "body_framed s (w @ CRLF @ CRLF @ s)"
proof -
  have f: "find_str (CRLF @ CRLF) (w @ CRLF @ CRLF @ s) = Some (length w)"
    using find_blank_line [OF assms, of "CRLF @ CRLF @ s"] find_blank(1) [of s] by simp
  then show ?thesis unfolding body_framed_def response_body_def f by (simp add: CRLF_def)
qed

lemma split_at_chars: "p \<in> set (split_at c s) \<Longrightarrow> set p \<subseteq> set s"
  by (induction s arbitrary: p) (force split: if_splits list.splits)+

lemma join_with_chars: "set (join_with sep ps) \<subseteq> set sep \<union> \<Union> (set ` set ps)"
  by (induction sep ps rule: join_with.induct) auto

lemma show_nat_CR: "CR \<notin> set (show_nat n)"
proof (induction n rule: show_nat.induct)
  case (1 n)
  have "CR \<noteq> char_of (48 + m)" if "m < 10" for m :: nat using that by (simp add: char_of_eq_iff)
  with 1 show ?case by (subst show_nat.simps) auto
qed

lemma post_target_CR:
  assumes "CR \<notin> set url" and "post_target url = (h, p)"
  shows "CR \<notin> set h \<and> CR \<notin> set p"
proof -
  define u where "u = (case strip_prefix ''http://'' url of Some u \<Rightarrow> u | None \<Rightarrow> url)"
  have "CR \<notin> set u"
    using assms(1) by (auto simp: u_def strip_prefix_def dest: in_set_dropD split: if_splits)
  then have parts: "\<forall>q \<in> set (split_at (CHR ''/'') u). CR \<notin> set q" using split_at_chars by blast
  then have "CR \<notin> set (join_with ''/'' (tl (split_at (CHR ''/'') u)))"
    using join_with_chars [of "''/''" "tl (split_at (CHR ''/'') u)"]
    by (cases "split_at (CHR ''/'') u") (auto simp: char_of_eq_iff)
  with parts assms(2) show ?thesis
    by (auto simp: post_target_def u_def [symmetric] Let_def char_of_eq_iff split: list.splits if_splits)
qed

text \<open>
  A request and the reading of a reply agree on the framing: the body of what the wallet
  posts, read the way it reads an answer, is the JSON text posted, for every URL without a
  carriage return.
\<close>
theorem posted_body_framed:
  assumes "char_of (13 :: nat) \<notin> set url_str"
  shows "response_body (post_request url_str json_body) = json_body"
proof -
  obtain h p where t: "post_target url_str = (h, p)" by (cases "post_target url_str")
  note clean = post_target_CR [OF assms t]
  define close where "close = ''Connection: close''"
  define len where "len = ''Content-Length: '' @ show_nat (length json_body)"
  define ty where "ty = ''Content-Type: application/json''"
  define host where "host = ''Host: '' @ h"
  define first where "first = ''POST '' @ p @ '' HTTP/1.1''"
  note lines = close_def len_def ty_def host_def first_def
  have ok: "close \<noteq> []" "len \<noteq> []" "ty \<noteq> []" "host \<noteq> []" by (simp_all add: lines)
  have cr: "CR \<notin> set close" "CR \<notin> set len" "CR \<notin> set ty" "CR \<notin> set host" "CR \<notin> set first"
    using clean show_nat_CR by (simp_all add: lines char_of_eq_iff)
  note body_last [OF cr(1), of json_body]
  note body_line [OF this cr(2) ok(1) cr(1)]
  note body_line [OF this cr(3) ok(2) cr(2)]
  note body_line [OF this cr(4) ok(3) cr(3)]
  note body_line [OF this cr(5) ok(4) cr(4)]
  moreover have "post_request url_str json_body =
      first @ CRLF @ host @ CRLF @ ty @ CRLF @ len @ CRLF @ close @ CRLF @ CRLF @ json_body"
    by (simp add: post_request_def t lines)
  ultimately show ?thesis by (simp add: body_framed_def)
qed

lemma post_target_plain:
  assumes "CHR ''/'' \<notin> set host"
  shows "post_target (''http://'' @ host) = (host, ''/rpc'')"
    and "post_target (''http://'' @ host @ ''/'' @ path) =
      (host, if path = [] then ''/rpc'' else ''/'' @ path)"
proof -
  have plain: "split_at c h = [h]" if "c \<notin> set h" for c h using that by (induction h) auto
  have slash: "split_at c (h @ c # p) = h # split_at c p" if "c \<notin> set h" for c h p
    using that by (induction h) auto
  have join: "join_with [c] (split_at c p) = p" for c p
  proof (induction p)
    case (Cons x p)
    then show ?case by (cases "split_at c p"; cases "tl (split_at c p)") auto
  qed simp
  show "post_target (''http://'' @ host) = (host, ''/rpc'')"
    by (simp add: post_target_def strip_prefix_def plain [OF assms])
  show "post_target (''http://'' @ host @ ''/'' @ path) = (host, if path = [] then ''/rpc'' else ''/'' @ path)"
    by (simp add: post_target_def strip_prefix_def slash [OF assms] join)
qed

text \<open>
  Where the wallet posts is where the server listens: for an \<open>http\<close> URL, with or
  without a trailing slash, the host dialled is that address and the request goes to
  the JSON-RPC handler, as it does for an explicit \<open>/rpc\<close>; any other path is kept.
\<close>
theorem wallet_reaches_handler:
  assumes "CHR ''/'' \<notin> set host"
  shows "fst (post_target (''http://'' @ host)) = host \<and>
    route ''POST'' (snd (post_target (''http://'' @ host))) = Some HandleRpc \<and>
    fst (post_target (''http://'' @ host @ ''/'' @ path)) = host \<and>
    (route ''POST'' (snd (post_target (''http://'' @ host @ ''/'' @ path))) = Some HandleRpc \<longleftrightarrow>
       path = [] \<or> path = ''rpc'')"
  using post_target_plain [OF assms] by (auto simp: route_def)

lemma key_pair_printed:
  assumes "text_laws E" and "derive_keypair E seed i j k = Inr kp"
    and "to_bech32 E (address_from_pubkey E (kp_public kp)) DEFAULT_HRP = Inr address"
  shows "\<exists>sk. secret_of_hex E (hex_encode E (be_bytes 32 (secret_bytes kp))) = Some sk \<and>
    kp = keypair_from_secret_bytes E sk \<and> pubkey_from_str E (pk_to_hex E (kp_public kp)) = Some (Inr (kp_public kp)) \<and>
    address_from_str E address = Some (Inr (address_from_pubkey E (kp_public kp)))"
proof -
  have h: "hex_laws E" using assms(1) by (simp add: text_laws_def)
  obtain sk where sk: "kp = keypair_from_secret_bytes E sk"
    using assms(2) by (auto simp: derive_keypair_def split: option.splits sum.splits)
  then have "secret_of_hex E (hex_encode E (be_bytes 32 (secret_bytes kp))) = Some sk"
    by (simp add: secret_of_hex_def hex_lawsD(2) [OF h] secret_bytes_def
        keypair_from_secret_bytes_def of_be_bytes_be_bytes)
  with sk show ?thesis
    using to_bech32_text [OF assms(1), of "address_from_pubkey E (kp_public kp)"] assms(3)
      pubkey_from_str_text(1) [OF assms(1)] by auto
qed

text \<open>
  What \<open>keygen\<close> prints fits together: a node given the printed secret key runs under the
  printed public key and address, the wallet of the printed phrase is the same key pair, and
  with a MAC that takes any key only a wrong word count makes it fail.
\<close>
theorem keygen_consistent:
  assumes "text_laws E" and "bip39_laws B"
  shows "(keygen E B drawn words = Some (Inr (mnemonic, address, pub, secret)) \<longrightarrow>
      (\<exists>sk seed. secret_of_hex E secret = Some sk \<and>
         seed_from_mnemonic B mnemonic [] = Some (Inr seed) \<and>
         derive_keypair E seed 0 0 0 = Inr (keypair_from_secret_bytes E sk) \<and>
         pubkey_from_str E pub = Some (Inr (kp_public (keypair_from_secret_bytes E sk))) \<and>
         address_from_str E address =
           Some (Inr (address_from_pubkey E (kp_public (keypair_from_secret_bytes E sk)))))) \<and>
    ((\<forall>k d. hmac512 E k d \<noteq> None) \<longrightarrow>
       (\<exists>out. keygen E B drawn words = Some (Inr out)) = (words = 12 \<or> words = 24))"
proof -
  have "\<exists>sk seed. secret_of_hex E secret = Some sk \<and>
      seed_from_mnemonic B mnemonic [] = Some (Inr seed) \<and>
      derive_keypair E seed 0 0 0 = Inr (keypair_from_secret_bytes E sk) \<and>
      pubkey_from_str E pub = Some (Inr (kp_public (keypair_from_secret_bytes E sk))) \<and>
      address_from_str E address = Some (Inr (address_from_pubkey E (kp_public (keypair_from_secret_bytes E sk))))"
    if "keygen E B drawn words = Some (Inr (mnemonic, address, pub, secret))"
    using that unfolding keygen_def
    by (auto split: sum.split_asm option.split_asm dest!: key_pair_printed [OF assms(1)])
  moreover have "(\<exists>out. keygen E B drawn words = Some (Inr out)) = (words = 12 \<or> words = 24)"
    if mac: "\<forall>k d. hmac512 E k d \<noteq> None"
  proof (cases "words = 12 \<or> words = 24")
    case True
    then have "generate_mnemonic B drawn words = Inr (new_phrase B words drawn)"
      by (auto simp: generate_mnemonic_def)
    moreover from mnemonic_seed [OF assms(2) this] obtain seed where
      "seed_from_mnemonic B (new_phrase B words drawn) [] = Some (Inr seed)" by blast
    moreover obtain kp where "derive_keypair E seed 0 0 0 = Inr kp"
      using derive_keypair_total [of E] mac by blast
    moreover obtain a where "to_bech32 E (address_from_pubkey E (kp_public kp)) DEFAULT_HRP = Inr a"
      using to_bech32_text [OF assms(1)] by blast
    ultimately show ?thesis using True by (simp add: keygen_def)
  qed (auto simp: keygen_def generate_mnemonic_def)
  ultimately show ?thesis by blast
qed

section \<open>Examples\<close>

abbreviation some_key :: string where
  "some_key \<equiv> replicate 64 (CHR ''7'')"

lemma unhex_replicate: "sample_unhex (replicate (2 * n) c) = Inr (replicate n (word_of_nat (of_char c)))"
  by (induction n) simp_all

lemma some_key_secret: "\<exists>sk. secret_of_hex toy_env some_key = Some sk"
  using unhex_replicate [of 32 "CHR ''7''"] by (simp add: secret_of_hex_def)

lemma fresh_start:
  assumes "secret_of_hex E k = Some sk"
  shows "\<exists>r db1 en. open_node E C (Some k) drawn cid (Some now) memory_db = Ret r db1 \<and>
    start_engine E (Some k) db1 mp cid = Some (Some en)"
proof -
  have mem: "kv_map (db_kv memory_db) = []" "kv_faults (db_kv memory_db) = []"
    by (simp_all add: memory_db_def open_in_memory_def)
  let ?g = "run_genesis E (Some k) drawn cid now"
  let ?db1 = "write_all E C (genesis_writes C ?g memory_db) (to_genesis_block E ?g) 0 memory_db"
  have "get_latest_height ?db1 = 0" by (simp add: get_latest_height_write_all)
  moreover have "add_ck (prof E) (0 :: u64) 1 = Some 1" by (cases "prof E") (simp_all add: add_ck_def)
  ultimately have "\<exists>en. start_engine E (Some k) ?db1 mp cid = Some (Some en)"
    using assms by (simp add: start_engine_def engine_new_def)
  moreover obtain h where "apply_genesis E C ?g memory_db = (Inr h, ?db1)"
    using genesis_no_faults [OF mem(2)] by blast
  ultimately show ?thesis using empty_db_reads [OF mem(1)] by (auto simp: open_node_def)
qed

theorem first_tick_deadlocks_witness:
  "\<exists>C en en'. node_tick toy_env C (Some 5) en = Blocked en' \<and> get_latest_height (en_db en') = 1"
proof -
  let ?g = "run_genesis toy_env (Some some_key) 0 ''aura'' 1"
  let ?C = "toy_codec (to_genesis_block toy_env ?g)"
  have mem: "kv_map (db_kv memory_db) = []" "kv_faults (db_kv memory_db) = []"
    by (simp_all add: memory_db_def open_in_memory_def)
  have ex: "exclusive_writes (locks toy_env)" by (simp add: exclusive_writes_rwlock)
  obtain sk where k: "secret_of_hex toy_env some_key = Some sk" using some_key_secret by blast
  then obtain r db1 en where run: "open_node toy_env ?C (Some some_key) 0 ''aura'' (Some 1) memory_db = Ret r db1"
    "start_engine toy_env (Some some_key) db1 (mempool_new tiny_config) ''aura'' = Some (Some en)"
    using fresh_start by blast
  from first_tick_deadlocks [OF mem account_codec_laws_toy ex k refl _ run, of 5] show ?thesis by auto
qed

lemma val_tick:
  shows "locks fee_env = reentrant" and "sole fee_env fee_codec val_engine 300"
    and "harvest (1024 * 1024) (en_pool val_engine) = []" and "cur_height val_engine = 1 + 1"
    and "get_block_by_height fee_codec (en_db val_engine) 1 = Some (sample_block [])"
    and "prevotes val_engine = []" and "precommits val_engine = []" and "kv_faults (db_kv (en_db val_engine)) = []"
proof -
  show "sole fee_env fee_codec val_engine 300"
    by (simp add: sole_def val_engine_def active_val_db own_address_def keypair_from_secret_bytes_def fee_env_def)
  show "get_block_by_height fee_codec (en_db val_engine) 1 = Some (sample_block [])"
    by (simp add: val_engine_def val_db_def commit_block_write_all get_block_by_height_write_all fee_codec_def
        sample_block_def sample_header_def header_new_unsigned_def)
  show "kv_faults (db_kv (en_db val_engine)) = []"
    by (simp add: val_engine_def val_db_def commit_block_write_all write_all_no_faults memory_db_def open_in_memory_def)
qed (simp_all add: fee_env_locks val_engine_def harvest_def mempool_new_def)

theorem tick_commits_with_reentrant_locks_witness:
  "\<exists>en'. node_tick fee_env fee_codec (Some 9) val_engine = Ret None en' \<and> cur_height en' = 3"
proof -
  have "om_ok (kv_map (db_kv (en_db val_engine)))" by (simp add: val_engine_def om_ok_val_db)
  from tick_commits_with_reentrant_locks [OF val_tick(1,2) this val_tick(3,4) _ val_tick(5-8), of 9]
  show ?thesis by auto
qed

theorem loop_never_announces_witness:
  "\<exists>en'. node_loop fee_env fee_codec [Some 9] val_engine = Ret [] en'"
proof -
  have "om_ok (kv_map (db_kv (en_db val_engine)))" by (simp add: val_engine_def om_ok_val_db)
  have "ready fee_env fee_codec 300 1 (sample_block []) val_engine"
    using val_tick by (simp add: ready_def)
  from sole_tick_reentrant [OF val_tick(1) this _ val_tick(3), of "[]" 9]
    sole_write_block [OF val_tick(2) \<open>om_ok _\<close>]
  have "\<exists>l en'. node_loop fee_env fee_codec [Some 9] val_engine = Ret l en'" by auto
  with loop_never_announces show ?thesis by blast
qed

theorem double_vote_evidence_accepted_witness:
  "evidence_verify toy_env (create_double_vote_evidence toy_env (keypair_from_secret_bytes toy_env 7) 4 0) =
   Inr (address_from_pubkey toy_env (PublicKey 7))"
  using double_vote_evidence_accepted [OF ed25519_laws_toy kp_ok_from_secret]
  by (simp add: keypair_from_secret_bytes_def)

theorem tx_send_exact_witness:
  "\<exists>tx. tx_send toy_env sample_lib (\<lambda>_ _. Some ''ok'') some_key (address_display toy_env (Address 5)) 10 100
     ''http://node'' = Some (Inr (tx, ''ok'')) \<and> tx_verify toy_env tx = Inr () \<and> tx_amount tx = 10 \<and> tx_nonce tx = 1"
proof -
  let ?send = "tx_send toy_env sample_lib (\<lambda>_ _. Some ''ok'') some_key (address_display toy_env (Address 5)) 10 100 ''http://node''"
  have post: "rpc_post (\<lambda>_ _. Some ''ok'') url body = Inr ''ok''" for url body
    by (simp add: rpc_post_def response_body_def CRLF_def)
  have "address_from_str toy_env (address_display toy_env (Address 5)) = Some (Inr (Address 5))"
    using to_bech32_text [OF text_laws_toy, of "Address 5"] by (auto simp: address_display_def)
  moreover have "reported_nonce sample_lib (SStr ''ok'') = 0" "js_parse sample_lib ''ok'' = Inr (SStr ''ok'')"
    by (simp_all add: reported_nonce_def sample_lib_def)
  moreover define kp where "kp = keypair_from_secret_bytes toy_env (of_be_bytes (replicate 32 55))"
  moreover obtain tx where "tx_sign toy_env kp (tx_new_unsigned (address_from_pubkey toy_env (kp_public kp)) (Address 5)
      10 100 1 Transfer [] (kp_public kp)) = Inr tx"
    by (simp add: tx_sign_def tx_new_unsigned_def Let_def)
  moreover have "add_ck Debug (0 :: u64) 1 = Some 1" by (simp add: add_ck_def)
  ultimately have tx: "?send = Some (Inr (tx, ''ok''))"
    using unhex_replicate [of 32 "CHR ''7''"]
    by (simp add: tx_send_def post Let_def)
  with tx_send_exact [OF ed25519_laws_toy tx] post show ?thesis
    by (auto simp: reported_nonce_def sample_lib_def)
qed

theorem posted_body_framed_witness:
  "response_body (post_request ''http://node:1'' ''json'') = ''json''"
  by (rule posted_body_framed) (simp add: char_of_eq_iff)

definition sample_bip39 :: "string bip39" where
  "sample_bip39 = \<lparr>new_phrase = (\<lambda>n drawn. replicate n (CHR ''w'')), from_phrase = Inr,
     phrase_seed = (\<lambda>m pass. replicate 64 (word_of_nat (length m)))\<rparr>"

theorem keygen_consistent_witness:
  "\<exists>mnemonic address pub secret sk.
     keygen toy_env sample_bip39 [] 12 = Some (Inr (mnemonic, address, pub, secret)) \<and>
     secret_of_hex toy_env secret = Some sk"
proof -
  have laws: "bip39_laws sample_bip39" by (simp add: bip39_laws_def sample_bip39_def)
  note keygen = keygen_consistent [OF text_laws_toy laws]
  have "\<exists>out. keygen toy_env sample_bip39 [] 12 = Some (Inr out)" using keygen by simp
  then obtain mnemonic address pub secret where
    "keygen toy_env sample_bip39 [] 12 = Some (Inr (mnemonic, address, pub, secret))" by auto
  with keygen show ?thesis by blast
qed

theorem wallet_reaches_handler_witness:
  "route ''POST'' (snd (post_target ''http://127.0.0.1:8545'')) = Some HandleRpc"
  using wallet_reaches_handler [of "''127.0.0.1:8545''"] by simp

end
