(* ===== verification/Metrics.thy ===== *)
theory Metrics
  imports Text "HOL-Library.Sublist"
begin

text \<open>
  The metrics of \<open>aura-metrics/src/lib.rs\<close>: six statics that register themselves with the
  registry of the prometheus crate when first used, and the page that \<open>handle_metrics\<close> of
  \<open>aura-rpc/src/server.rs\<close> serves of them. The text encoder of that crate is a parameter.
\<close>

section \<open>The statics\<close>

text \<open>\<open>None\<close> is a \<open>LazyLock\<close> nobody has looked at: its metric is not registered.\<close>

record metrics =
  BLOCK_HEIGHT :: "64 word option"
  MEMPOOL_TXS :: "64 word option"
  ACTIVE_PEERS :: "64 word option"
  TX_PROCESSED_TOTAL :: "64 word option"
  CONSENSUS_ROUND :: "64 word option"
  BLOCK_TIME_SECONDS :: "64 word list option"

definition metrics_new :: metrics where
  "metrics_new = \<lparr>BLOCK_HEIGHT = None, MEMPOOL_TXS = None, ACTIVE_PEERS = None, TX_PROCESSED_TOTAL = None,
     CONSENSUS_ROUND = None, BLOCK_TIME_SECONDS = None\<rparr>"

definition processed_inc_by :: "u64 \<Rightarrow> metrics \<Rightarrow> metrics" where
  "processed_inc_by n m =
     m\<lparr>TX_PROCESSED_TOTAL := Some (n + (case TX_PROCESSED_TOTAL m of Some x \<Rightarrow> x | None \<Rightarrow> 0))\<rparr>"

section \<open>The page\<close>

datatype metric_value = IntGauge "64 word" | IntCounter "64 word" | Histogram "64 word list"

record metric_family =
  mf_name :: string
  mf_help :: string
  mf_value :: metric_value

definition family :: "string \<Rightarrow> string \<Rightarrow> ('a \<Rightarrow> metric_value) \<Rightarrow> 'a option \<Rightarrow> metric_family list" where
  "family name hlp kind v = (case v of None \<Rightarrow> [] | Some x \<Rightarrow> [\<lparr>mf_name = name, mf_help = hlp, mf_value = kind x\<rparr>])"

text \<open>What the registry gathers: the registered families by name.\<close>

definition gather_families :: "metrics \<Rightarrow> metric_family list" where
  "gather_families m =
     family ''aura_active_peers'' ''Current connected active peers'' IntGauge (ACTIVE_PEERS m) @
     family ''aura_block_height'' ''Current committed block height'' IntGauge (BLOCK_HEIGHT m) @
     family ''aura_block_time_seconds'' ''Time taken to produce and commit a block'' Histogram (BLOCK_TIME_SECONDS m) @
     family ''aura_consensus_round'' ''Current active consensus round'' IntGauge (CONSENSUS_ROUND m) @
     family ''aura_mempool_transactions'' ''Current transactions in mempool'' IntGauge (MEMPOOL_TXS m) @
     family ''aura_transactions_processed_total'' ''Total processed transactions'' IntCounter (TX_PROCESSED_TOTAL m)"

text \<open>An encoder that fails makes the call panic (\<open>None\<close>).\<close>

definition gather_metrics :: "(metric_family list \<Rightarrow> bytes option) \<Rightarrow> metrics \<Rightarrow> string option" where
  "gather_metrics encode m =
     map_option (\<lambda>buffer. if utf8_ok buffer then string_of_bytes buffer else []) (encode (gather_families m))"

definition handle_metrics ::
  "(metric_family list \<Rightarrow> bytes option) \<Rightarrow> metrics \<Rightarrow> (nat \<times> (string \<times> string) list \<times> string) option" where
  "handle_metrics encode m =
     map_option (\<lambda>metrics_text. (200, [(''content-type'', ''text/plain; version=0.0.4'')], metrics_text))
       (gather_metrics encode m)"

section \<open>What is on it\<close>

lemma family_name [simp]: "f \<in> set (family n h k v) \<Longrightarrow> mf_name f = n"
  by (auto simp: family_def split: option.splits)

text \<open>
  The registry takes each metric: no two have one name, and each name is one the registry
  accepts, letters, digits and underscores with no digit in front. So no static panics when
  it registers itself.
\<close>

definition name_ok :: "string \<Rightarrow> bool" where
  "name_ok s \<longleftrightarrow> s \<noteq> [] \<and>
     list_all (\<lambda>c. c \<in> set ''abcdefghijklmnopqrstuvwxyz_'') (take 1 s) \<and>
     list_all (\<lambda>c. c \<in> set ''abcdefghijklmnopqrstuvwxyz_0123456789'') s"

definition metric_names :: "string list" where
  "metric_names = [''aura_active_peers'', ''aura_block_height'', ''aura_block_time_seconds'', ''aura_consensus_round'',
     ''aura_mempool_transactions'', ''aura_transactions_processed_total'']"

lemma metric_names_ok: "distinct metric_names" "list_all name_ok metric_names"
  by code_simp+

lemma family_names: "subseq (map mf_name (family n h k v)) [n]"
  by (simp add: family_def split: option.split)

lemma gathered_names: "subseq (map mf_name (gather_families m)) metric_names"
proof -
  have names: "metric_names = [''aura_active_peers''] @ [''aura_block_height''] @ [''aura_block_time_seconds''] @
      [''aura_consensus_round''] @ [''aura_mempool_transactions''] @ [''aura_transactions_processed_total'']"
    by (simp add: metric_names_def)
  show ?thesis
    unfolding gather_families_def map_append names by (intro list_emb_append_mono family_names)
qed

text \<open>
  A page shows a metric exactly when the program has used it: before the first use the
  metric is not there, not even with the value zero.
\<close>
theorem gather_exact:
  "f \<in> set (gather_families m) \<longleftrightarrow>
     (\<exists>v. BLOCK_HEIGHT m = Some v \<and> f = \<lparr>mf_name = ''aura_block_height'',
        mf_help = ''Current committed block height'', mf_value = IntGauge v\<rparr>) \<or>
     (\<exists>v. MEMPOOL_TXS m = Some v \<and> f = \<lparr>mf_name = ''aura_mempool_transactions'',
        mf_help = ''Current transactions in mempool'', mf_value = IntGauge v\<rparr>) \<or>
     (\<exists>v. ACTIVE_PEERS m = Some v \<and> f = \<lparr>mf_name = ''aura_active_peers'',
        mf_help = ''Current connected active peers'', mf_value = IntGauge v\<rparr>) \<or>
     (\<exists>v. TX_PROCESSED_TOTAL m = Some v \<and> f = \<lparr>mf_name = ''aura_transactions_processed_total'',
        mf_help = ''Total processed transactions'', mf_value = IntCounter v\<rparr>) \<or>
     (\<exists>v. CONSENSUS_ROUND m = Some v \<and> f = \<lparr>mf_name = ''aura_consensus_round'',
        mf_help = ''Current active consensus round'', mf_value = IntGauge v\<rparr>) \<or>
     (\<exists>v. BLOCK_TIME_SECONDS m = Some v \<and> f = \<lparr>mf_name = ''aura_block_time_seconds'',
        mf_help = ''Time taken to produce and commit a block'', mf_value = Histogram v\<rparr>)"
  unfolding gather_families_def family_def by (auto split: option.splits)

section \<open>A text encoder\<close>

text \<open>
  What the encoder is documented to write for a gauge without labels: a line with its name, a
  space and its value. The number is one of at most 64 bits, read as signed.
\<close>

definition show_gauge :: "64 word \<Rightarrow> string" where
  "show_gauge v = (if sint v < 0 then ''-'' @ show_nat (nat (- sint v)) else show_nat (nat (sint v)))"

definition text_encoder_laws :: "(metric_family list \<Rightarrow> bytes option) \<Rightarrow> bool" where
  "text_encoder_laws encode \<longleftrightarrow>
     (\<forall>m. \<exists>buffer. encode (gather_families m) = Some buffer \<and> utf8_ok buffer \<and>
        (\<forall>f \<in> set (gather_families m). \<forall>v. mf_value f = IntGauge v \<longrightarrow>
           sublist (mf_name f @ '' '' @ show_gauge v) (string_of_bytes buffer)))"

text \<open>Gauges set are on the page, with the value last set.\<close>

theorem gauges_on_page:
  assumes "text_encoder_laws encode"
  shows "\<exists>page. gather_metrics encode m = Some page \<and>
    (\<forall>v. BLOCK_HEIGHT m = Some v \<longrightarrow> sublist (''aura_block_height '' @ show_gauge v) page) \<and>
    (\<forall>v. MEMPOOL_TXS m = Some v \<longrightarrow> sublist (''aura_mempool_transactions '' @ show_gauge v) page)"
proof -
  obtain buffer where "encode (gather_families m) = Some buffer" "utf8_ok buffer"
    and lines: "\<forall>f \<in> set (gather_families m). \<forall>v. mf_value f = IntGauge v \<longrightarrow>
      sublist (mf_name f @ '' '' @ show_gauge v) (string_of_bytes buffer)"
    using assms unfolding text_encoder_laws_def by blast
  moreover have "sublist (''aura_block_height '' @ show_gauge v) (string_of_bytes buffer)" if "BLOCK_HEIGHT m = Some v" for v
    using lines [rule_format, of "\<lparr>mf_name = ''aura_block_height'', mf_help = ''Current committed block height'', mf_value = IntGauge v\<rparr>" v]
      that gather_exact [of _ m] by simp
  moreover have "sublist (''aura_mempool_transactions '' @ show_gauge v) (string_of_bytes buffer)" if "MEMPOOL_TXS m = Some v" for v
    using lines [rule_format, of "\<lparr>mf_name = ''aura_mempool_transactions'', mf_help = ''Current transactions in mempool'', mf_value = IntGauge v\<rparr>" v]
      that gather_exact [of _ m] by simp
  ultimately show ?thesis by (simp add: gather_metrics_def)
qed

section \<open>Examples\<close>

text \<open>A small encoder: a line for each family, with the value of a gauge.\<close>

fun sample_line :: "metric_family \<Rightarrow> string" where
  "sample_line f = mf_name f @ '' '' @ (case mf_value f of IntGauge v \<Rightarrow> show_gauge v | _ \<Rightarrow> []) @ [char_of (10 :: nat)]"

definition sample_encoder :: "metric_family list \<Rightarrow> bytes option" where
  "sample_encoder fs = Some (str_bytes (concat (map sample_line fs)))"

definition ascii :: "string \<Rightarrow> bool" where
  "ascii s \<longleftrightarrow> list_all (\<lambda>c. of_char c < (128 :: nat)) s"

lemma ascii_simps [simp]:
  "ascii []" "ascii (c # s) \<longleftrightarrow> of_char c < (128 :: nat) \<and> ascii s" "ascii (s @ t) \<longleftrightarrow> ascii s \<and> ascii t"
  by (simp_all add: ascii_def)

lemma ascii_utf8: "ascii s \<Longrightarrow> utf8_ok (str_bytes s)"
proof (induction s)
  case (Cons c s)
  moreover have "take_bit 8 (of_char c) = (of_char c :: nat)"
    using nat_of_char_less_256 [of c] by (simp add: take_bit_nat_eq_self_iff)
  ultimately have "(word_of_nat (of_char c) :: u8) \<le> 0x7F"
    by (simp add: word_le_nat_alt unsigned_of_nat)
  with Cons show ?case by (subst utf8_ok.simps) (simp add: str_bytes_def)
qed (simp add: utf8_ok.simps str_bytes_def)

lemma ascii_show_nat: "ascii (show_nat n)"
proof (induction n rule: show_nat.induct)
  case (1 n)
  have "n mod 10 < 80" by (rule less_trans [of _ 10]) simp_all
  with 1 show ?case
    by (subst show_nat.simps) (simp add: of_char_of take_bit_nat_eq_self_iff)
qed

lemma ascii_line: "mf_name f \<in> set metric_names \<Longrightarrow> ascii (sample_line f)"
proof -
  assume "mf_name f \<in> set metric_names"
  moreover have "list_all ascii metric_names" by code_simp
  ultimately have "ascii (mf_name f)" by (auto simp: list_all_iff)
  moreover have "ascii (show_gauge v)" for v
    using ascii_show_nat by (simp add: show_gauge_def)
  ultimately show ?thesis by (cases "mf_value f") simp_all
qed

lemma text_encoder_laws_sample: "text_encoder_laws sample_encoder"
  unfolding text_encoder_laws_def
proof (intro allI exI conjI ballI impI)
  fix m
  let ?page = "concat (map sample_line (gather_families m))"
  show "sample_encoder (gather_families m) = Some (str_bytes ?page)" by (simp add: sample_encoder_def)
  have "set (map mf_name (gather_families m)) \<subseteq> set metric_names"
    using list_emb_set [OF gathered_names [of m]] by blast
  then have "ascii (sample_line f)" if "f \<in> set (gather_families m)" for f
    using that by (intro ascii_line) auto
  then have "ascii (concat (map sample_line fs))" if "set fs \<subseteq> set (gather_families m)" for fs
    using that by (induction fs) simp_all
  then show "utf8_ok (str_bytes ?page)" by (simp add: ascii_utf8)
  fix f v assume f: "f \<in> set (gather_families m)" "mf_value f = IntGauge v"
  then obtain xs ys where "gather_families m = xs @ f # ys" by (auto dest: split_list)
  then have "?page = concat (map sample_line xs) @ (mf_name f @ '' '' @ show_gauge v) @
      [char_of (10 :: nat)] @ concat (map sample_line ys)" by (simp add: f(2))
  then show "sublist (mf_name f @ '' '' @ show_gauge v) (string_of_bytes (str_bytes ?page))"
    unfolding string_of_str_bytes by (metis sublist_appendI)
qed

theorem gauges_on_page_witness:
  "\<exists>page. gather_metrics sample_encoder (metrics_new\<lparr>BLOCK_HEIGHT := Some 42\<rparr>) = Some page \<and>
    sublist (''aura_block_height '' @ show_gauge 42) page"
  using gauges_on_page [OF text_encoder_laws_sample, of "metrics_new\<lparr>BLOCK_HEIGHT := Some 42\<rparr>"] by auto

end
