(* ===== verification/System.thy ===== *)
theory System
  imports Node Metrics
begin

text \<open>
  A running node: the \<open>Run\<close> command of \<open>aura-node/src/main.rs\<close> as a whole. It opens the data
  file, applies a genesis when the file holds no chain, and then serves JSON-RPC requests and
  runs the block production loop over one database and one mempool, which both share. A run is
  a sequence of such steps, of stops and of restarts from the file; a request and a tick are
  each one step, so the interleaving of their inner operations is not modelled.
\<close>

section \<open>The \<open>Init\<close> command\<close>

text \<open>
  The state of the outcome is the content of the data file; \<open>disk\<close> is what it is before,
  \<open>faults\<close> which of the coming writes fail, \<open>dir_ok\<close> whether the data directory can be made.
\<close>

definition init_command ::
  "env \<Rightarrow> codec \<Rightarrow> string \<Rightarrow> bool list \<Rightarrow> bool \<Rightarrow> 256 word \<Rightarrow> string \<Rightarrow> u64 option \<Rightarrow> bytes option \<Rightarrow>
     (node_error + hash, bytes option) outcome" where
  "init_command E C path faults dir_ok drawn chain_id clock disk =
     (if \<not> dir_ok then Ret (Inl NodeIo) disk
      else case kv_open C path disk faults of
        Inl e \<Rightarrow> Ret (Inl (NodeStorage e)) disk
      | Inr kv \<Rightarrow>
          (case init_node E C drawn chain_id clock (state_db_new E kv) of
             Ret r db \<Rightarrow> Ret r (kv_disk (db_kv db))
           | Panic db \<Rightarrow> Panic (kv_disk (db_kv db))
           | Blocked db \<Rightarrow> Blocked (kv_disk (db_kv db))
           | Spin \<Rightarrow> Spin))"

section \<open>A running node\<close>

record node_sys =
  ns_db :: state_db
  ns_pool :: mempool
  ns_peers :: peer_manager
  ns_chain_id :: string
  ns_sent :: "string list"
  ns_engine :: "engine option"
  ns_metrics :: metrics

text \<open>
  Starting it, on a data file as above; \<open>listens\<close> says whether the server's address can be
  bound.
\<close>

definition run_node ::
  "env \<Rightarrow> codec \<Rightarrow> string \<Rightarrow> bool list \<Rightarrow> bool \<Rightarrow> bool \<Rightarrow> string option \<Rightarrow> 256 word \<Rightarrow> string \<Rightarrow>
     u64 option \<Rightarrow> bytes option \<Rightarrow> (node_error + node_sys, bytes option) outcome" where
  "run_node E C path faults dir_ok listens validator_key drawn chain_id clock disk =
     (if \<not> dir_ok then Ret (Inl NodeIo) disk
      else case kv_open C path disk faults of
        Inl e \<Rightarrow> Ret (Inl (NodeStorage e)) disk
      | Inr kv \<Rightarrow>
          (case open_node E C validator_key drawn chain_id clock (state_db_new E kv) of
             Panic db \<Rightarrow> Panic (kv_disk (db_kv db))
           | Blocked db \<Rightarrow> Blocked (kv_disk (db_kv db))
           | Spin \<Rightarrow> Spin
           | Ret (Inl e) db \<Rightarrow> Ret (Inl e) (kv_disk (db_kv db))
           | Ret (Inr _) db \<Rightarrow>
               let mp = mempool_new mempool_config_default in
               if \<not> listens then Ret (Inl NodeIo) (kv_disk (db_kv db))
               else or_panic (start_engine E validator_key db mp chain_id) (kv_disk (db_kv db)) (\<lambda>en.
                 Ret (Inr \<lparr>ns_db = db, ns_pool = mp, ns_peers = peer_manager_new, ns_chain_id = chain_id,
                       ns_sent = [], ns_engine = en, ns_metrics = metrics_new\<rparr>)
                   (kv_disk (db_kv db)))))"

text \<open>The server and the engine hold references to the same database and mempool.\<close>

definition rpc_view :: "node_sys \<Rightarrow> rpc_state" where
  "rpc_view ns =
     \<lparr>rs_db = ns_db ns, rs_pool = ns_pool ns, rs_peers = ns_peers ns, rs_chain_id = ns_chain_id ns,
      rs_sent = ns_sent ns\<rparr>"

definition rpc_back :: "node_sys \<Rightarrow> rpc_state \<Rightarrow> node_sys" where
  "rpc_back ns st = ns\<lparr>ns_db := rs_db st, ns_pool := rs_pool st, ns_peers := rs_peers st, ns_sent := rs_sent st\<rparr>"

definition serve ::
  "env \<Rightarrow> codec \<Rightarrow> 'j json_lib \<Rightarrow> 'j rpc_request \<Rightarrow> node_sys \<Rightarrow> ('j rpc_response, node_sys) outcome" where
  "serve E C J req ns =
     (case handle_rpc E C J req (rpc_view ns) of
        Ret resp st \<Rightarrow> Ret resp (rpc_back ns st)
      | Panic st \<Rightarrow> Panic (rpc_back ns st)
      | Blocked st \<Rightarrow> Blocked (rpc_back ns st)
      | Spin \<Rightarrow> Spin)"

definition engine_on :: "node_sys \<Rightarrow> engine \<Rightarrow> engine" where
  "engine_on ns en = en\<lparr>en_db := ns_db ns, en_pool := ns_pool ns\<rparr>"

definition engine_back :: "node_sys \<Rightarrow> engine option \<Rightarrow> engine \<Rightarrow> node_sys" where
  "engine_back ns alive en = ns\<lparr>ns_db := en_db en, ns_pool := en_pool en, ns_engine := alive\<rparr>"

definition new_head :: "env \<Rightarrow> 'j json_lib \<Rightarrow> u64 \<Rightarrow> hash \<Rightarrow> string" where
  "new_head E J height h =
     js_text J (js_object J [(''type'', js_str J ''newHead''), (''height'', js_uint J (unat height)),
       (''hash'', js_str J (hash_to_hex E h))])"

text \<open>
  A turn of the production loop. A panic ends the loop's task and a lock it cannot get holds
  it for ever: either way there is no engine any more, while the server goes on.
\<close>

definition engine_tick ::
  "env \<Rightarrow> codec \<Rightarrow> 'j json_lib \<Rightarrow> u64 option \<Rightarrow> node_sys \<Rightarrow> (unit, node_sys) outcome" where
  "engine_tick E C J clock ns =
     (case ns_engine ns of
        None \<Rightarrow> Ret () ns
      | Some en \<Rightarrow>
          (case node_tick E C clock (engine_on ns en) of
             Ret None en' \<Rightarrow> Ret () (engine_back ns (Some en') en')
           | Ret (Some (h, digest)) en' \<Rightarrow>
               Ret () ((engine_back ns (Some en') en')\<lparr>
                 ns_metrics := (ns_metrics ns)\<lparr>BLOCK_HEIGHT := Some h,
                   MEMPOOL_TXS := Some (word_of_nat (mempool_len (en_pool en')))\<rparr>,
                 ns_sent := ns_sent ns @ [new_head E J h digest]\<rparr>)
           | Panic en' \<Rightarrow> Panic (engine_back ns None en')
           | Blocked en' \<Rightarrow> Blocked (engine_back ns None en')
           | Spin \<Rightarrow> Spin))"

section \<open>Runs\<close>

datatype machine = Off "bytes option" | On node_sys

fun disk_of :: "machine \<Rightarrow> bytes option" where
  "disk_of (Off disk) = disk"
| "disk_of (On ns) = kv_disk (db_kv (ns_db ns))"

text \<open>What a program opening the data file now would find.\<close>

definition reopened :: "env \<Rightarrow> codec \<Rightarrow> bytes option \<Rightarrow> state_db option" where
  "reopened E C disk =
     (case kv_open C ''state.db'' disk [] of Inl _ \<Rightarrow> None | Inr kv \<Rightarrow> Some (state_db_new E kv))"

definition genesis_candidate :: "env \<Rightarrow> string option \<Rightarrow> 256 word \<Rightarrow> string \<Rightarrow> u64 option \<Rightarrow> block list" where
  "genesis_candidate E validator_key drawn chain_id clock =
     (case clock of None \<Rightarrow> [] | Some now \<Rightarrow> [to_genesis_block E (run_genesis E validator_key drawn chain_id now)])"

definition proposals :: "env \<Rightarrow> codec \<Rightarrow> u64 option \<Rightarrow> node_sys \<Rightarrow> block list" where
  "proposals E C clock ns =
     (case ns_engine ns of
        None \<Rightarrow> []
      | Some en \<Rightarrow> (case create_proposal E C clock (engine_on ns en) of Ret (Inr b) _ \<Rightarrow> [b] | _ \<Rightarrow> []))"

text \<open>
  The flag says that no call was lost (panicked or waiting for ever) since the node was
  started: a lost call can leave the pool half changed, so it is not tracked after one. A step
  carries the blocks it brings into being.
\<close>

inductive node_step ::
  "env \<Rightarrow> codec \<Rightarrow> 'j json_lib \<Rightarrow> bool \<Rightarrow> machine \<Rightarrow> block list \<Rightarrow> bool \<Rightarrow> machine \<Rightarrow> bool" for E C J where
  start: "run_node E C path faults dir_ok listens key drawn chain_id clock disk = Ret (Inr ns) disk' \<Longrightarrow>
    node_step E C J up (Off disk) (genesis_candidate E key drawn chain_id clock) True (On ns)"
| start_refused: "run_node E C path faults dir_ok listens key drawn chain_id clock disk = Ret (Inl e) disk' \<Longrightarrow>
    node_step E C J up (Off disk) (genesis_candidate E key drawn chain_id clock) True (Off disk')"
| start_panic: "run_node E C path faults dir_ok listens key drawn chain_id clock disk = Panic disk' \<Longrightarrow>
    node_step E C J up (Off disk) (genesis_candidate E key drawn chain_id clock) True (Off disk')"
| request: "serve E C J req ns = Ret resp ns' \<Longrightarrow> node_step E C J up (On ns) [] up (On ns')"
| request_lost: "serve E C J req ns \<in> {Panic ns', Blocked ns'} \<Longrightarrow> node_step E C J up (On ns) [] False (On ns')"
| tick: "engine_tick E C J clock ns = Ret () ns' \<Longrightarrow>
    node_step E C J up (On ns) (proposals E C clock ns) up (On ns')"
| tick_lost: "engine_tick E C J clock ns \<in> {Panic ns', Blocked ns'} \<Longrightarrow>
    node_step E C J up (On ns) (proposals E C clock ns) False (On ns')"
| untracked: "node_step E C J False (On ns) [] False (On (ns\<lparr>ns_pool := mp\<rparr>))"
| stop: "node_step E C J up (On ns) [] True (Off (kv_disk (db_kv (ns_db ns))))"

text \<open>A run starts with no data file; \<open>bs\<close> are the blocks that came into being in it.\<close>

inductive node_run :: "env \<Rightarrow> codec \<Rightarrow> 'j json_lib \<Rightarrow> block list \<Rightarrow> bool \<Rightarrow> machine \<Rightarrow> bool" for E C J where
  run_init: "node_run E C J [] True (Off None)"
| run_step: "node_run E C J bs up m \<Longrightarrow> node_step E C J up m new up' m' \<Longrightarrow> node_run E C J (bs @ new) up' m'"

inductive_cases node_step_OffE: "node_step E C J up (Off disk) new up' m'"
inductive_cases node_step_OnE: "node_step E C J up (On ns) new up' m'"

section \<open>How a call ends\<close>

text \<open>
  The call comes to an end: a value and a state with the first property, or a panic or a
  wait that leaves a state with the second.
\<close>

definition ends :: "('a \<Rightarrow> 's \<Rightarrow> bool) \<Rightarrow> ('s \<Rightarrow> bool) \<Rightarrow> ('a, 's) outcome \<Rightarrow> bool" where
  "ends P Q m = (case m of Ret a s \<Rightarrow> P a s | Panic s \<Rightarrow> Q s | Blocked s \<Rightarrow> Q s | Spin \<Rightarrow> False)"

lemma ends_simps [simp]:
  "ends P Q (Ret a s) = P a s" "ends P Q (Panic s) = Q s" "ends P Q (Blocked s) = Q s" "ends P Q Spin = False"
  by (simp_all add: ends_def)

lemma ends_andThen:
  "ends P Q m \<Longrightarrow> (\<And>a s. P a s \<Longrightarrow> ends R Q (k a s)) \<Longrightarrow> ends R Q (andThen m k)"
  by (cases m) simp_all

lemma ends_or_panic:
  "Q s \<Longrightarrow> (\<And>a. x = Some a \<Longrightarrow> ends P Q (k a)) \<Longrightarrow> ends P Q (or_panic x s k)"
  by (cases x) simp_all

lemma ends_mono:
  "ends P Q m \<Longrightarrow> (\<And>a s. P a s \<Longrightarrow> P' a s) \<Longrightarrow> (\<And>s. Q s \<Longrightarrow> Q' s) \<Longrightarrow> ends P' Q' m"
  by (cases m) simp_all

lemma ends_conj:
  "ends P Q m \<Longrightarrow> ends P' Q' m \<Longrightarrow> ends (\<lambda>a s. P a s \<and> P' a s) (\<lambda>s. Q s \<and> Q' s) m"
  by (cases m) simp_all

section \<open>What the chain of a database may become\<close>

text \<open>
  The blocks \<open>B\<close> of a run: written and read back they are the same, and no two of different
  heights share a hash.
\<close>

definition good_blocks :: "env \<Rightarrow> codec \<Rightarrow> block set \<Rightarrow> bool" where
  "good_blocks E C B \<longleftrightarrow> (\<forall>b \<in> B. block_dec C (block_enc C b) = Some b) \<and>
     (\<forall>a \<in> B. \<forall>b \<in> B. block_hash E a = block_hash E b \<longrightarrow> h_height (b_header a) = h_height (b_header b))"

text \<open>
  A database of a node: a chain of blocks of \<open>B\<close>, less than \<open>N\<close> high, with the blocks \<open>F\<close> in
  their places, and (when no two stored addresses share a tree key) with a tree that mirrors the accounts.
\<close>

definition node_db :: "env \<Rightarrow> codec \<Rightarrow> (u64 \<times> block) set \<Rightarrow> block set \<Rightarrow> nat \<Rightarrow> state_db \<Rightarrow> bool" where
  "node_db E C F B N db \<longleftrightarrow> chain_ok E C db \<and> (\<forall>k b. get_block_by_height C db k = Some b \<longrightarrow> b \<in> B) \<and>
     unat (get_latest_height db) < N \<and>
     (\<forall>(k, b) \<in> F. k \<le> get_latest_height db \<and> get_block_by_height C db k = Some b) \<and>
     (\<not> key_clash E db \<longrightarrow> mirrored E db)"

text \<open>A block made for the top of the chain, and one that can be put there.\<close>

definition made_for :: "env \<Rightarrow> codec \<Rightarrow> block set \<Rightarrow> nat \<Rightarrow> state_db \<Rightarrow> block \<Rightarrow> bool" where
  "made_for E C B N db b \<longleftrightarrow> b \<in> B \<and> h_height (b_header b) = get_latest_height db + 1 \<and>
     unat (get_latest_height db) + 1 < N \<and>
     (\<exists>prev. get_block_by_height C db (get_latest_height db) = Some prev \<and> h_prev_hash (b_header b) = block_hash E prev)"

definition fits :: "env \<Rightarrow> codec \<Rightarrow> block set \<Rightarrow> nat \<Rightarrow> state_db \<Rightarrow> block \<Rightarrow> bool" where
  "fits E C B N db b \<longleftrightarrow> made_for E C B N db b \<and> validate_basic E b = Inr ()"

text \<open>What the file holds: the map in memory, or the one a last block was put on.\<close>

definition durable :: "codec \<Rightarrow> state_db \<Rightarrow> bool" where
  "durable C db \<longleftrightarrow> kv_path (db_kv db) \<noteq> None \<and> kv_disk (db_kv db) = Some (data_enc C (kv_map (db_kv db)))"

definition file_behind :: "env \<Rightarrow> codec \<Rightarrow> (u64 \<times> block) set \<Rightarrow> block set \<Rightarrow> nat \<Rightarrow> state_db \<Rightarrow> bool" where
  "file_behind E C F B N db \<longleftrightarrow>
     (\<exists>db0 b ov. durable C db0 \<and> node_db E C F B N db0 \<and> fits E C B N db0 b \<and>
        kv_disk (db_kv db) = kv_disk (db_kv db0) \<and>
        db = write_all E C ov b (get_latest_height db0 + 1) db0)"

definition dead_db :: "env \<Rightarrow> codec \<Rightarrow> (u64 \<times> block) set \<Rightarrow> block set \<Rightarrow> nat \<Rightarrow> state_db \<Rightarrow> bool" where
  "dead_db E C F B N db \<longleftrightarrow> node_db E C F B N db \<and> (durable C db \<or> file_behind E C F B N db)"

lemma good_apart:
  assumes "good_blocks E C B" and "node_db E C F B N db" and "b \<in> B"
  shows "heights_apart E C db [b]"
  unfolding heights_apart_def
proof (intro allI impI, elim conjE)
  fix a c
  assume a: "a \<in> set [b] \<or> (\<exists>k. get_block_by_height C db k = Some a)" and c: "c \<in> set [b]"
    and eq: "block_hash E a = block_hash E c"
  have "a \<in> B" using a assms(2,3) by (auto simp: node_db_def)
  moreover have "c \<in> B" using c assms(3) by simp
  ultimately show "h_height (b_header a) = h_height (b_header c)"
    using assms(1) eq unfolding good_blocks_def by blast
qed

lemma node_db_extend:
  assumes "good_blocks E C B" and "node_db E C F B N db" and "fits E C B N db b" and "N \<le> 2 ^ 64"
  shows "node_db E C F B N (write_all E C ov b (get_latest_height db + 1) db)"
    and "get_latest_height (write_all E C ov b (get_latest_height db + 1) db) = get_latest_height db + 1"
    and "\<And>k. k \<le> get_latest_height db \<Longrightarrow>
      get_block_by_height C (write_all E C ov b (get_latest_height db + 1) db) k = get_block_by_height C db k"
proof -
  let ?n = "get_latest_height db" and ?db = "write_all E C ov b (get_latest_height db + 1) db"
  obtain prev where prev: "get_block_by_height C db ?n = Some prev" "h_prev_hash (b_header b) = block_hash E prev"
    and b: "b \<in> B" "h_height (b_header b) = ?n + 1" "validate_basic E b = Inr ()" "unat ?n + 1 < N"
    using assms(3) by (auto simp: fits_def made_for_def)
  have ok: "chain_ok E C db" and dec: "block_dec C (block_enc C b) = Some b" and room: "unat ?n + 1 < 2 ^ 64"
    using assms(1,2,4) b unfolding node_db_def good_blocks_def by (blast, blast, linarith)
  note ext = chain_extend [OF ok refl room b(2,3) prev dec good_apart [OF assms(1,2) b(1)] refl]
  show "get_latest_height ?db = ?n + 1" by (rule ext(2))
  show "get_block_by_height C ?db k = get_block_by_height C db k" if "k \<le> ?n" for k
    using that by (rule ext(4))
  have om: "om_ok (kv_map (db_kv db))" using ok by (simp add: chain_ok_def)
  have "c \<in> B" if "get_block_by_height C ?db k = Some c" for k c
    using that assms(2) b(1) by (auto simp: get_block_by_height_write_all [OF om dec] node_db_def split: if_splits)
  moreover have "k \<le> ?n + 1 \<and> get_block_by_height C ?db k = Some c" if "(k, c) \<in> F" for k c
  proof -
    have k: "k \<le> ?n" "get_block_by_height C db k = Some c" using assms(2) that by (auto simp: node_db_def)
    have "?n \<le> ?n + 1" using room by (simp add: word_le_nat_alt unat_plus_small)
    with k ext(4) show ?thesis by (metis order_trans)
  qed
  moreover have "\<not> key_clash E ?db \<longrightarrow> mirrored E ?db" using assms(2) mirrored_kept [OF om] by (simp add: node_db_def)
  ultimately show "node_db E C F B N ?db"
    using ext(1,2) b(4) room by (auto simp: node_db_def unat_plus_small)
qed

lemma node_db_mono: "node_db E C F B N db \<Longrightarrow> B \<subseteq> B' \<Longrightarrow> N \<le> N' \<Longrightarrow> node_db E C F B' N' db"
  unfolding node_db_def by (meson order_less_le_trans subsetD)

lemma made_for_mono: "made_for E C B N db b \<Longrightarrow> B \<subseteq> B' \<Longrightarrow> N \<le> N' \<Longrightarrow> made_for E C B' N' db b"
  unfolding made_for_def by (meson order_less_le_trans subsetD)

lemma fits_mono: "fits E C B N db b \<Longrightarrow> B \<subseteq> B' \<Longrightarrow> N \<le> N' \<Longrightarrow> fits E C B' N' db b"
  unfolding fits_def by (blast intro: made_for_mono)

lemma dead_db_mono: "dead_db E C F B N db \<Longrightarrow> B \<subseteq> B' \<Longrightarrow> N \<le> N' \<Longrightarrow> dead_db E C F B' N' db"
proof -
  assume db: "dead_db E C F B N db" and sub: "B \<subseteq> B'" "N \<le> N'"
  have "file_behind E C F B N db \<Longrightarrow> file_behind E C F B' N' db"
    unfolding file_behind_def by (blast intro: node_db_mono [OF _ sub] fits_mono [OF _ sub])
  with db node_db_mono [OF _ sub] show ?thesis unfolding dead_db_def by blast
qed

text \<open>A commit of a fitting block: reported, it is on the file; refused, the file is one behind.\<close>

lemma write_all_disk:
  assumes "kv_path (db_kv db) \<noteq> None"
  shows "kv_disk (db_kv (write_all E C l b n db)) = kv_disk (db_kv db) \<or> durable C (write_all E C l b n db)"
  using assms persist_cases [of C "(db_kv db)\<lparr>kv_map := fold apply_op
      (map (\<lambda>(k, v). Put k v) (account_puts C l @ block_entries E C b n)) (kv_map (db_kv db))\<rparr>"]
  by (auto simp: durable_def write_all_def apply_batch_def)

lemma commit_fitting:
  assumes "good_blocks E C B" and "node_db E C F B N db" and "durable C db" and "fits E C B N db b"
    and "N \<le> 2 ^ 64" and "commit_block E C b ov db = (r, db')"
  shows "dead_db E C F B N db'" and "get_latest_height db' = get_latest_height db + 1"
    and "r = Inr h \<Longrightarrow> durable C db'"
proof -
  have h: "h_height (b_header b) = get_latest_height db + 1" using assms(4) by (simp add: fits_def made_for_def)
  have db': "db' = write_all E C ov b (get_latest_height db + 1) db"
    using commit_block_Inr [OF assms(6)] by (simp add: h)
  note ext = node_db_extend [OF assms(1,2,4,5), where ov = ov, folded db']
  show "get_latest_height db' = get_latest_height db + 1" by (rule ext(2))
  have "durable C db' \<or> file_behind E C F B N db'"
    using write_all_disk [of db E C ov b "get_latest_height db + 1"] assms(2-4)
    unfolding file_behind_def db' durable_def by blast
  with ext(1) show "dead_db E C F B N db'" by (simp add: dead_db_def)
  show "durable C db'" if "r = Inr h"
  proof -
    let ?os = "fold (\<lambda>(a, acc). write_account E C a acc) ov ([], db_smt db)"
    let ?s = "(db_kv db)\<lparr>kv_map := fold apply_op (fst ?os @ block_puts E C b (h_height (b_header b))) (kv_map (db_kv db))\<rparr>"
    have p: "db_kv db' = snd (persist C ?s)" "fst (persist C ?s) = Inr ()"
      using assms(6) that
      by (auto simp: commit_block_def Let_def apply_batch_def case_prod_beta split: sum.splits)
    with persist_Inr [OF p(2)] assms(3) show ?thesis by (auto simp: durable_def)
  qed
qed

section \<open>The engine on a growing chain\<close>

text \<open>
  A running engine works on the height above the chain, on a database whose file is up to
  date, and the block it holds as proposed was made for that height.
\<close>

definition live :: "env \<Rightarrow> codec \<Rightarrow> (u64 \<times> block) set \<Rightarrow> block set \<Rightarrow> nat \<Rightarrow> engine \<Rightarrow> bool" where
  "live E C F B N en \<longleftrightarrow> node_db E C F B N (en_db en) \<and> durable C (en_db en) \<and>
     cur_height en = get_latest_height (en_db en) + 1 \<and>
     (\<forall>b. proposed_block en = Some b \<longrightarrow> made_for E C B N (en_db en) b)"

abbreviation dead :: "env \<Rightarrow> codec \<Rightarrow> (u64 \<times> block) set \<Rightarrow> block set \<Rightarrow> nat \<Rightarrow> engine \<Rightarrow> bool" where
  "dead E C F B N en \<equiv> dead_db E C F B N (en_db en)"

lemma live_dead: "live E C F B N en \<Longrightarrow> dead E C F B N en"
  by (simp add: live_def dead_db_def)

lemma live_cong:
  "live E C F B N en \<Longrightarrow> en_db en' = en_db en \<Longrightarrow> cur_height en' = cur_height en \<Longrightarrow>
     proposed_block en' = proposed_block en \<Longrightarrow> live E C F B N en'"
  by (simp add: live_def)

lemma evict_ends: "ends (\<lambda>_ _. True) (\<lambda>_. True) (evict_transaction E h mp)"
  by (auto simp: evict_transaction_eq release_bytes_def split: option.split)

lemma remove_committed_ends: "ends (\<lambda>_ _. True) (\<lambda>_. True) (remove_committed E txs mp)"
  by (induction txs arbitrary: mp) (auto intro: ends_andThen [OF evict_ends])

text \<open>Once the proposed block is committed the engine is one behind, and \<open>advance_height\<close> catches up.\<close>

definition committed :: "env \<Rightarrow> codec \<Rightarrow> (u64 \<times> block) set \<Rightarrow> block set \<Rightarrow> nat \<Rightarrow> engine \<Rightarrow> bool" where
  "committed E C F B N en \<longleftrightarrow> node_db E C F B N (en_db en) \<and> durable C (en_db en) \<and>
     cur_height en = get_latest_height (en_db en)"

lemma commit_proposed_ends:
  assumes good: "good_blocks E C B" "N \<le> 2 ^ 64" and en: "live E C F B N en"
    and b: "proposed_block en = Some b" "block_hash E b = h" "validate_basic E b = Inr ()"
  shows "ends (\<lambda>_ en'. committed E C F B N en') (dead E C F B N) (commit_proposed E C h en)"
proof -
  have parts: "node_db E C F B N (en_db en)" "durable C (en_db en)" "fits E C B N (en_db en) b"
    and height: "cur_height en = get_latest_height (en_db en) + 1"
    using en b(1,3) by (simp_all add: live_def fits_def)
  have run: "commit_proposed E C h en =
      or_panic (engine_execute_all E C (en_db en) (b_transactions b) []) en (\<lambda>ov.
        case commit_block E C b ov (en_db en) of
          (Inl e, db') \<Rightarrow> Panic (en\<lparr>en_db := db'\<rparr>)
        | (Inr _, db') \<Rightarrow>
            let en' = en\<lparr>en_db := db'\<rparr> in
            (case remove_committed E (b_transactions b) (en_pool en') of
               Ret _ mp \<Rightarrow> Ret () (en'\<lparr>en_pool := mp\<rparr>)
             | Panic mp \<Rightarrow> Panic (en'\<lparr>en_pool := mp\<rparr>)
             | Blocked mp \<Rightarrow> Blocked (en'\<lparr>en_pool := mp\<rparr>)
             | Spin \<Rightarrow> Spin))"
    using b by (simp add: commit_proposed_def)
  show ?thesis unfolding run
  proof (rule ends_or_panic)
    show "dead E C F B N en" by (rule live_dead [OF en])
    fix ov
    obtain r db' where c: "commit_block E C b ov (en_db en) = (r, db')" by fastforce
    note commit = commit_fitting [OF good(1) parts good(2) c]
    show "ends (\<lambda>_ en'. committed E C F B N en') (dead E C F B N) (case commit_block E C b ov (en_db en) of
          (Inl e, db') \<Rightarrow> Panic (en\<lparr>en_db := db'\<rparr>)
        | (Inr _, db') \<Rightarrow>
            let en' = en\<lparr>en_db := db'\<rparr> in
            (case remove_committed E (b_transactions b) (en_pool en') of
               Ret _ mp \<Rightarrow> Ret () (en'\<lparr>en_pool := mp\<rparr>)
             | Panic mp \<Rightarrow> Panic (en'\<lparr>en_pool := mp\<rparr>)
             | Blocked mp \<Rightarrow> Blocked (en'\<lparr>en_pool := mp\<rparr>)
             | Spin \<Rightarrow> Spin))"
    proof (cases r)
      case (Inl e)
      with commit(1) show ?thesis by (simp add: c)
    next
      case (Inr x)
      have "committed E C F B N (en\<lparr>en_db := db', en_pool := mp\<rparr>)" for mp
        using commit(1,2) commit(3) [OF Inr] height by (simp add: committed_def dead_db_def)
      then show ?thesis
        using commit(1) remove_committed_ends [of E "b_transactions b" "en_pool en"]
        by (cases "remove_committed E (b_transactions b) (en_pool en)") (simp_all add: c Inr)
    qed
  qed
qed

lemma committed_live:
  assumes "committed E C F B N en" and "add_ck p (cur_height en) 1 = Some n" and "en_db en' = en_db en"
    and "cur_height en' = n" and "proposed_block en' = None"
  shows "live E C F B N en'"
  using assms(1,3-5) add_ck_SomeD [OF assms(2)] by (simp add: committed_def live_def)

lemma advance_height_ends:
  assumes "committed E C F B N en"
  shows "ends (\<lambda>_ en'. live E C F B N en' \<and> en_step en' = NewRound) (dead E C F B N) (advance_height E held qc en)"
proof -
  have d: "dead_db E C F B N (en_db en)" using assms by (simp add: committed_def dead_db_def)
  show ?thesis
    unfolding advance_height_def Let_def
  proof (rule ends_or_panic)
    fix n assume n: "add_ck (prof E) (cur_height (en\<lparr>last_qc := Some qc\<rparr>)) 1 = Some n"
    have "live E C F B N (en\<lparr>last_qc := Some qc, cur_height := n, cur_round := 0, en_step := NewRound,
        proposed_block := None, prevotes := [], precommits := []\<rparr>)"
      using committed_live [OF assms, of "prof E" n] n by simp
    then show "ends (\<lambda>_ en'. live E C F B N en' \<and> en_step en' = NewRound) (dead E C F B N)
       (if held \<noteq> [] \<and> \<not> locks E held WriteGuard
        then Blocked (en\<lparr>last_qc := Some qc, cur_height := n, cur_round := 0, en_step := NewRound, proposed_block := None\<rparr>)
        else if \<not> locks E [WriteGuard] WriteGuard
        then Blocked (en\<lparr>last_qc := Some qc, cur_height := n, cur_round := 0, en_step := NewRound, proposed_block := None, prevotes := []\<rparr>)
        else Ret (Some qc) (en\<lparr>last_qc := Some qc, cur_height := n, cur_round := 0, en_step := NewRound,
            proposed_block := None, prevotes := [], precommits := []\<rparr>))"
      using d by simp
  qed (simp add: d)
qed

text \<open>A vote for the block the engine holds as proposed, which is valid.\<close>

definition votes_proposed :: "env \<Rightarrow> vote \<Rightarrow> engine \<Rightarrow> bool" where
  "votes_proposed E v en \<longleftrightarrow> 
     (\<exists>b. proposed_block en = Some b \<and> block_hash E b = v_block_hash v \<and> validate_basic E b = Inr ())"

lemma handle_precommit_ends:
  assumes good: "good_blocks E C B" "N \<le> 2 ^ 64" and en: "live E C F B N en" and v: "votes_proposed E v en"
  shows "ends (\<lambda>_ en'. live E C F B N en' \<and> (en_step en' = PreVote \<longrightarrow> en_step en = PreVote \<and> proposed_block en' = proposed_block en))
    (dead E C F B N) (handle_precommit E C held v en)"
proof -
  let ?en1 = "en\<lparr>precommits := record_vote v (precommits en)\<rparr>"
  have l1: "live E C F B N ?en1" using live_cong [OF en] by simp
  have l2: "live E C F B N (?en1\<lparr>en_step := Commit\<rparr>)" using live_cong [OF en] by simp
  obtain b where b: "proposed_block en = Some b" "block_hash E b = v_block_hash v" "validate_basic E b = Inr ()"
    using v by (auto simp: votes_proposed_def)
  then have "proposed_block (?en1\<lparr>en_step := Commit\<rparr>) = Some b" by simp
  note commit = commit_proposed_ends [OF good l2 this b(2,3)]
  have adv: "ends (\<lambda>_ en'. live E C F B N en' \<and> (en_step en' = PreVote \<longrightarrow> en_step en = PreVote \<and> proposed_block en' = proposed_block en))
      (dead E C F B N) (advance_height E held qc en3)" if "committed E C F B N en3" for qc en3
    using advance_height_ends [OF that] by (rule ends_mono) auto
  show ?thesis
    unfolding handle_precommit_def Let_def
    by (intro ends_or_panic live_dead [OF l1]) (auto intro: ends_andThen [OF commit] adv l1)
qed

lemma handle_prevote_ends:
  assumes good: "good_blocks E C B" "N \<le> 2 ^ 64" and en: "live E C F B N en"
    and v: "en_step en = PreVote \<longrightarrow> votes_proposed E v en"
  shows "ends (\<lambda>_ en'. live E C F B N en' \<and> (en_step en' = PreVote \<longrightarrow> en_step en = PreVote \<and> proposed_block en' = proposed_block en))
    (dead E C F B N) (handle_prevote E C v en)"
proof -
  let ?en1 = "en\<lparr>prevotes := record_vote v (prevotes en)\<rparr>"
  let ?en2 = "?en1\<lparr>en_step := PreCommit\<rparr>"
  let ?pc = "vote_new_signed E (v_block_hash v) (cur_height ?en2) (cur_round ?en2) PreCommitType (en_keypair ?en2)"
  have l1: "live E C F B N ?en1" using live_cong [OF en] by simp
  have l2: "live E C F B N ?en2" using live_cong [OF en] by simp
  have "ends (\<lambda>_ en'. live E C F B N en' \<and> (en_step en' = PreVote \<longrightarrow> en_step en = PreVote \<and> proposed_block en' = proposed_block en))
      (dead E C F B N) (andThen (handle_precommit E C [WriteGuard] ?pc ?en2) (\<lambda>_ en3. Ret (Some ?pc) en3))"
    if "en_step en = PreVote"
  proof -
    have "votes_proposed E ?pc ?en2"
      using v that by (simp add: votes_proposed_def vote_new_signed_def Let_def)
    from handle_precommit_ends [OF good l2 this] show ?thesis
      by (rule ends_andThen) auto
  qed
  then show ?thesis
    unfolding handle_prevote_def Let_def
    by (intro ends_or_panic live_dead [OF l1]) (auto intro: l1)
qed

lemma handle_proposal_ends:
  assumes good: "good_blocks E C B" "N \<le> 2 ^ 64" and en: "live E C F B N en" and b: "made_for E C B N (en_db en) b"
  shows "ends (\<lambda>r en'. live E C F B N en' \<and> (\<forall>v. r = Inr v \<longrightarrow> en_step en' = PreVote \<longrightarrow> votes_proposed E v en'))
    (dead E C F B N) (handle_proposal E C b en)"
proof (cases "h_height (b_header b) = cur_height en \<and> h_round (b_header b) = cur_round en \<and> validate_basic E b = Inr ()")
  case True
  let ?en1 = "en\<lparr>proposed_block := Some b, en_step := PreVote\<rparr>"
  let ?v = "vote_new_signed E (block_hash E b) (cur_height en) (cur_round en) PreVoteType (en_keypair ?en1)"
  have l1: "live E C F B N ?en1" using en b by (simp add: live_def)
  have "ends (\<lambda>r en'. live E C F B N en' \<and> (\<forall>v. r = Inr v \<longrightarrow> en_step en' = PreVote \<longrightarrow> votes_proposed E v en'))
      (dead E C F B N) (andThen (handle_prevote E C ?v ?en1) (\<lambda>_ en2. Ret (Inr ?v) en2))"
    by (rule ends_andThen [OF handle_prevote_ends [OF good l1]]) (auto simp: votes_proposed_def vote_new_signed_def Let_def True)
  with True b show ?thesis by (simp add: handle_proposal_def Let_def)
next
  case False
  then have "handle_proposal E C b en = Ret (Inl InvalidProposal) en"
    by (cases "validate_basic E b") (auto simp: handle_proposal_def)
  with en show ?thesis by simp
qed

section \<open>A tick\<close>

definition made :: "(consensus_error + block, 's) outcome \<Rightarrow> block list" where
  "made m = (case m of Ret (Inr b) _ \<Rightarrow> [b] | _ \<Rightarrow> [])"

lemma made_simps [simp]:
  "made (Ret (Inr b) s) = [b]" "made (Ret (Inl e) s) = []" "made (Panic s) = []" "made (Blocked s) = []" "made Spin = []"
  by (simp_all add: made_def)

lemma create_proposal_same: "ends (\<lambda>_ _. True) (\<lambda>s. s = en) (create_proposal E C now en)"
proof -
  have fin: "ends (\<lambda>_ _. True) (\<lambda>s. s = en) (finish_proposal E b en)" for b
    by (simp add: finish_proposal_def Let_def split: sum.split)
  have rest: "ends (\<lambda>_ _. True) (\<lambda>s. s = en) (case p of None \<Rightarrow> Ret (Inl e) en | Some v \<Rightarrow> if c v then Ret (Inl e) en else k)"
    if "ends (\<lambda>_ _. True) (\<lambda>s. s = en) k" for p e c and k :: "(consensus_error + block, engine) outcome"
    using that by (simp split: option.split)
  show ?thesis
    unfolding create_proposal_def Let_def by (intro ends_or_panic rest refl fin)
qed

lemma create_proposal_ends:
  assumes en: "live E C F B N en" and B': "B' = B \<union> set (made (create_proposal E C now en))"
    and N': "N' = N + length (made (create_proposal E C now en))"
  shows "ends (\<lambda>r en'. live E C F B' N' en' \<and> (\<forall>b. r = Inr b \<longrightarrow> made_for E C B' N' (en_db en') b))
    (dead E C F B' N') (create_proposal E C now en)"
proof -
  have db: "node_db E C F B N (en_db en)" "durable C (en_db en)" "cur_height en = get_latest_height (en_db en) + 1"
    using en by (simp_all add: live_def)
  show ?thesis
  proof (cases "create_proposal E C now en")
    case (Ret r en')
    from create_proposal_Ret [OF Ret] show ?thesis
    proof cases
      case (1 e)
      with Ret en show ?thesis by (simp add: B' N')
    next
      case (2 proposer parent prev_block time h b)
      have B1: "B' = insert b B" "N' = N + 1" using Ret 2(8) by (simp_all add: B' N')
      have "parent = get_latest_height (en_db en)"
        using 2(3) db(3) by (simp add: sub_ck_def split: if_splits)
      with 2(4,6) db have "made_for E C B' N' (en_db en) b"
        by (auto simp: made_for_def B1 2(7) header_sign_Inr node_db_def)
      moreover have "node_db E C F B' N' (en_db en)" by (rule node_db_mono [OF db(1)]) (auto simp: B1)
      ultimately show ?thesis using db by (simp add: Ret 2(8,9) live_def)
    qed
  qed (use create_proposal_same [of en E C now] live_dead [OF en] B' N' in simp_all)
qed

lemma live_mono: "live E C F B N en \<Longrightarrow> B \<subseteq> B' \<Longrightarrow> N \<le> N' \<Longrightarrow> live E C F B' N' en"
  unfolding live_def by (blast intro: node_db_mono made_for_mono)

lemma node_tick_ends:
  assumes "good_blocks E C B'" and "N' \<le> 2 ^ 64" and "live E C F B N en"
    and "B' = B \<union> set (made (create_proposal E C now en))" and "N' = N + length (made (create_proposal E C now en))"
  shows "ends (\<lambda>_. live E C F B' N') (dead E C F B' N') (node_tick E C now en)"
  unfolding node_tick_def
proof (rule ends_andThen [OF create_proposal_ends [OF assms(3-5)]])
  fix r en1
  assume 1: "live E C F B' N' en1 \<and> (\<forall>b. r = Inr b \<longrightarrow> made_for E C B' N' (en_db en1) b)"
  show "ends (\<lambda>_. live E C F B' N') (dead E C F B' N') (case r of Inl _ \<Rightarrow> Ret None en1 | Inr proposal \<Rightarrow>
    andThen (handle_proposal E C proposal en1) (\<lambda>r en. case r of Inl _ \<Rightarrow> Ret None en | Inr prevote \<Rightarrow>
    andThen (handle_prevote E C prevote en) (\<lambda>r en. case r of None \<Rightarrow> Ret None en | Some precommit \<Rightarrow>
    andThen (handle_precommit E C [] precommit en) (\<lambda>r en. case r of None \<Rightarrow> Ret None en | Some qc \<Rightarrow>
      Ret (Some (qc_height qc, qc_block_hash qc)) en))))"
  proof (cases r)
    case (Inr b)
    then have fit: "made_for E C B' N' (en_db en1) b" and l1: "live E C F B' N' en1" using 1 by simp_all
    note proposal = handle_proposal_ends [OF assms(1,2) l1 fit]
    show ?thesis
    proof (cases "handle_proposal E C b en1")
      case (Ret r2 en2)
      show ?thesis
      proof (cases r2)
        case (Inl e)
        with Ret Inr proposal show ?thesis by simp
      next
        case v: (Inr v)
        have l2: "live E C F B' N' en2" and vote: "en_step en2 = PreVote \<longrightarrow> votes_proposed E v en2"
          using proposal by (simp_all add: Ret v)
        have again: "q = None" if "handle_prevote E C v en2 = Ret q en3" for q en3
          using prevote_again [OF Ret [unfolded v] that] .
        show ?thesis
          using handle_prevote_ends [OF assms(1,2) l2 vote] again
          by (cases "handle_prevote E C v en2") (simp_all add: Inr Ret v)
      qed
    qed (use Inr proposal in simp_all)
  qed (use 1 in simp)
qed

section \<open>Requests\<close>

text \<open>The states a call may leave behind, whichever way it ends.\<close>

definition leaves :: "('a, 's) outcome \<Rightarrow> 's \<Rightarrow> bool" where
  "leaves m s \<longleftrightarrow> m = Panic s \<or> m = Blocked s \<or> (\<exists>a. m = Ret a s)"

lemma leaves_simps [simp]:
  "leaves (Ret a s) t = (s = t)" "leaves (Panic s) t = (s = t)" "leaves (Blocked s) t = (s = t)" "\<not> leaves Spin t"
  by (auto simp: leaves_def)

lemma leaves_or_panic: "leaves (or_panic x s k) t \<Longrightarrow> (\<And>a. x = Some a \<Longrightarrow> leaves (k a) t \<Longrightarrow> t = s) \<Longrightarrow> t = s"
  by (cases x) auto

lemma read_method_leaves:
  assumes "leaves (handle_rpc E C J req st) st'" and "rq_method req \<noteq> ''sendTransaction''"
  shows "st' = st"
proof -
  consider "leaves (get_block_height J req st) st'" | "leaves (rpc_block_by_height C J req st) st'"
    | "leaves (rpc_block_by_hash E C J req st) st'" | "leaves (rpc_balance E C J req st) st'"
    | "leaves (rpc_account E C J req st) st'" | "leaves (rpc_validators E C J req st) st'"
    | "leaves (rpc_node_info E J req st) st'"
    | c msg where "leaves (Ret (rpc_failure (rq_id req) c msg) st) st'"
    using assms unfolding handle_rpc_def Let_def by (auto split: if_splits)
  then show ?thesis
    by cases (auto simp: get_block_height_def rpc_block_by_height_def rpc_block_by_hash_def rpc_balance_def
      rpc_account_def rpc_validators_def rpc_node_info_def dest!: leaves_or_panic split: option.split_asm)
qed

lemma send_transaction_leaves:
  assumes "leaves (send_transaction E C J req st) st'"
  shows "rs_db st' = rs_db st \<and> rs_peers st' = rs_peers st \<and> rs_chain_id st' = rs_chain_id st"
proof (cases "read_transaction J (rq_params req)")
  case (Inr tx)
  with assms show ?thesis
    by (cases "add_transaction E C (rs_db st) tx (rs_pool st)") (auto simp: send_transaction_def split: sum.split_asm)
qed (use assms in \<open>auto simp: send_transaction_def\<close>)

lemma handle_rpc_leaves:
  assumes "leaves (handle_rpc E C J req st) st'"
  shows "rs_db st' = rs_db st \<and> rs_peers st' = rs_peers st \<and> rs_chain_id st' = rs_chain_id st"
proof (cases "rq_method req = ''sendTransaction''")
  case True
  with assms show ?thesis by (intro send_transaction_leaves) (simp add: handle_rpc_def)
qed (use read_method_leaves [OF assms] in simp)

text \<open>A request changes neither the database nor the engine.\<close>

lemma serve_leaves:
  assumes "leaves (serve E C J req ns) ns'"
  shows "ns_db ns' = ns_db ns \<and> ns_engine ns' = ns_engine ns"
proof -
  obtain st where "leaves (handle_rpc E C J req (rpc_view ns)) st" "ns' = rpc_back ns st"
    using assms by (cases "handle_rpc E C J req (rpc_view ns)") (auto simp: serve_def)
  with handle_rpc_leaves show ?thesis by (fastforce simp: rpc_back_def rpc_view_def)
qed

section \<open>The invariant of runs\<close>

definition machine_ok :: "env \<Rightarrow> codec \<Rightarrow> (u64 \<times> block) set \<Rightarrow> block set \<Rightarrow> nat \<Rightarrow> machine \<Rightarrow> bool" where
  "machine_ok E C F B N m =
     (case m of
        Off disk \<Rightarrow> disk = None \<and> F = {} \<or> (\<exists>db. durable C db \<and> node_db E C F B N db \<and> kv_disk (db_kv db) = disk)
      | On ns \<Rightarrow> dead_db E C F B N (ns_db ns) \<and>
          (\<forall>en. ns_engine ns = Some en \<longrightarrow> live E C F B N (engine_on ns en)))"

lemma machine_ok_new [simp]: "machine_ok E C F B N (Off None) \<longleftrightarrow> F = {}"
  by (auto simp: machine_ok_def durable_def)

lemma dead_db_file:
  assumes "dead_db E C F B N db"
  obtains db0 where "durable C db0" "node_db E C F B N db0" "kv_disk (db_kv db0) = kv_disk (db_kv db)"
    "kv_map (db_kv db) = kv_map (db_kv db0) \<or>
     (\<exists>b ov. fits E C B N db0 b \<and> db = write_all E C ov b (get_latest_height db0 + 1) db0)"
  using assms unfolding dead_db_def file_behind_def by metis

lemma node_db_reopened:
  assumes "node_db E C F B N db" and "kv_map kv = kv_map (db_kv db)"
  shows "node_db E C F B N (state_db_new E kv)"
proof -
  let ?db = "state_db_new E kv"
  have kv: "db_kv ?db = kv" by (simp add: state_db_new_def)
  have get: "kv_get (db_kv ?db) = kv_get (db_kv db)" using assms(2) by (simp add: fun_eq_iff kv_get_def kv)
  have latest: "get_latest_height ?db = get_latest_height db" by (simp add: get_latest_height_def get)
  have block: "get_block_by_height C ?db k = get_block_by_height C db k" for k
    unfolding get_block_by_height_def get ..
  have om: "om_ok (kv_map (db_kv ?db)) = om_ok (kv_map (db_kv db))" by (simp add: kv assms(2))
  have chain: "chain_ok E C ?db = chain_ok E C db"
    unfolding chain_ok_def chain_to_def latest block get om ..
  have "om_ok (kv_map kv)" using assms by (simp add: node_db_def chain_ok_def)
  then have "\<not> key_clash E ?db \<longrightarrow> mirrored E ?db" by (rule mirrored_opened)
  with assms(1) show ?thesis unfolding node_db_def latest block chain by blast
qed

lemma apply_genesis_batch:
  "\<exists>ops. db_kv (snd (apply_genesis E C g db)) = snd (apply_batch C ops (db_kv db)) \<and>
     (case fst (apply_batch C ops (db_kv db)) of
        Inl e \<Rightarrow> fst (apply_genesis E C g db) = Inl e
      | Inr _ \<Rightarrow> \<exists>h. fst (apply_genesis E C g db) = Inr h)"
  unfolding apply_genesis_def Let_def case_prod_beta snd_conv fst_conv state_db.select_convs
  by (intro exI conjI, rule refl) (simp split: sum.split)

lemma genesis_node_db:
  assumes db: "kv_map (db_kv db) = []" "kv_path (db_kv db) \<noteq> None" and fresh: "\<not> key_clash E db \<longrightarrow> mirrored E db"
    and dec: "block_dec C (block_enc C (to_genesis_block E g)) = Some (to_genesis_block E g)"
    and run: "apply_genesis E C g db = (r, db')" and B: "to_genesis_block E g \<in> B" "0 < N"
  shows "node_db E C {} B N db'" and "r = Inr h \<Longrightarrow> durable C db'"
    and "r = Inl e \<Longrightarrow> kv_disk (db_kv db') = kv_disk (db_kv db)"
proof -
  note empty = empty_db_reads [OF db(1)]
  let ?g = "to_genesis_block E g"
  have db': "db' = write_all E C (genesis_writes C g db) ?g 0 db"
    using apply_genesis_write_all [of E C g db] run by simp
  have h0: "h_height (b_header ?g) = 0" by (simp add: to_genesis_block_def)
  have latest: "get_latest_height db' = 0" by (simp add: db' get_latest_height_write_all empty)
  have none: "kv_get (db_kv db) k = None" for k using db(1) by (simp add: kv_get_def)
  have get: "get_block_by_height C db' k = (if k = 0 then Some ?g else None)" for k
    by (simp add: db' get_block_by_height_write_all empty dec none)
  have "kv_get (db_kv db') (height_key 0) = Some (hash_bytes_of (block_hash E ?g))"
    by (simp add: db' kv_get_write_block empty)
  then have "chain_ok E C db'"
    using get h0 by (simp add: chain_ok_def chain_to_def latest) (simp add: db' om_ok_write_all empty)
  moreover have "\<not> key_clash E db' \<longrightarrow> mirrored E db'" unfolding db' by (rule mirrored_kept [OF empty(1) fresh])
  ultimately show "node_db E C {} B N db'"
    using B get by (auto simp: node_db_def latest split: if_splits)
  obtain ops where p: "db_kv db' = snd (apply_batch C ops (db_kv db))"
    "case fst (apply_batch C ops (db_kv db)) of Inl e \<Rightarrow> r = Inl e | Inr _ \<Rightarrow> \<exists>h. r = Inr h"
    using apply_genesis_batch [of E C g db] unfolding run fst_conv snd_conv by blast
  show "durable C db'" if "r = Inr h"
    using p that db(2) persist_Inr [of C "(db_kv db)\<lparr>kv_map := fold apply_op ops (kv_map (db_kv db))\<rparr>" "()"]
    by (auto simp: durable_def apply_batch_def split: sum.splits)
  show "kv_disk (db_kv db') = kv_disk (db_kv db)" if "r = Inl e"
    using p that by (auto simp: apply_batch_def persist_def split: sum.splits option.splits list.splits bool.splits)
qed

text \<open>Opening the file of a node that was stopped gives its chain back, and no genesis.\<close>

lemma open_stopped:
  assumes laws: "data_codec_laws C" and db: "durable C db" "node_db E C F B N db" "kv_disk (db_kv db) = disk"
    and opened: "kv_open C path disk faults = Inr kv"
  shows "kv_map kv = kv_map (db_kv db)" and "node_db E C F B N (state_db_new E kv)" and "durable C (state_db_new E kv)"
    and "kv_disk kv = disk" and "open_node E C key drawn chain_id clock (state_db_new E kv) = Ret (Inr ()) (state_db_new E kv)"
proof -
  have om: "om_ok (kv_map (db_kv db))" using db(2) by (simp add: node_db_def chain_ok_def)
  with laws have "data_dec C (data_enc C (kv_map (db_kv db))) = Some (kv_map (db_kv db))"
    "data_enc C (kv_map (db_kv db)) \<noteq> []" by (simp_all add: data_codec_laws_def)
  with opened db(1,3) have kv: "kv = \<lparr>kv_map = kv_map (db_kv db), kv_path = Some path, kv_disk = disk, kv_faults = faults\<rparr>"
    by (auto simp: kv_open_def durable_def)
  let ?db = "state_db_new E kv"
  have new: "db_kv (state_db_new E k) = k" for k by (simp add: state_db_new_def)
  show "kv_map kv = kv_map (db_kv db)" "kv_disk kv = disk" by (simp_all add: kv)
  show "durable C ?db" using db(1,3) by (auto simp: durable_def new kv)
  show ok: "node_db E C F B N ?db" using db(2) by (rule node_db_reopened) (simp add: kv)
  have "\<exists>g. get_block_by_height C ?db (word_of_nat 0) = Some g"
    using ok unfolding node_db_def chain_ok_def chain_to_def by blast
  then show "open_node E C key drawn chain_id clock ?db = Ret (Inr ()) ?db"
    by (auto simp: open_node_def)
qed

lemma start_engine_fresh:
  assumes "start_engine E key db mp chain_id = Some (Some en)"
  shows "cur_height en = get_latest_height db + 1" and "en_db en = db" and "en_pool en = mp"
    and "proposed_block en = None"
proof -
  obtain kp where "engine_new E kp db mp chain_id = Some en"
    using assms by (auto simp: start_engine_def split: option.splits)
  then show "cur_height en = get_latest_height db + 1" "en_db en = db" "en_pool en = mp" "proposed_block en = None"
    by (auto simp: engine_new_def dest: add_ck_SomeD)
qed

text \<open>Opening a file that was never written runs the genesis, or leaves no file.\<close>

lemma open_new:
  assumes "kv_open C path None faults = Inr kv" and "good_blocks E C B" and "N \<le> 2 ^ 64"
    and "set (genesis_candidate E key drawn chain_id clock) \<subseteq> B"
    and "length (genesis_candidate E key drawn chain_id clock) \<le> N"
  shows "ends (\<lambda>r db. case r of Inl _ \<Rightarrow> kv_disk (db_kv db) = None | Inr _ \<Rightarrow> node_db E C {} B N db \<and> durable C db)
    (\<lambda>db. kv_disk (db_kv db) = None) (open_node E C key drawn chain_id clock (state_db_new E kv))"
proof -
  have kv: "kv = \<lparr>kv_map = [], kv_path = Some path, kv_disk = None, kv_faults = faults\<rparr>"
    using assms(1) by (simp add: kv_open_def)
  let ?db = "state_db_new E kv"
  have new: "db_kv (state_db_new E k) = k" for k by (simp add: state_db_new_def)
  then have db: "kv_map (db_kv ?db) = []" "kv_path (db_kv ?db) \<noteq> None" "kv_disk (db_kv ?db) = None"
    by (simp_all add: kv)
  show ?thesis
  proof (cases clock)
    case None
    with empty_db_reads [OF db(1)] db(3) show ?thesis by (simp add: open_node_def)
  next
    case (Some now)
    let ?g = "run_genesis E key drawn chain_id now"
    have g: "to_genesis_block E ?g \<in> B" "0 < N" using assms(4,5) Some by (simp_all add: genesis_candidate_def)
    then have dec: "block_dec C (block_enc C (to_genesis_block E ?g)) = Some (to_genesis_block E ?g)"
      using assms(2) by (simp add: good_blocks_def)
    obtain r db' where run: "apply_genesis E C ?g ?db = (r, db')" by fastforce
    have "\<not> key_clash E ?db \<longrightarrow> mirrored E ?db" by (rule mirrored_opened) (simp add: kv om_ok_def)
    note gen = genesis_node_db [OF db(1,2) this dec run g]
    have "open_node E C key drawn chain_id clock ?db =
        (case r of Inl e \<Rightarrow> Ret (Inl (NodeStorage e)) db' | Inr _ \<Rightarrow> Ret (Inr ()) db')"
      using empty_db_reads [OF db(1)] by (simp add: open_node_def Some run)
    then show ?thesis using gen db(3) by (cases r) simp_all
  qed
qed

lemma run_node_ends:
  assumes laws: "data_codec_laws C" and good: "good_blocks E C B'" "N' \<le> 2 ^ 64"
    and disk: "machine_ok E C F B N (Off disk)" and sub: "B \<subseteq> B'" "N \<le> N'"
    and new: "set (genesis_candidate E key drawn chain_id clock) \<subseteq> B'"
      "length (genesis_candidate E key drawn chain_id clock) \<le> N'"
    and run: "m = run_node E C path faults dir_ok listens key drawn chain_id clock disk"
  shows "ends (\<lambda>r d. case r of Inl _ \<Rightarrow> machine_ok E C F B' N' (Off d) | Inr ns \<Rightarrow> machine_ok E C F B' N' (On ns))
    (\<lambda>d. machine_ok E C F B' N' (Off d)) m"
proof -
  have old: "machine_ok E C F B' N' (Off disk)"
    using disk by (auto simp: machine_ok_def intro: node_db_mono [OF _ sub])
  have off: "machine_ok E C F B' N' (Off (kv_disk (db_kv db)))"
    if "kv_disk (db_kv db) = None \<and> F = {} \<or> node_db E C F B' N' db \<and> durable C db" for db
    using that by (auto simp: machine_ok_def)
  have opened: "ends (\<lambda>r db. case r of Inl _ \<Rightarrow> machine_ok E C F B' N' (Off (kv_disk (db_kv db)))
        | Inr _ \<Rightarrow> node_db E C F B' N' db \<and> durable C db)
      (\<lambda>db. machine_ok E C F B' N' (Off (kv_disk (db_kv db)))) (open_node E C key drawn chain_id clock (state_db_new E kv))"
    if kv: "kv_open C path disk faults = Inr kv" for kv
  proof (cases disk)
    case None
    then have F: "F = {}" using old by simp
    show ?thesis unfolding F
      by (rule ends_mono [OF open_new [OF kv [unfolded None] good new]]) (auto intro: off [unfolded F] split: sum.splits)
  next
    case (Some bs)
    with old obtain db where db: "durable C db" "node_db E C F B' N' db" "kv_disk (db_kv db) = disk"
      by (auto simp: machine_ok_def)
    note stopped = open_stopped [OF laws db kv]
    from stopped(2,3) show ?thesis by (simp add: stopped(5))
  qed
  have started: "ends (\<lambda>r d. case r of Inl _ \<Rightarrow> machine_ok E C F B' N' (Off d) | Inr ns \<Rightarrow> machine_ok E C F B' N' (On ns))
      (\<lambda>d. machine_ok E C F B' N' (Off d))
      (or_panic (start_engine E key db mp chain_id) (kv_disk (db_kv db)) (\<lambda>en.
         Ret (Inr \<lparr>ns_db = db, ns_pool = mp, ns_peers = peer_manager_new, ns_chain_id = chain_id,
               ns_sent = [], ns_engine = en, ns_metrics = metrics_new\<rparr>) (kv_disk (db_kv db))))"
    if db: "node_db E C F B' N' db \<and> durable C db" for db mp
  proof (rule ends_or_panic)
    fix en assume en: "start_engine E key db mp chain_id = Some en"
    have "live E C F B' N' (engine_on ns e)" if "en = Some e" "ns_db ns = db" for e ns
      using db start_engine_fresh [OF en [unfolded that(1)]] that(2) by (simp add: live_def engine_on_def)
    then show "ends (\<lambda>r d. case r of Inl _ \<Rightarrow> machine_ok E C F B' N' (Off d) | Inr ns \<Rightarrow> machine_ok E C F B' N' (On ns))
      (\<lambda>d. machine_ok E C F B' N' (Off d)) (Ret (Inr \<lparr>ns_db = db, ns_pool = mp, ns_peers = peer_manager_new,
         ns_chain_id = chain_id, ns_sent = [], ns_engine = en, ns_metrics = metrics_new\<rparr>) (kv_disk (db_kv db)))"
      using db by (simp add: machine_ok_def dead_db_def)
  qed (rule off, use db in simp)
  show ?thesis
  proof (cases "kv_open C path disk faults")
    case (Inr kv)
    from opened [OF this] show ?thesis
      using started off old unfolding run run_node_def Inr
      by (cases "open_node E C key drawn chain_id clock (state_db_new E kv)")
         (auto simp: Let_def split: sum.split_asm)
  qed (use old in \<open>simp add: run run_node_def\<close>)
qed

lemma engine_tick_leaves:
  assumes good: "good_blocks E C B'" "N' \<le> 2 ^ 64" and ok: "machine_ok E C F B N (On ns)"
    and B': "B' = B \<union> set (proposals E C clock ns)" and N': "N' = N + length (proposals E C clock ns)"
    and "leaves (engine_tick E C J clock ns) ns'"
  shows "machine_ok E C F B' N' (On ns')"
proof (cases "ns_engine ns")
  case None
  with assms show ?thesis by (simp add: engine_tick_def proposals_def)
next
  case (Some en)
  then have l: "live E C F B N (engine_on ns en)" using ok by (simp add: machine_ok_def)
  have p: "proposals E C clock ns = made (create_proposal E C clock (engine_on ns en))"
    by (simp add: proposals_def Some made_def)
  have same: "engine_on (engine_back ns x en') en' = en'" for x en'
    by (simp add: engine_on_def engine_back_def)
  have "live E C F B' N' (engine_on (ns'\<lparr>ns_db := en_db en', ns_pool := en_pool en'\<rparr>) en')" if "live E C F B' N' en'" for ns' en'
    using that by (simp add: engine_on_def)
  with node_tick_ends [OF good l, of clock] assms(6) show ?thesis
    unfolding B' N' p
    by (cases "node_tick E C clock (engine_on ns en)")
       (auto simp: engine_tick_def Some machine_ok_def engine_back_def engine_on_def dead_db_def live_def split: option.split_asm)
qed

lemma machine_ok_mono:
  "machine_ok E C F B N m \<Longrightarrow> B \<subseteq> B' \<Longrightarrow> N \<le> N' \<Longrightarrow> machine_ok E C F B' N' m"
  unfolding machine_ok_def
  by (cases m) (auto intro: node_db_mono dead_db_mono live_mono)

lemma node_step_keeps:
  assumes step: "node_step E C J up m new up' m'" and laws: "data_codec_laws C"
    and good: "good_blocks E C (B \<union> set new)" "N + length new \<le> 2 ^ 64" and ok: "machine_ok E C F B N m"
  shows "machine_ok E C F (B \<union> set new) (N + length new) m'"
  using step
proof cases
  case (start path faults dir_ok listens key drawn chain_id clock disk ns disk')
  from run_node_ends [OF laws good ok [unfolded start(1)] _ _ _ _ start(5) [symmetric]] show ?thesis
    by (simp add: start)
next
  case (start_refused path faults dir_ok listens key drawn chain_id clock disk e disk')
  from run_node_ends [OF laws good ok [unfolded start_refused(1)] _ _ _ _ start_refused(5) [symmetric]] show ?thesis
    by (simp add: start_refused)
next
  case (start_panic path faults dir_ok listens key drawn chain_id clock disk disk')
  from run_node_ends [OF laws good ok [unfolded start_panic(1)] _ _ _ _ start_panic(5) [symmetric]] show ?thesis
    by (simp add: start_panic)
next
  case (request req ns resp ns')
  then have "leaves (serve E C J req ns) ns'" by simp
  from serve_leaves [OF this] ok show ?thesis by (auto simp: request machine_ok_def live_def engine_on_def)
next
  case (request_lost req ns ns')
  then have "leaves (serve E C J req ns) ns'" by auto
  from serve_leaves [OF this] ok show ?thesis by (auto simp: request_lost machine_ok_def live_def engine_on_def)
next
  case (tick clock ns ns')
  then have "leaves (engine_tick E C J clock ns) ns'" by simp
  from engine_tick_leaves [OF good ok [unfolded tick(1)] _ _ this] show ?thesis by (simp add: tick)
next
  case (tick_lost clock ns ns')
  then have "leaves (engine_tick E C J clock ns) ns'" by auto
  from engine_tick_leaves [OF good ok [unfolded tick_lost(1)] _ _ this] show ?thesis by (simp add: tick_lost)
next
  case (untracked ns mp)
  with ok show ?thesis by (auto simp: machine_ok_def live_def engine_on_def)
next
  case (stop ns)
  with ok have "dead_db E C F B N (ns_db ns)" by (simp add: machine_ok_def)
  from dead_db_file [OF this] show ?thesis unfolding stop by (auto simp: machine_ok_def)
qed

lemma good_blocks_subset: "good_blocks E C B' \<Longrightarrow> B \<subseteq> B' \<Longrightarrow> good_blocks E C B"
  unfolding good_blocks_def by blast

lemma node_run_machine_ok:
  assumes "node_run E C J bs up m" and "data_codec_laws C"
  shows "good_blocks E C (set bs) \<Longrightarrow> length bs \<le> 2 ^ 64 \<Longrightarrow> machine_ok E C {} (set bs) (length bs) m"
  using assms(1)
proof induction
  case (run_step bs up m new up' m')
  then have "machine_ok E C {} (set bs) (length bs) m"
    by (auto intro: good_blocks_subset)
  from node_step_keeps [OF run_step(2) assms(2) _ _ this] run_step(4,5) show ?case by simp
qed (simp add: machine_ok_def)

text \<open>The pool, while no call was lost.\<close>

definition rets :: "('a \<Rightarrow> 's \<Rightarrow> bool) \<Rightarrow> ('a, 's) outcome \<Rightarrow> bool" where
  "rets P m \<longleftrightarrow> (\<forall>a s. m = Ret a s \<longrightarrow> P a s)"

lemma rets_Ret [simp]: "rets P (Ret a s) = P a s"
  by (simp add: rets_def)

lemma rets_andThen: "rets P m \<Longrightarrow> (\<And>a s. P a s \<Longrightarrow> rets R (k a s)) \<Longrightarrow> rets R (andThen m k)"
  by (auto simp: rets_def andThen_Ret_iff)

lemma rets_branch:
  "rets (\<lambda>_. Q) m \<Longrightarrow> (\<And>x s. Q s \<Longrightarrow> rets (\<lambda>_. Q) (k x s)) \<Longrightarrow>
     rets (\<lambda>_. Q) (andThen m (\<lambda>r s. case r of Inl e \<Rightarrow> Ret None s | Inr x \<Rightarrow> k x s))"
  "rets (\<lambda>_. Q) m' \<Longrightarrow> (\<And>x s. Q s \<Longrightarrow> rets (\<lambda>_. Q) (l x s)) \<Longrightarrow>
     rets (\<lambda>_. Q) (andThen m' (\<lambda>r s. case r of None \<Rightarrow> Ret None s | Some x \<Rightarrow> l x s))"
  by (auto simp: rets_def andThen_Ret_iff split: sum.split_asm option.split_asm)

lemma node_tick_ok:
  assumes "engine_ok E en"
  shows "rets (\<lambda>_. engine_ok E) (node_tick E C now en)"
proof -
  have create: "rets (\<lambda>_. engine_ok E) (create_proposal E C now en)"
    using create_proposal_ok [OF assms] by (auto simp: rets_def)
  have propose: "rets (\<lambda>_. engine_ok E) (handle_proposal E C b en)" if "engine_ok E en" for b en
    using handle_proposal_ok [OF that] by (auto simp: rets_def)
  have prevote: "rets (\<lambda>_. engine_ok E) (handle_prevote E C v en)" if "engine_ok E en" for v en
    using handle_prevote_ok [OF that] by (auto simp: rets_def)
  have precommit: "rets (\<lambda>_. engine_ok E) (handle_precommit E C [] v en)" if "engine_ok E en" for v en
    using handle_precommit_ok [OF that] by (auto simp: rets_def)
  show ?thesis
    unfolding node_tick_def
    by (rule rets_branch(1), rule create, rule rets_branch(1), erule propose, rule rets_branch(2),
        erule prevote, rule rets_branch(2), erule precommit, simp)
qed

definition pool_ok :: "env \<Rightarrow> machine \<Rightarrow> bool" where
  "pool_ok E m =
     (case m of
        Off _ \<Rightarrow> True
      | On ns \<Rightarrow> mp_inv E (ns_pool ns) \<and> mp_limits (ns_pool ns) \<and>
          (\<forall>en. ns_engine ns = Some en \<longrightarrow> engine_ok E (engine_on ns en)))"

lemma serve_pool:
  assumes "serve E C J req ns = Ret resp ns'" and "mp_inv E (ns_pool ns)" and "mp_limits (ns_pool ns)"
  shows "mp_inv E (ns_pool ns') \<and> mp_limits (ns_pool ns')"
proof -
  obtain st where st: "handle_rpc E C J req (rpc_view ns) = Ret resp st" "ns' = rpc_back ns st"
    using assms(1) by (auto simp: serve_def split: outcome.split_asm)
  have pool: "ns_pool ns' = rs_pool st" "rs_pool (rpc_view ns) = ns_pool ns"
    by (simp_all add: st(2) rpc_back_def rpc_view_def)
  show ?thesis
  proof (cases "rq_method req = ''sendTransaction''")
    case True
    then have "send_transaction E C J req (rpc_view ns) = Ret resp st" using st(1) by (simp add: handle_rpc_def)
    note keeps = add_transaction_keeps [OF assms(2,3)]
    from \<open>send_transaction E C J req (rpc_view ns) = Ret resp st\<close> show ?thesis
    proof (cases rule: send_transaction_Ret)
      case malformed
      with assms(2,3) show ?thesis by (simp add: pool)
    next
      case (accepted tx h mp)
      from keeps [OF accepted(2) [unfolded pool(2)]] accepted(4) show ?thesis by (simp add: pool(1))
    next
      case (rejected tx e mp)
      from keeps [OF rejected(2) [unfolded pool(2)]] rejected(4) show ?thesis by (simp add: pool(1))
    qed
  next
    case False
    from read_method_Ret [OF st(1) this] assms(2,3) show ?thesis by (simp add: pool)
  qed
qed

lemma engine_tick_pool:
  assumes "engine_tick E C J clock ns = Ret () ns'" and "pool_ok E (On ns)"
  shows "pool_ok E (On ns')"
proof (cases "ns_engine ns")
  case (Some en)
  then have "engine_ok E (engine_on ns en)" using assms(2) by (simp add: pool_ok_def)
  from node_tick_ok [OF this, of C clock] assms(1) obtain a en' where
    ok: "engine_ok E en'" and run: "node_tick E C clock (engine_on ns en) = Ret a en'"
    by (cases "node_tick E C clock (engine_on ns en)") (auto simp: engine_tick_def Some)
  have f: "ns_db ns' = en_db en'" "ns_pool ns' = en_pool en'" "ns_engine ns' = Some en'"
    using assms(1) by (auto simp: engine_tick_def Some run engine_back_def split: option.split_asm)
  have "engine_on ns' en' = en'" by (simp add: engine_on_def f)
  moreover have "mp_inv E (en_pool en')" "mp_limits (en_pool en')" using ok by (simp_all add: engine_ok_def)
  ultimately show ?thesis using ok by (simp add: pool_ok_def f)
qed (use assms in \<open>simp add: engine_tick_def\<close>)

lemma run_node_pool:
  assumes "run_node E C path faults dir_ok listens key drawn chain_id clock disk = Ret (Inr ns) disk'"
    and "om_ok (kv_map (db_kv (ns_db ns)))"
  shows "pool_ok E (On ns)" and "ns_pool ns = mempool_new mempool_config_default"
proof -
  let ?mp = "mempool_new mempool_config_default"
  obtain kv db en where db: "open_node E C key drawn chain_id clock (state_db_new E kv) = Ret (Inr ()) db"
    and en: "start_engine E key db ?mp chain_id = Some en"
    and ns: "ns = \<lparr>ns_db = db, ns_pool = ?mp, ns_peers = peer_manager_new, ns_chain_id = chain_id,
      ns_sent = [], ns_engine = en, ns_metrics = metrics_new\<rparr>"
    using assms(1)
    by (auto simp: run_node_def Let_def or_panic_Ret_iff split: if_split_asm sum.split_asm outcome.split_asm)
  show "ns_pool ns = ?mp" by (simp add: ns)
  have mp: "mp_inv E ?mp" "mp_limits ?mp" using pool_reach_inv [OF pool_new] by blast+
  have "engine_ok E e" if e: "en = Some e" for e
  proof -
    obtain kp where "engine_new E kp db ?mp chain_id = Some e"
      using en e by (auto simp: start_engine_def split: option.splits)
    then show ?thesis using engine_new_ok mp assms(2) ns by fastforce
  qed
  moreover have "engine_on ns e = e" if "en = Some e" for e
    using start_engine_fresh(2,3) [OF en [unfolded that]] by (simp add: engine_on_def ns)
  ultimately show "pool_ok E (On ns)" using mp by (auto simp: pool_ok_def ns)
qed

lemma node_step_pool:
  assumes step: "node_step E C J up m new up' m'" and "up \<longrightarrow> pool_ok E m" and up': "up'"
    and chain: "\<And>ns. m' = On ns \<Longrightarrow> om_ok (kv_map (db_kv (ns_db ns)))"
  shows "pool_ok E m'"
  using step
proof cases
  case (start path faults dir_ok listens key drawn chain_id clock disk ns disk')
  from run_node_pool(1) [OF start(5)] chain start show ?thesis by simp
next
  case (request req ns resp ns')
  then have ok: "pool_ok E (On ns)" using assms(2) up' by simp
  have l: "leaves (serve E C J req ns) ns'" using request by simp
  have "engine_on ns' en = (engine_on ns en)\<lparr>en_pool := ns_pool ns'\<rparr>" for en
    using serve_leaves [OF l] by (simp add: engine_on_def)
  with serve_pool [OF request(5)] serve_leaves [OF l] ok request show ?thesis
    by (auto simp: pool_ok_def engine_ok_def)
next
  case (tick clock ns ns')
  then have "pool_ok E (On ns)" using assms(2) up' by simp
  with engine_tick_pool tick show ?thesis by blast
qed (use up' in \<open>auto simp: pool_ok_def\<close>)

lemma node_run_pool:
  assumes "node_run E C J bs up m" and "data_codec_laws C"
  shows "good_blocks E C (set bs) \<Longrightarrow> length bs \<le> 2 ^ 64 \<Longrightarrow> up \<longrightarrow> pool_ok E m"
  using assms(1)
proof induction
  case (run_step bs up m new up' m')
  then have "up \<longrightarrow> pool_ok E m" by (auto intro: good_blocks_subset)
  moreover have "machine_ok E C {} (set (bs @ new)) (length (bs @ new)) m'"
    using node_run_machine_ok [OF node_run.run_step [OF run_step(1,2)] assms(2)] run_step(4,5) by blast
  then have "om_ok (kv_map (db_kv (ns_db ns)))" if "m' = On ns" for ns
    using that by (simp add: machine_ok_def dead_db_def node_db_def chain_ok_def)
  ultimately show ?case using node_step_pool [OF run_step(2)] by blast
qed (simp add: pool_ok_def)

section \<open>The data file\<close>

lemma reopened_durable:
  assumes "data_codec_laws C" and "durable C db" and "node_db E C F B N db"
  shows "\<exists>db'. reopened E C (kv_disk (db_kv db)) = Some db' \<and> kv_map (db_kv db') = kv_map (db_kv db) \<and>
    node_db E C F B N db'"
proof -
  have "om_ok (kv_map (db_kv db))" using assms(3) by (simp add: node_db_def chain_ok_def)
  then obtain kv where kv: "kv_open C ''state.db'' (kv_disk (db_kv db)) [] = Inr kv"
    using assms(1,2) by (auto simp: kv_open_def durable_def data_codec_laws_def)
  from open_stopped [OF assms(1-3) refl kv] kv show ?thesis
    by (simp add: reopened_def) (simp add: state_db_new_def)
qed

lemma machine_file:
  assumes "data_codec_laws C" and "machine_ok E C F B N m"
  shows "\<exists>db. reopened E C (disk_of m) = Some db \<and>
    (node_db E C F B N db \<or> F = {} \<and> m = Off None \<and> kv_map (db_kv db) = [])"
proof (cases m)
  case (Off disk)
  show ?thesis
  proof (cases disk)
    case None
    with Off assms(2) show ?thesis by (simp add: reopened_def kv_open_def state_db_new_def)
  next
    case (Some bs)
    with Off assms(2) obtain db where "durable C db" "node_db E C F B N db" "kv_disk (db_kv db) = disk"
      by (auto simp: machine_ok_def)
    with reopened_durable [OF assms(1)] Off show ?thesis by fastforce
  qed
next
  case (On ns)
  with assms(2) have "dead_db E C F B N (ns_db ns)" by (simp add: machine_ok_def)
  from dead_db_file [OF this] obtain db0 where "durable C db0" "node_db E C F B N db0"
    "kv_disk (db_kv db0) = kv_disk (db_kv (ns_db ns))" by metis
  with reopened_durable [OF assms(1)] On show ?thesis by fastforce
qed

text \<open>The blocks in the file are a choice for the blocks whose places are kept.\<close>

definition file_blocks :: "codec \<Rightarrow> state_db \<Rightarrow> (u64 \<times> block) set" where
  "file_blocks C db = {(k, b). k \<le> get_latest_height db \<and> get_block_by_height C db k = Some b}"

lemma node_db_frozen:
  assumes "node_db E C {} B N db" and "\<And>k b. (k, b) \<in> F \<Longrightarrow> k \<le> get_latest_height db \<and> get_block_by_height C db k = Some b"
  shows "node_db E C F B N db"
  using assms unfolding node_db_def by auto

lemma file_blocks_same:
  assumes "kv_map (db_kv db) = kv_map (db_kv db')"
  shows "file_blocks C db = file_blocks C db'" and "get_latest_height db = get_latest_height db'"
    and "get_block_by_height C db = get_block_by_height C db'"
proof -
  have get: "kv_get (db_kv db) = kv_get (db_kv db')" using assms by (simp add: fun_eq_iff kv_get_def)
  show *: "get_latest_height db = get_latest_height db'" by (simp add: get_latest_height_def get)
  show **: "get_block_by_height C db = get_block_by_height C db'"
    by (rule ext) (unfold get_block_by_height_def get, rule refl)
  show "file_blocks C db = file_blocks C db'" unfolding file_blocks_def * ** ..
qed

lemma machine_frozen:
  assumes laws: "data_codec_laws C" and good: "good_blocks E C B" "N \<le> 2 ^ 64" and ok: "machine_ok E C {} B N m"
    and db: "reopened E C (disk_of m) = Some db"
  shows "machine_ok E C (file_blocks C db) B N m"
proof -
  have dur: "node_db E C (file_blocks C db) B N db0"
    if d0: "durable C db0" "node_db E C {} B N db0" "kv_disk (db_kv db0) = disk_of m" for db0
  proof -
    obtain db' where "reopened E C (disk_of m) = Some db'" "kv_map (db_kv db') = kv_map (db_kv db0)"
      using reopened_durable [OF laws d0(1,2)] d0(3) by auto
    with db have "kv_map (db_kv db) = kv_map (db_kv db0)" by simp
    from file_blocks_same(1) [OF this] show ?thesis
      by (intro node_db_frozen [OF d0(2)]) (simp add: file_blocks_def)
  qed
  show ?thesis
  proof (cases m)
    case (Off disk)
    show ?thesis
    proof (cases disk)
      case None
      with Off db have "kv_map (db_kv db) = []" by (auto simp: reopened_def kv_open_def state_db_new_def)
      from empty_db_reads [OF this] have "file_blocks C db = {}" by (simp add: file_blocks_def)
      with None Off show ?thesis by simp
    qed (use ok Off dur in \<open>auto simp: machine_ok_def\<close>)
  next
    case (On ns)
    with ok have d: "dead_db E C {} B N (ns_db ns)" by (simp add: machine_ok_def)
    have all: "dead_db E C (file_blocks C db) B N (ns_db ns)"
    proof (cases "durable C (ns_db ns)")
      case True
      with d dur [OF True] On show ?thesis by (simp add: dead_db_def)
    next
      case False
      with d obtain db0 b ov where f: "durable C db0" "node_db E C {} B N db0" "fits E C B N db0 b"
        "kv_disk (db_kv (ns_db ns)) = kv_disk (db_kv db0)"
        "ns_db ns = write_all E C ov b (get_latest_height db0 + 1) db0"
        unfolding dead_db_def file_behind_def by blast
      have "node_db E C (file_blocks C db) B N db0" using dur [OF f(1,2)] f(4) On by simp
      from node_db_extend(1) [OF good(1) this f(3) good(2), of ov] this f show ?thesis
        unfolding dead_db_def file_behind_def f(5) by blast
    qed
    then have "node_db E C (file_blocks C db) B N (ns_db ns)" by (simp add: dead_db_def)
    with all ok On show ?thesis by (auto simp: machine_ok_def live_def engine_on_def)
  qed
qed

section \<open>The metrics\<close>

lemma serve_metrics:
  assumes "leaves (serve E C J req ns) ns'"
  shows "ns_metrics ns' = ns_metrics ns"
  using assms by (cases "handle_rpc E C J req (rpc_view ns)") (auto simp: serve_def rpc_back_def)

lemma engine_tick_metrics:
  assumes "leaves (engine_tick E C J clock ns) ns'"
  shows "ns_metrics ns' = ns_metrics ns"
proof (cases "ns_engine ns")
  case (Some en)
  then show ?thesis
    using assms tick_None [of E C clock "engine_on ns en"]
    by (cases "node_tick E C clock (engine_on ns en)") (auto simp: engine_tick_def engine_back_def)
qed (use assms in \<open>simp add: engine_tick_def\<close>)

section \<open>Properties\<close>

text \<open>
  C3: whatever requests, ticks, stops, restarts and failed writes a node goes through, it holds
  a chain: every height up to the latest has a block of that height made in the run, valid
  and linked to the one below. The data file opens, holds a chain too, and is at most one block
  behind what the node serves, and not behind while the production loop runs. In both the tree
  mirrors the accounts stored, unless two of their addresses have tree keys that are an explicit
  BLAKE3 collision. No two of the blocks made in the run that differ in height share a hash: the
  finite condition \<open>good_blocks\<close>, which also says that they are read back as written.
\<close>
theorem node_run_keeps_chain:
  assumes "data_codec_laws C" and "node_run E C J bs up (On ns)"
    and "good_blocks E C (set bs)" and "length bs \<le> 2 ^ 64"
  shows "chain_ok E C (ns_db ns) \<and>
    (\<forall>k b. get_block_by_height C (ns_db ns) k = Some b \<longrightarrow> b \<in> set bs) \<and>
    (mirrored E (ns_db ns) \<or> key_clash E (ns_db ns)) \<and>
    (\<exists>db. reopened E C (disk_of (On ns)) = Some db \<and> chain_ok E C db \<and> (mirrored E db \<or> key_clash E db) \<and>
       (\<forall>k \<le> get_latest_height db. get_block_by_height C (ns_db ns) k = get_block_by_height C db k) \<and>
       (kv_map (db_kv (ns_db ns)) = kv_map (db_kv db) \<or>
        ns_engine ns = None \<and> get_latest_height (ns_db ns) = get_latest_height db + 1))"
proof -
  have ok: "machine_ok E C {} (set bs) (length bs) (On ns)"
    by (rule node_run_machine_ok [OF assms(2,1,3,4)])
  then have d: "dead_db E C {} (set bs) (length bs) (ns_db ns)" by (simp add: machine_ok_def)
  then have mem: "node_db E C {} (set bs) (length bs) (ns_db ns)" by (simp add: dead_db_def)
  have "\<exists>db. reopened E C (disk_of (On ns)) = Some db \<and> chain_ok E C db \<and> (mirrored E db \<or> key_clash E db) \<and>
       (\<forall>k \<le> get_latest_height db. get_block_by_height C (ns_db ns) k = get_block_by_height C db k) \<and>
       (kv_map (db_kv (ns_db ns)) = kv_map (db_kv db) \<or>
        ns_engine ns = None \<and> get_latest_height (ns_db ns) = get_latest_height db + 1)"
  proof (cases "durable C (ns_db ns)")
    case True
    obtain db where db: "reopened E C (disk_of (On ns)) = Some db" "kv_map (db_kv db) = kv_map (db_kv (ns_db ns))"
      "node_db E C {} (set bs) (length bs) db"
      using reopened_durable [OF assms(1) True mem] by auto
    with file_blocks_same(3) [OF db(2)] show ?thesis by (auto simp: node_db_def)
  next
    case False
    with d obtain db0 b ov where f: "durable C db0" "node_db E C {} (set bs) (length bs) db0"
      "fits E C (set bs) (length bs) db0 b" "kv_disk (db_kv (ns_db ns)) = kv_disk (db_kv db0)"
      "ns_db ns = write_all E C ov b (get_latest_height db0 + 1) db0"
      unfolding dead_db_def file_behind_def by blast
    obtain db where db: "reopened E C (disk_of (On ns)) = Some db" "kv_map (db_kv db) = kv_map (db_kv db0)"
      "node_db E C {} (set bs) (length bs) db"
      using reopened_durable [OF assms(1) f(1,2)] by (auto simp: f(4))
    have "ns_engine ns = None" using ok False by (cases "ns_engine ns") (auto simp: machine_ok_def live_def engine_on_def)
    with node_db_extend(2) [OF assms(3) f(2,3) assms(4), of ov, folded f(5)]
      node_db_extend(3) [OF assms(3) f(2,3) assms(4), where ov = ov, folded f(5)]
      file_blocks_same(2,3) [OF db(2)] db(1,3)
    show ?thesis by (auto simp: node_db_def)
  qed
  with mem show ?thesis by (auto simp: node_db_def)
qed

text \<open>
  C4: what the data file holds is final: a block stored at a height up to the file's latest
  is there, at that height, after any further step of the node: a request, a tick that panics or
  waits for ever, a crash, a restart with any key, clock, chain id or failing writes; as long as
  no two blocks of the run that differ in height share a hash (\<open>good_blocks\<close>).
\<close>
theorem stored_blocks_final:
  assumes "data_codec_laws C" and "node_run E C J bs up m" and "node_step E C J up m new up' m'"
    and "good_blocks E C (set (bs @ new))" and "length (bs @ new) \<le> 2 ^ 64"
    and "reopened E C (disk_of m) = Some db"
    and "k \<le> get_latest_height db" and "get_block_by_height C db k = Some b"
  shows "\<exists>db'. reopened E C (disk_of m') = Some db' \<and> k \<le> get_latest_height db' \<and>
    get_block_by_height C db' k = Some b"
proof -
  have good: "good_blocks E C (set bs)" "length bs \<le> 2 ^ 64"
    using assms(4,5) by (auto intro: good_blocks_subset)
  from machine_frozen [OF assms(1) good node_run_machine_ok [OF assms(2,1) good] assms(6)]
  have "machine_ok E C (file_blocks C db) (set bs \<union> set new) (length bs + length new) m'"
    using node_step_keeps [OF assms(3,1)] assms(4,5) by simp
  from machine_file [OF assms(1) this] obtain db' where "reopened E C (disk_of m') = Some db'"
    "node_db E C (file_blocks C db) (set bs \<union> set new) (length bs + length new) db' \<or> file_blocks C db = {}"
    by auto
  moreover have "(k, b) \<in> file_blocks C db" using assms(7,8) by (simp add: file_blocks_def)
  ultimately show ?thesis by (auto simp: node_db_def)
qed

lemma run_node_reopens:
  assumes "run_node E C path faults dir_ok listens key drawn chain_id clock (Some bs) = Ret (Inr ns) disk'"
    and "data_codec_laws C" and "durable C db" and "node_db E C F B N db" and "kv_disk (db_kv db) = Some bs"
  obtains kv en where "ns_db ns = state_db_new E kv" "kv_map kv = kv_map (db_kv db)" "disk' = Some bs"
    "ns_pool ns = mempool_new mempool_config_default" "ns_engine ns = en"
    "start_engine E key (ns_db ns) (ns_pool ns) chain_id = Some en"
proof -
  obtain kv where kv: "kv_open C path (Some bs) faults = Inr kv"
    using assms(1) by (auto simp: run_node_def split: if_split_asm sum.split_asm)
  note stopped = open_stopped [OF assms(2,3,4,5) kv]
  have "db_kv (state_db_new E kv) = kv" by (simp add: state_db_new_def)
  with assms(1) kv stopped(4) that [OF _ stopped(1)] show ?thesis
    by (auto simp: run_node_def stopped(5) Let_def or_panic_Ret_iff split: if_split_asm)
qed

text \<open>
  C19: a restart resumes: a node stopped while its production loop runs and started again on its
  file comes up with the same latest height, blocks and accounts, runs no second genesis and
  writes nothing, whatever key, clock and chain id it is given; its engine goes on at the next
  height. It computes the same state root, unless two different addresses stored have tree keys
  that are an explicit BLAKE3 collision. What it forgets is the mempool and the last certificate.
\<close>
theorem restart_resumes:
  assumes "data_codec_laws C" and "node_run E C J bs up (On ns)"
    and "good_blocks E C (set bs)" and "length bs \<le> 2 ^ 64" and "ns_engine ns \<noteq> None"
    and "run_node E C path faults dir_ok listens key drawn chain_id clock (disk_of (On ns)) = Ret (Inr ns2) disk2"
  shows "disk2 = disk_of (On ns) \<and> get_latest_height (ns_db ns2) = get_latest_height (ns_db ns) \<and>
    get_block_by_height C (ns_db ns2) = get_block_by_height C (ns_db ns) \<and>
    get_account C (ns_db ns2) = get_account C (ns_db ns) \<and>
    (get_state_root E (ns_db ns2) = get_state_root E (ns_db ns) \<or> key_clash E (ns_db ns)) \<and> mempool_len (ns_pool ns2) = 0 \<and>
    (\<forall>en. ns_engine ns2 = Some en \<longrightarrow> cur_height en = get_latest_height (ns_db ns) + 1 \<and> last_qc en = None)"
proof -
  have "machine_ok E C {} (set bs) (length bs) (On ns)" by (rule node_run_machine_ok [OF assms(2,1,3,4)])
  then have db: "node_db E C {} (set bs) (length bs) (ns_db ns)" "durable C (ns_db ns)"
    using assms(5) by (auto simp: machine_ok_def live_def engine_on_def)
  then obtain content where disk: "kv_disk (db_kv (ns_db ns)) = Some content" by (auto simp: durable_def)
  from run_node_reopens [OF assms(6) [simplified, unfolded disk] assms(1) db(2,1) disk] obtain kv en where
    ns2: "ns_db ns2 = state_db_new E kv" "kv_map kv = kv_map (db_kv (ns_db ns))" "disk2 = Some content"
      "ns_pool ns2 = mempool_new mempool_config_default" "ns_engine ns2 = en"
      "start_engine E key (ns_db ns2) (ns_pool ns2) chain_id = Some en" .
  have kv: "kv_map (db_kv (ns_db ns2)) = kv_map (db_kv (ns_db ns))" by (simp add: ns2 state_db_new_def)
  then have accounts: "same_accounts (ns_db ns2) (ns_db ns)" by (simp add: same_accounts_def kv_get_def)
  have "node_db E C {} (set bs) (length bs) (ns_db ns2)" unfolding ns2(1) by (rule node_db_reopened [OF db(1) ns2(2)])
  with db(1) same_accounts_clash [OF accounts]
  have root: "get_state_root E (ns_db ns2) = get_state_root E (ns_db ns) \<or> key_clash E (ns_db ns)"
    using mirrored_root [OF _ _ accounts] by (auto simp: node_db_def)
  with same_accounts_get [OF accounts] file_blocks_same [OF kv] disk ns2(3-6)
  show ?thesis
    by (auto simp: mempool_len_def mempool_new_def start_engine_def engine_new_def split: option.splits dest!: add_ck_SomeD)
qed

text \<open>
  As long as no call of a node panicked or waits for ever, the four indexes of its mempool
  agree and keep within its limits, and the votes and the proposed block of its engine are in
  order, through requests, ticks, stops and restarts.
\<close>
theorem node_run_keeps_pool:
  assumes "data_codec_laws C" and "node_run E C J bs True (On ns)"
    and "good_blocks E C (set bs)" and "length bs \<le> 2 ^ 64"
  shows "mp_inv E (ns_pool ns) \<and> mp_limits (ns_pool ns) \<and>
    (\<forall>en. ns_engine ns = Some en \<longrightarrow> votes_ok (prevotes en) \<and> votes_ok (precommits en) \<and>
       en_address en = address_from_pubkey E (kp_public (en_keypair en)) \<and>
       (\<forall>b. proposed_block en = Some b \<longrightarrow> validate_basic E b = Inr ()))"
  using node_run_pool [OF assms(2,1,3,4)] by (auto simp: pool_ok_def engine_ok_def engine_on_def)

text \<open>
  The metrics page of a running node never shows a metric: in no run of a node, whatever it
  is asked and however often its loop turns, is one of the statics ever used, so the page is
  what the encoder writes for no metrics at all.
\<close>
theorem metrics_page_stays_empty:
  assumes "node_run E C J bs up (On ns)"
  shows "ns_metrics ns = metrics_new \<and>
    handle_metrics encode (ns_metrics ns) =
      map_option (\<lambda>buffer. (200, [(''content-type'', ''text/plain; version=0.0.4'')],
        if utf8_ok buffer then string_of_bytes buffer else [])) (encode [])"
proof -
  have "\<forall>ns. m = On ns \<longrightarrow> ns_metrics ns = metrics_new" if "node_run E C J bs up m" for m
    using that
  proof induction
    case (run_step bs up m new up' m')
    note IH = run_step.IH
    from run_step.hyps(2) show ?case
    proof cases
      case (start path faults dir_ok listens key drawn chain_id clock disk ns disk')
      then show ?thesis
        by (auto simp: run_node_def Let_def or_panic_Ret_iff split: if_split_asm sum.split_asm outcome.split_asm)
    next
      case (request req ns resp ns')
      with IH serve_metrics [of E C J req ns ns'] show ?thesis by simp
    next
      case (request_lost req ns ns')
      with IH serve_metrics [of E C J req ns ns'] show ?thesis by (auto simp: leaves_def)
    next
      case (tick clock ns ns')
      with IH engine_tick_metrics [of E C J clock ns ns'] show ?thesis by simp
    next
      case (tick_lost clock ns ns')
      with IH engine_tick_metrics [of E C J clock ns ns'] show ?thesis by (auto simp: leaves_def)
    qed (use IH in auto)
  qed simp
  with assms have new: "ns_metrics ns = metrics_new" by blast
  moreover have "gather_families metrics_new = []"
    by (simp add: gather_families_def family_def metrics_new_def)
  ultimately show ?thesis
    by (cases "encode []") (simp_all add: handle_metrics_def gather_metrics_def)
qed

text \<open>
  When the file cannot be written a block is committed in memory only: the engine panics, but
  the database has the block, the height and the accounts of its transactions, and the server
  reports that height; the file still holds what it held.
\<close>
theorem unpersisted_block_served:
  assumes "kv_path (db_kv (en_db en)) \<noteq> None" and "kv_faults (db_kv (en_db en)) = True # fs"
    and "om_ok (kv_map (db_kv (en_db en)))" and "account_codec_laws C"
    and "proposed_block en = Some b" and "block_dec C (block_enc C b) = Some b"
    and "engine_execute_all E C (en_db en) (b_transactions b) [] = Some ov"
  shows "\<exists>en'. commit_proposed E C (block_hash E b) en = Panic en' \<and>
    get_block_by_height C (en_db en') (h_height (b_header b)) = Some b \<and>
    get_account C (en_db en') a = (case map_of (rev ov) a of Some acc \<Rightarrow> acc | None \<Rightarrow> get_account C (en_db en) a) \<and>
    kv_disk (db_kv (en_db en')) = kv_disk (db_kv (en_db en)) \<and>
    get_block_height J req (st\<lparr>rs_db := en_db en'\<rparr>) =
      Ret (rpc_success (rq_id req) (js_uint J (unat (h_height (b_header b))))) (st\<lparr>rs_db := en_db en'\<rparr>)"
proof -
  obtain r db' where c: "commit_block E C b ov (en_db en) = (r, db')" by fastforce
  have db': "db' = write_all E C ov b (h_height (b_header b)) (en_db en)" by (rule commit_block_Inr [OF c])
  have fail: "persist C ((db_kv (en_db en))\<lparr>kv_map := m\<rparr>) = (Inl StoreIo, (db_kv (en_db en))\<lparr>kv_map := m, kv_faults := fs\<rparr>)" for m
    using assms(1,2) by (auto simp: persist_def)
  have "r = Inl StoreIo" using c by (auto simp: commit_block_def Let_def apply_batch_def fail)
  with c have "commit_proposed E C (block_hash E b) en = Panic (en\<lparr>en_db := db'\<rparr>)"
    using assms(5,7) by (simp add: commit_proposed_def)
  moreover have "kv_disk (db_kv db') = kv_disk (db_kv (en_db en))"
    by (simp add: db' write_all_def apply_batch_def fail)
  moreover have "get_account C db' a = (case map_of (rev ov) a of Some acc \<Rightarrow> acc | None \<Rightarrow> get_account C (en_db en) a)"
    using assms(4) by (simp add: db' get_account_write_all [OF assms(3)] account_codec_laws_def)
  ultimately show ?thesis
    by (intro exI [of _ "en\<lparr>en_db := db'\<rparr>"])
       (simp add: db' get_block_by_height_write_all [OF assms(3,6)] get_block_height_def
         get_latest_height_write_all [OF assms(3)])
qed

lemma get_validators_cong: "kv_map (db_kv db) = kv_map (db_kv db') \<Longrightarrow> get_validators C db = get_validators C db'"
  by (simp add: get_validators_def scan_prefix_def)

text \<open>A genesis with one validator on an empty database has that validator and no other.\<close>

lemma single_validator_genesis:
  assumes db: "kv_map (db_kv db) = []" and laws: "account_codec_laws C"
    and g: "g_accounts g = [\<lparr>ga_address = gv_address v, ga_balance = m\<rparr>]" "g_validators g = [v]" "0 < gv_stake v"
  shows "active_validators C (snd (apply_genesis E C g db)) =
    [\<lparr>vi_address = gv_address v, vi_pubkey = gv_pubkey v, vi_power = gv_stake v\<rparr>]"
proof -
  let ?db1 = "snd (apply_genesis E C g db)" and ?acc = "genesis_validator_account C db v"
  note empty = empty_db_reads [OF db]
  have om: "om_ok (kv_map (db_kv ?db1))" by (simp add: apply_genesis_write_all om_ok_write_all empty)
  have dec: "acc_dec C (acc_enc C x) = Some x" for x using laws by (simp add: account_codec_laws_def)
  have kv: "kv_get (db_kv ?db1) (account_key x) = (if x = gv_address v then Some (acc_enc C ?acc) else None)" for x
    using db by (simp add: apply_genesis_write_all kv_get_write_account empty genesis_writes_def g) (simp add: kv_get_def)
  have acc: "is_validator ?acc" "staked_amount ?acc = gv_stake v" "validator_pubkey ?acc = Some (gv_pubkey v)"
    by (simp_all add: genesis_validator_account_def)
  have "(x, y) \<in> set (get_validators C ?db1) \<longleftrightarrow> (x, y) = (gv_address v, ?acc)" for x y
    unfolding get_validators_iff [OF om] using acc g(3) by (auto simp: kv dec split: if_splits)
  then have "set (get_validators C ?db1) = {(gv_address v, ?acc)}" by auto
  moreover have "distinct (get_validators C ?db1)"
    using distinct_get_validators [OF om, of C] by (simp add: distinct_map)
  ultimately have "get_validators C ?db1 = [(gv_address v, ?acc)]" by (intro distinct_singleton)
  then show ?thesis using acc by (simp add: active_validators_def map_filter_simps)
qed

lemma not_proposer_tick:
  assumes "active_validators C (en_db en) = [v]" and "0 < vi_power v" and "vi_address v \<noteq> en_address en"
  shows "node_tick E C t en = Ret None en"
proof -
  have "total_stake [v] = unat (vi_power v)" by (simp add: total_stake_def)
  with select_proposer_exists [of "[v]" E "cur_height en" "cur_round en"] assms(2) unat_bound [of "vi_power v"]
  have "select_proposer E (cur_height en) (cur_round en) [v] = Some (Some v)" by (auto simp: word_less_nat_alt)
  with assms show ?thesis by (simp add: node_tick_def create_proposal_def Let_def)
qed

lemma init_command_file:
  assumes g: "g = init_genesis E drawn chain_id now"
      "block_dec C (block_enc C (to_genesis_block E g)) = Some (to_genesis_block E g)"
    and init: "init_command E C path faults True drawn chain_id (Some now) None = Ret (Inr root) disk"
  obtains db db1 where "kv_map (db_kv db) = []" "db1 = snd (apply_genesis E C g db)" "kv_disk (db_kv db1) = disk"
    "node_db E C {} {to_genesis_block E g} 1 db1" "durable C db1"
proof -
  define kv where "kv = \<lparr>kv_map = [], kv_path = Some path, kv_disk = None, kv_faults = faults\<rparr>"
  let ?db = "state_db_new E kv"
  have new: "db_kv (state_db_new E k) = k" for k by (simp add: state_db_new_def)
  have db: "kv_map (db_kv ?db) = []" "kv_path (db_kv ?db) \<noteq> None" by (simp_all add: new kv_def)
  have "kv_open C path None faults = Inr kv" by (simp add: kv_open_def kv_def)
  then obtain db1 where gen: "apply_genesis E C g ?db = (Inr root, db1)" and disk: "kv_disk (db_kv db1) = disk"
    using init by (auto simp: init_command_def init_node_def g(1) split: sum.splits prod.splits)
  have "\<not> key_clash E ?db \<longrightarrow> mirrored E ?db" by (rule mirrored_opened) (simp add: kv_def om_ok_def)
  from genesis_node_db [OF db this g(2) gen, of "{to_genesis_block E g}" 1] that [OF db(1) _ disk] gen show ?thesis by simp
qed

text \<open>
  C40: \<open>init\<close> locks its user out: it makes a validator of a key pair it draws and shows to no
  one, so a node started on that data directory with any other validator key, which finds a
  genesis and does not write its own, never proposes: no tick ever changes anything.
\<close>
theorem initialized_node_is_idle:
  assumes "data_codec_laws C" and "account_codec_laws C"
    and g: "g = init_genesis E drawn chain_id now"
      "block_dec C (block_enc C (to_genesis_block E g)) = Some (to_genesis_block E g)"
    and init: "init_command E C path faults True drawn chain_id (Some now) None = Ret (Inr root) disk"
    and run: "run_node E C path faults' dir_ok listens (Some k) drawn' chain_id' clock disk = Ret (Inr ns) disk'"
    and other: "secret_of_hex E k = Some sk"
      "address_from_pubkey E (PublicKey (ed_public E sk)) \<noteq>
       address_from_pubkey E (kp_public (keypair_generate E drawn))"
  shows "ns_engine ns \<noteq> None \<and> engine_tick E C J t ns = Ret () ns"
proof -
  obtain db db1 where db: "kv_map (db_kv db) = []" and gen: "db1 = snd (apply_genesis E C g db)"
    and disk: "kv_disk (db_kv db1) = disk" and ok: "node_db E C {} {to_genesis_block E g} 1 db1" "durable C db1"
    using init_command_file [OF g init] .
  then obtain content where content: "disk = Some content" using disk by (auto simp: durable_def)
  from run_node_reopens [OF run [unfolded content] assms(1) ok(2,1)] disk content obtain kv2 en where
    ns: "ns_db ns = state_db_new E kv2" "kv_map kv2 = kv_map (db_kv db1)" "ns_engine ns = en"
      "start_engine E (Some k) (ns_db ns) (ns_pool ns) chain_id' = Some en" by metis
  let ?kp = "keypair_generate E drawn"
  let ?v = "\<lparr>gv_address = address_from_pubkey E (kp_public ?kp), gv_pubkey = kp_public ?kp, gv_stake = 1000000000\<rparr>"
  have "g_accounts g = [\<lparr>ga_address = gv_address ?v, ga_balance = 10000000000\<rparr>]" "g_validators g = [?v]" "0 < gv_stake ?v"
    by (simp_all add: g(1) init_genesis_def Let_def word_less_nat_alt)
  from single_validator_genesis [OF db assms(2) this, of E] have
    "active_validators C db1 = [\<lparr>vi_address = gv_address ?v, vi_pubkey = gv_pubkey ?v, vi_power = gv_stake ?v\<rparr>]"
    by (simp add: gen)
  then have vals: "active_validators C (ns_db ns) = [\<lparr>vi_address = gv_address ?v, vi_pubkey = gv_pubkey ?v, vi_power = gv_stake ?v\<rparr>]"
    using get_validators_cong [of "ns_db ns" db1 C] by (simp add: active_validators_def ns state_db_new_def)
  obtain e where e: "en = Some e" "engine_new E (keypair_from_secret_bytes E sk) (ns_db ns) (ns_pool ns) chain_id' = Some e"
    using ns(4) other(1) by (auto simp: start_engine_def)
  then have f: "en_db e = ns_db ns" "en_pool e = ns_pool ns"
    "en_address e = address_from_pubkey E (PublicKey (ed_public E sk))"
    by (auto simp: engine_new_def keypair_from_secret_bytes_def)
  then have "engine_on ns e = e" "engine_back ns (Some e) e = ns" using ns(3) e(1) by (simp_all add: engine_on_def engine_back_def)
  moreover have "node_tick E C t e = Ret None e"
    by (rule not_proposer_tick [OF vals [folded f(1)]]) (use f other(2) in \<open>simp_all add: word_less_nat_alt\<close>)
  ultimately show ?thesis using ns(3) e(1) by (simp add: engine_tick_def)
qed

text \<open>
  And \<open>init\<close> on a data directory in use, which it does not check for, puts the node back to
  height 0 under a new genesis block while every account but the new validator's and every
  other block stay as they were.
\<close>
theorem init_resets_height:
  assumes "om_ok (kv_map (db_kv db))" and "account_codec_laws C"
    and g: "g = init_genesis E drawn chain_id now"
      "block_dec C (block_enc C (to_genesis_block E g)) = Some (to_genesis_block E g)"
    and run: "init_node E C drawn chain_id (Some now) db = Ret r db'"
    and "a \<noteq> address_from_pubkey E (kp_public (keypair_generate E drawn))"
    and "n \<noteq> 0" and "kv_get (db_kv db) (height_key n) \<noteq> Some (hash_bytes_of (block_hash E (to_genesis_block E g)))"
  shows "get_latest_height db' = 0 \<and> get_block_by_height C db' 0 = Some (to_genesis_block E g) \<and>
    get_account C db' a = get_account C db a \<and> get_block_by_height C db' n = get_block_by_height C db n"
proof -
  have "db' = snd (apply_genesis E C g db)"
    using run by (auto simp: init_node_def g(1) split: prod.splits sum.splits)
  then have db': "db' = write_all E C (genesis_writes C g db) (to_genesis_block E g) 0 db"
    by (simp add: apply_genesis_write_all)
  have "map_of (rev (genesis_writes C g db)) a = None"
    using assms(6) by (simp add: genesis_writes_def g(1) init_genesis_def Let_def)
  with assms(1,2,7,8) g(2) show ?thesis
    by (simp add: db' get_latest_height_write_all get_block_by_height_write_all get_account_write_all account_codec_laws_def)
qed

section \<open>Examples\<close>

lemma data_codec_laws_sample: "data_codec_laws (toy_codec b)"
  using data_codec_laws_toy by (simp add: data_codec_laws_def toy_kv_codec_def toy_codec_def)

abbreviation first_block :: block where
  "first_block \<equiv> to_genesis_block toy_env (run_genesis toy_env (Some some_key) 0 ''aura'' 1)"

abbreviation first_codec :: codec where
  "first_codec \<equiv> toy_codec first_block"

lemma first_good: "good_blocks toy_env first_codec (set [first_block])"
  by (simp add: good_blocks_def)

lemma first_candidate: "genesis_candidate toy_env (Some some_key) 0 ''aura'' (Some 1) = [first_block]"
  by (simp add: genesis_candidate_def)

lemma add_ck_first [simp]: "add_ck p (0 :: u64) 1 = Some 1"
  by (cases p) (simp_all add: add_ck_def)

lemma first_engine:
  assumes "get_latest_height db = 0"
  shows "\<exists>en. start_engine toy_env (Some some_key) db mp cid = Some (Some en)"
  using some_key_secret assms by (auto simp: start_engine_def engine_new_def)

lemma first_boot:
  "\<exists>ns disk. run_node toy_env first_codec ''state.db'' [] True True (Some some_key) 0 ''aura'' (Some 1) None =
     Ret (Inr ns) disk \<and> ns_engine ns \<noteq> None"
proof -
  let ?kv = "\<lparr>kv_map = [], kv_path = Some ''state.db'', kv_disk = None, kv_faults = []\<rparr>"
  let ?g = "run_genesis toy_env (Some some_key) 0 ''aura'' 1" and ?db = "state_db_new toy_env ?kv"
  let ?db1 = "write_all toy_env first_codec (genesis_writes first_codec ?g ?db) (to_genesis_block toy_env ?g) 0 ?db"
  have db: "kv_map (db_kv ?db) = []" "kv_faults (db_kv ?db) = []" by (simp_all add: state_db_new_def)
  note empty = empty_db_reads [OF db(1)]
  obtain h where "apply_genesis toy_env first_codec ?g ?db = (Inr h, ?db1)"
    using genesis_no_faults [OF db(2)] by blast
  then have opened: "open_node toy_env first_codec (Some some_key) 0 ''aura'' (Some 1) ?db = Ret (Inr ()) ?db1"
    using empty by (simp add: open_node_def)
  have "get_latest_height ?db1 = 0" by (simp add: get_latest_height_write_all empty)
  from first_engine [OF this] obtain en where
    "start_engine toy_env (Some some_key) ?db1 (mempool_new mempool_config_default) ''aura'' = Some (Some en)" by blast
  with opened show ?thesis by (simp add: run_node_def kv_open_def Let_def)
qed

lemma first_run:
  "\<exists>ns. node_run toy_env first_codec sample_lib [first_block] True (On ns) \<and> ns_engine ns \<noteq> None"
proof -
  obtain ns disk where ns: "ns_engine ns \<noteq> None" and
    run: "run_node toy_env first_codec ''state.db'' [] True True (Some some_key) 0 ''aura'' (Some 1) None = Ret (Inr ns) disk"
    using first_boot by blast
  from node_run.run_step [OF run_init node_step.start [OF run]] ns show ?thesis by (auto simp: first_candidate)
qed

lemma first_ok:
  assumes "node_run toy_env first_codec sample_lib [first_block] up m"
  shows "machine_ok toy_env first_codec {} (set [first_block]) (length [first_block]) m"
  by (rule node_run_machine_ok [OF assms data_codec_laws_sample first_good]) simp

theorem node_run_keeps_chain_witness:
  "\<exists>ns. node_run toy_env first_codec sample_lib [first_block] True (On ns) \<and>
     chain_ok toy_env first_codec (ns_db ns)"
proof -
  obtain ns where run: "node_run toy_env first_codec sample_lib [first_block] True (On ns)" using first_run by blast
  from node_run_keeps_chain [OF data_codec_laws_sample run first_good] run show ?thesis by auto
qed

theorem node_run_keeps_pool_witness:
  "\<exists>ns. node_run toy_env first_codec sample_lib [first_block] True (On ns) \<and> mp_inv toy_env (ns_pool ns)"
proof -
  obtain ns where run: "node_run toy_env first_codec sample_lib [first_block] True (On ns)" using first_run by blast
  from node_run_keeps_pool [OF data_codec_laws_sample run first_good] run show ?thesis by auto
qed

theorem stored_blocks_final_witness:
  "\<exists>disk db b. node_run toy_env first_codec sample_lib [first_block] True (Off disk) \<and>
     reopened toy_env first_codec disk = Some db \<and> get_block_by_height first_codec db 0 = Some b"
proof -
  obtain ns where run: "node_run toy_env first_codec sample_lib [first_block] True (On ns)" using first_run by blast
  have step: "node_step toy_env first_codec sample_lib True (On ns) [] True (Off (disk_of (On ns)))"
    using node_step.stop by simp
  have good: "good_blocks toy_env first_codec (set ([first_block] @ []))" "length ([first_block] @ []) \<le> 2 ^ 64"
    using first_good by simp_all
  obtain db where db: "reopened toy_env first_codec (disk_of (On ns)) = Some db"
    "node_db toy_env first_codec {} (set [first_block]) (length [first_block]) db"
    using machine_file [OF data_codec_laws_sample first_ok [OF run]] by auto
  have "\<exists>b. get_block_by_height first_codec db (word_of_nat 0) = Some b"
    using db(2) unfolding node_db_def chain_ok_def chain_to_def by blast
  then obtain b where "get_block_by_height first_codec db 0 = Some b" by auto
  from stored_blocks_final [OF data_codec_laws_sample run step good db(1) _ this]
  obtain db' where "reopened toy_env first_codec (disk_of (Off (disk_of (On ns)))) = Some db'"
    "get_block_by_height first_codec db' 0 = Some b" by auto
  with node_run.run_step [OF run step] show ?thesis
    by (intro exI [of _ "disk_of (On ns)"] exI [of _ db'] exI [of _ b]) simp
qed

lemma restart_works:
  assumes "durable (toy_codec b) db" and "node_db toy_env (toy_codec b) F B 1 db" and "kv_disk (db_kv db) = disk"
  shows "\<exists>ns disk'. run_node toy_env (toy_codec b) ''state.db'' faults True True (Some some_key) 0 cid clock disk =
    Ret (Inr ns) disk'"
proof -
  have "om_ok (kv_map (db_kv db))" using assms(2) by (simp add: node_db_def chain_ok_def)
  then obtain kv where kv: "kv_open (toy_codec b) ''state.db'' disk faults = Inr kv"
    using assms(1,3) data_codec_laws_sample [of b] by (auto simp: kv_open_def durable_def data_codec_laws_def)
  note stopped = open_stopped [OF data_codec_laws_sample assms kv]
  have "get_latest_height (state_db_new toy_env kv) = 0" using stopped(2) by (simp add: node_db_def unat_eq_0)
  from first_engine [OF this] obtain en where "start_engine toy_env (Some some_key) (state_db_new toy_env kv)
      (mempool_new mempool_config_default) cid = Some (Some en)" by blast
  with kv stopped(5) show ?thesis by (simp add: run_node_def Let_def)
qed

theorem restart_resumes_witness:
  "\<exists>ns ns2 disk. node_run toy_env first_codec sample_lib [first_block] True (On ns) \<and>
     run_node toy_env first_codec ''state.db'' [True] True True (Some some_key) 0 ''other'' None (disk_of (On ns)) =
       Ret (Inr ns2) disk \<and>
     get_state_root toy_env (ns_db ns2) = get_state_root toy_env (ns_db ns)"
proof -
  obtain ns where run: "node_run toy_env first_codec sample_lib [first_block] True (On ns)"
    and ns: "ns_engine ns \<noteq> None" using first_run by blast
  have db: "node_db toy_env first_codec {} (set [first_block]) (length [first_block]) (ns_db ns)"
    "durable first_codec (ns_db ns)"
    using first_ok [OF run] ns by (auto simp: machine_ok_def live_def engine_on_def)
  then have "\<exists>ns2 disk2. run_node toy_env first_codec ''state.db'' [True] True True (Some some_key) 0 ''other'' None
      (disk_of (On ns)) = Ret (Inr ns2) disk2" by (intro restart_works) simp_all
  then obtain ns2 disk2 where restart:
    "run_node toy_env first_codec ''state.db'' [True] True True (Some some_key) 0 ''other'' None (disk_of (On ns)) =
       Ret (Inr ns2) disk2" by blast
  from restart_resumes [OF data_codec_laws_sample run first_good _ ns restart] no_clash_toy run restart
  show ?thesis by auto
qed

definition failing_engine :: engine where
  "failing_engine = val_engine\<lparr>en_db := val_db\<lparr>db_kv := (db_kv val_db)\<lparr>kv_path := Some ''state.db'', kv_faults := [True]\<rparr>\<rparr>\<rparr>"

theorem unpersisted_block_served_witness:
  "\<exists>en'. commit_proposed fee_env fee_codec val_hash failing_engine = Panic en' \<and>
     get_block_by_height fee_codec (en_db en') 1 = Some (sample_block [])"
proof -
  have f: "kv_path (db_kv (en_db failing_engine)) \<noteq> None" "kv_faults (db_kv (en_db failing_engine)) = [True]"
    "om_ok (kv_map (db_kv (en_db failing_engine)))" "proposed_block failing_engine = Some (sample_block [])"
    using om_ok_val_db by (simp_all add: failing_engine_def val_engine_def)
  have c: "account_codec_laws fee_codec" "block_dec fee_codec (block_enc fee_codec (sample_block [])) = Some (sample_block [])"
    by (simp_all add: fee_codec_def account_codec_laws_toy)
  have b: "b_transactions (sample_block []) = []" "h_height (b_header (sample_block [])) = 1"
    by (simp_all add: sample_block_def sample_header_def header_new_unsigned_def)
  then have "engine_execute_all fee_env fee_codec (en_db failing_engine) (b_transactions (sample_block [])) [] = Some []"
    by simp
  from unpersisted_block_served [OF f(1-3) c(1) f(4) c(2) this]
  have "\<exists>en'. commit_proposed fee_env fee_codec val_hash failing_engine = Panic en' \<and>
      get_block_by_height fee_codec (en_db en') (h_height (b_header (sample_block []))) = Some (sample_block [])"
    by blast
  then show ?thesis by (simp add: b(2))
qed

lemma toy_address: "address_from_pubkey toy_env (PublicKey w) = Address (of_be_bytes (take 20 (be_bytes 32 w)))"
proof -
  have "(of_be_bytes (xs @ be_bytes 32 w) :: 256 word) = w" for xs
  proof -
    have "be_nat (be_bytes 32 w) = unat w"
      using unat_bound [of w] by (simp add: be_bytes_def be_nat_nat_be)
    moreover have "(of_nat (256 ^ 32) :: 256 word) = 0" by (simp add: of_nat_power)
    ultimately show ?thesis
      by (simp only: of_be_bytes_def be_nat_append length_be_bytes of_nat_add of_nat_mult
          mult_zero_right add_0) simp
  qed
  from this [of "le_len DOMAIN_ADDRESS @ DOMAIN_ADDRESS"] show ?thesis
    by (simp add: address_from_pubkey_def hash_with_domain_def domain_preimage_def pk_bytes_def hash_bytes_of_def)
qed

lemma two_addresses:
  "address_from_pubkey toy_env (PublicKey (of_be_bytes (replicate 32 55))) \<noteq> address_from_pubkey toy_env (PublicKey 0)"
proof
  let ?bs = "replicate 20 (55 :: 8 word)"
  have zero: "be_bytes 32 (0 :: 256 word) = be_bytes 32 (of_be_bytes (replicate 32 0) :: 256 word)"
    by (simp add: of_be_bytes_def be_nat_def numeral_eq_Suc)
  assume "address_from_pubkey toy_env (PublicKey (of_be_bytes (replicate 32 55))) = address_from_pubkey toy_env (PublicKey 0)"
  then have "(of_be_bytes ?bs :: 160 word) = of_be_bytes (replicate 20 0)"
    by (simp add: toy_address zero be_bytes_of_be_bytes)
  then have "be_bytes 20 (of_be_bytes ?bs :: 160 word) = be_bytes 20 (of_be_bytes (replicate 20 0) :: 160 word)" by simp
  then show False by (simp add: be_bytes_of_be_bytes)
qed

abbreviation init_block :: block where
  "init_block \<equiv> to_genesis_block toy_env (init_genesis toy_env 0 ''aura'' 1)"

lemma init_works:
  "\<exists>root disk. init_command toy_env (toy_codec init_block) ''state.db'' [] True 0 ''aura'' (Some 1) None = Ret (Inr root) disk"
proof -
  let ?kv = "\<lparr>kv_map = [], kv_path = Some ''state.db'', kv_disk = None, kv_faults = []\<rparr>"
  have "kv_faults (db_kv (state_db_new toy_env ?kv)) = []" by (simp add: state_db_new_def)
  from genesis_no_faults [OF this, of toy_env "toy_codec init_block" "init_genesis toy_env 0 ''aura'' 1"]
  show ?thesis by (auto simp: init_command_def init_node_def kv_open_def)
qed

theorem initialized_node_is_idle_witness:
  "\<exists>root disk ns disk'. init_command toy_env (toy_codec init_block) ''state.db'' [] True 0 ''aura'' (Some 1) None =
       Ret (Inr root) disk \<and>
     run_node toy_env (toy_codec init_block) ''state.db'' [] True True (Some some_key) 0 ''aura'' (Some 2) disk =
       Ret (Inr ns) disk' \<and> engine_tick toy_env (toy_codec init_block) sample_lib (Some 5) ns = Ret () ns"
proof -
  let ?C = "toy_codec init_block" and ?g = "init_genesis toy_env 0 ''aura'' 1"
  obtain root disk where init: "init_command toy_env ?C ''state.db'' [] True 0 ''aura'' (Some 1) None = Ret (Inr root) disk"
    using init_works by blast
  have dec: "block_dec ?C (block_enc ?C (to_genesis_block toy_env ?g)) = Some (to_genesis_block toy_env ?g)" by simp
  from init_command_file [OF refl dec init] obtain db1 where "kv_disk (db_kv db1) = disk"
    "node_db toy_env ?C {} {init_block} 1 db1" "durable ?C db1" by metis
  from restart_works [OF this(3,2,1)] obtain ns disk' where run:
    "run_node toy_env ?C ''state.db'' [] True True (Some some_key) 0 ''aura'' (Some 2) disk = Ret (Inr ns) disk'" by blast
  have key: "secret_of_hex toy_env some_key = Some (of_be_bytes (replicate 32 55))"
    using unhex_replicate [of 32 "CHR ''7''"] by (simp add: secret_of_hex_def)
  have other: "address_from_pubkey toy_env (PublicKey (ed_public toy_env (of_be_bytes (replicate 32 55)))) \<noteq>
      address_from_pubkey toy_env (kp_public (keypair_generate toy_env 0))"
    using two_addresses by (simp add: keypair_generate_def keypair_from_secret_bytes_def)
  from initialized_node_is_idle [OF data_codec_laws_sample account_codec_laws_toy refl dec init run key other] init run
  show ?thesis by blast
qed

theorem init_resets_height_witness:
  "\<exists>r db'. init_node toy_env (toy_codec init_block) 0 ''aura'' (Some 1) val_db = Ret r db' \<and>
     get_latest_height val_db = 1 \<and> get_latest_height db' = 0"
proof -
  obtain r db' where run: "init_node toy_env (toy_codec init_block) 0 ''aura'' (Some 1) val_db = Ret r db'"
    by (cases "apply_genesis toy_env (toy_codec init_block) (init_genesis toy_env 0 ''aura'' 1) val_db";
        cases "fst (apply_genesis toy_env (toy_codec init_block) (init_genesis toy_env 0 ''aura'' 1) val_db)")
       (auto simp: init_node_def)
  have dec: "block_dec (toy_codec init_block) (block_enc (toy_codec init_block) init_block) = Some init_block" by simp
  have other: "address_from_pubkey toy_env (PublicKey (of_be_bytes (replicate 32 55))) \<noteq>
      address_from_pubkey toy_env (kp_public (keypair_generate toy_env 0))"
    using two_addresses by (simp add: keypair_generate_def keypair_from_secret_bytes_def)
  have h: "h_height (b_header (sample_block [])) = 1" by (simp add: sample_block_def sample_header_def header_new_unsigned_def)
  have val: "get_latest_height val_db = 1" "kv_get (db_kv val_db) (height_key 2) = None"
    by (simp_all add: val_db_def commit_block_write_all get_latest_height_write_all kv_get_write_block h)
  from init_resets_height [OF om_ok_val_db account_codec_laws_toy refl dec run other, of 2] val run show ?thesis by simp
qed

end
