(* ===== verification/Commands.thy ===== *)
theory Commands
  imports System
begin

text \<open>
  The binary's \<open>main\<close> (\<open>aura-node/src/main.rs\<close>): what each command does with what was parsed,
  and the lines it prints. Parsing of the arguments is a third-party crate's; the log is not
  modelled.
\<close>

section \<open>The commands\<close>

text \<open>
  What a command meets: random draws, the clock, the file under the data directory, which of
  the writes to it fail, whether the directory can be made and the address bound, and the
  servers it can reach.
\<close>

record surroundings =
  su_phrase :: bytes
  su_key :: "256 word"
  su_clock :: "u64 option"
  su_faults :: "bool list"
  su_dir_ok :: bool
  su_listens :: bool
  su_server :: "string \<Rightarrow> string \<Rightarrow> string option"

text \<open>\<open>Path::join\<close> with a relative file name.\<close>

definition path_join :: "string \<Rightarrow> string \<Rightarrow> string" where
  "path_join dir file = (if dir = [] \<or> last dir = CHR ''/'' then dir @ file else dir @ CHR ''/'' # file)"

definition rule_line :: string where
  "rule_line = replicate 60 (CHR ''='')"

definition keygen_lines :: "string \<times> string \<times> string \<times> string \<Rightarrow> string list" where
  "keygen_lines out =
     (case out of (mnemonic, address, pubkey, secret) \<Rightarrow>
        [rule_line, ''   Aura Blockchain - Cryptographic Key Generation'', rule_line,
         ''Mnemonic:    '' @ mnemonic, ''Address:     '' @ address, ''Public Key:  '' @ pubkey,
         ''Secret Key:  '' @ secret, rule_line])"

definition sent_lines :: "env \<Rightarrow> transaction \<Rightarrow> string \<Rightarrow> string list" where
  "sent_lines E tx send_res =
     [rule_line, ''   Transaction Broadcasted Successfully!'', rule_line,
      ''Sender:    '' @ address_display E (tx_sender tx), ''Recipient: '' @ address_display E (tx_recipient tx),
      ''Amount:    '' @ show_nat (unat (tx_amount tx)) @ '' micro-AUR'',
      ''Fee:       '' @ show_nat (unat (tx_fee tx)) @ '' micro-AUR'', ''Nonce:     #'' @ show_nat (unat (tx_nonce tx)),
      ''Result:    '' @ send_res, rule_line]"

text \<open>
  A command ends with an error, or with the lines it has printed and, for \<open>run\<close>, the node
  that then serves. The state is the content of the data file.
\<close>

definition main_command ::
  "env \<Rightarrow> codec \<Rightarrow> 'j json_lib \<Rightarrow> 'm bip39 \<Rightarrow> surroundings \<Rightarrow> commands \<Rightarrow> bytes option \<Rightarrow>
     (node_error + string list \<times> node_sys option, bytes option) outcome" where
  "main_command E C J B su cmd disk =
     (case cmd of
        Keygen words \<Rightarrow>
          or_panic (keygen E B (su_phrase su) words) disk (\<lambda>r. case r of
            Inl e \<Rightarrow> Ret (Inl e) disk
          | Inr out \<Rightarrow> Ret (Inr (keygen_lines out, None)) disk)
      | Init data_dir chain_id \<Rightarrow>
          andThen (init_command E C (path_join data_dir ''state.db'') (su_faults su) (su_dir_ok su) (su_key su)
              chain_id (su_clock su) disk) (\<lambda>r disk. case r of
            Inl e \<Rightarrow> Ret (Inl e) disk
          | Inr state_root \<Rightarrow> Ret (Inr ([], None)) disk)
      | Run data_dir rpc_addr validator_key chain_id \<Rightarrow>
          andThen (run_node E C (path_join data_dir ''state.db'') (su_faults su) (su_dir_ok su) (su_listens su)
              validator_key (su_key su) chain_id (su_clock su) disk) (\<lambda>r disk. case r of
            Inl e \<Rightarrow> Ret (Inl e) disk
          | Inr ns \<Rightarrow> Ret (Inr ([], Some ns)) disk)
      | TxCommand (TxBalance address rpc_url) \<Rightarrow>
          (case tx_balance J (su_server su) address rpc_url of
             Inl e \<Rightarrow> Ret (Inl e) disk
           | Inr resp \<Rightarrow>
               Ret (Inr ([''Querying balance for '' @ address @ '' from '' @ rpc_url @ ''...'', ''Account Info: '' @ resp],
                 None)) disk)
      | TxCommand (TxSend from_secret to amount fee rpc_url) \<Rightarrow>
          or_panic (tx_send E J (su_server su) from_secret to amount fee rpc_url) disk (\<lambda>r. case r of
            Inl e \<Rightarrow> Ret (Inl e) disk
          | Inr (tx, send_res) \<Rightarrow> Ret (Inr (sent_lines E tx send_res, None)) disk))"

section \<open>Properties\<close>

text \<open>The wallet's commands and key generation leave the data file alone, however they end.\<close>

theorem wallet_keeps_disk:
  assumes "leaves (main_command E C J B su cmd disk) disk'"
    and "\<And>dir cid. cmd \<noteq> Init dir cid" and "\<And>dir addr key cid. cmd \<noteq> Run dir addr key cid"
  shows "disk' = disk"
proof (cases cmd)
  case (TxCommand action)
  with assms(1) show ?thesis
    by (cases action) (auto simp: main_command_def split: sum.split_asm dest!: leaves_or_panic)
next
  case (Keygen words)
  with assms(1) show ?thesis
    by (auto simp: main_command_def split: sum.split_asm dest!: leaves_or_panic)
qed (use assms in simp_all)

lemma keygen_parts:
  assumes "text_laws E" and "keygen E B drawn words = Some (Inr (mnemonic, address, pub, secret))"
  obtains sk where "secret_of_hex E secret = Some sk"
    and "address = address_display E (address_from_pubkey E (kp_public (keypair_from_secret_bytes E sk)))"
proof -
  from assms(2) obtain seed kp where kp: "derive_keypair E seed 0 0 0 = Inr kp"
    and out: "to_bech32 E (address_from_pubkey E (kp_public kp)) DEFAULT_HRP = Inr address"
      "secret = hex_encode E (be_bytes 32 (secret_bytes kp))"
    unfolding keygen_def by (auto split: sum.split_asm option.split_asm)
  from key_pair_printed [OF assms(1) kp out(1)] obtain sk where
    "secret_of_hex E secret = Some sk" "kp = keypair_from_secret_bytes E sk" by (auto simp: out(2))
  with out(1) show ?thesis by (intro that [of sk]) (simp_all add: address_display_def)
qed

lemma start_engine_key:
  assumes "start_engine E (Some secret) db mp cid = Some en" and "secret_of_hex E secret = Some sk"
  shows "\<exists>e. en = Some e \<and> en_address e = address_from_pubkey E (kp_public (keypair_from_secret_bytes E sk))"
  using assms by (auto simp: start_engine_def engine_new_def split: option.splits)

text \<open>
  The keys that are generated are the keys that run: a node started with the secret key that
  \<open>keygen\<close> printed has a validator engine, whose address is the one printed with it.
\<close>
theorem generated_key_runs:
  assumes "text_laws E"
    and "main_command E C J B su (Keygen words) disk = Ret (Inr (lines, none)) disk"
    and "lines ! 6 = ''Secret Key:  '' @ secret"
    and "main_command E C J B su' (Run data_dir rpc_addr (Some secret) chain_id) file = Ret (Inr (out, Some ns)) file'"
  shows "\<exists>en. ns_engine ns = Some en \<and> lines ! 4 = ''Address:     '' @ address_display E (en_address en)"
proof -
  obtain r where r: "keygen E B (su_phrase su) words = Some r"
    using assms(2) by (cases "keygen E B (su_phrase su) words") (simp_all add: main_command_def)
  with assms(2) obtain parts where parts: "r = Inr parts" "lines = keygen_lines parts"
    by (cases r) (simp_all add: main_command_def)
  obtain mnemonic address pub s where "parts = (mnemonic, address, pub, s)" by (cases parts)
  with r parts have gen: "keygen E B (su_phrase su) words = Some (Inr (mnemonic, address, pub, s))"
    and lines: "lines = keygen_lines (mnemonic, address, pub, s)" by simp_all
  then have s: "s = secret" using assms(3) by (simp add: keygen_lines_def)
  from keygen_parts [OF assms(1) gen] obtain sk where sk: "secret_of_hex E secret = Some sk"
    and addr: "address = address_display E (address_from_pubkey E (kp_public (keypair_from_secret_bytes E sk)))"
    unfolding s by blast
  let ?run = "run_node E C (path_join data_dir ''state.db'') (su_faults su') (su_dir_ok su') (su_listens su')
      (Some secret) (su_key su') chain_id (su_clock su') file"
  obtain q d where q: "?run = Ret q d" using assms(4) by (cases ?run) (simp_all add: main_command_def)
  with assms(4) have "?run = Ret (Inr ns) file'" by (cases q) (simp_all add: main_command_def)
  then obtain db where "start_engine E (Some secret) db (ns_pool ns) chain_id = Some (ns_engine ns)"
    by (auto simp: run_node_def Let_def or_panic_Ret_iff split: if_split_asm sum.split_asm outcome.split_asm)
  from start_engine_key [OF this sk] show ?thesis by (auto simp: lines keygen_lines_def addr)
qed

section \<open>Examples\<close>

definition sample_su :: surroundings where
  "sample_su = \<lparr>su_phrase = [], su_key = 0, su_clock = Some 1, su_faults = [], su_dir_ok = True, su_listens = True,
     su_server = (\<lambda>_ _. Some ''ok'')\<rparr>"

theorem wallet_keeps_disk_witness:
  "\<exists>r disk'. main_command toy_env (toy_codec b) sample_lib sample_bip39 sample_su
     (TxCommand (TxBalance ''aura1x'' ''http://node'')) (Some [1]) = Ret r disk' \<and> disk' = Some [1]"
proof -
  let ?m = "main_command toy_env (toy_codec b) sample_lib sample_bip39 sample_su
     (TxCommand (TxBalance ''aura1x'' ''http://node'')) (Some [1])"
  obtain r disk' where "?m = Ret r disk'"
    by (cases "tx_balance sample_lib (su_server sample_su) ''aura1x'' ''http://node''") (auto simp: main_command_def)
  with wallet_keeps_disk [of toy_env "toy_codec b" sample_lib sample_bip39 sample_su
      "TxCommand (TxBalance ''aura1x'' ''http://node'')" "Some [1]" disk'] show ?thesis by simp
qed

end
