(* ===== verification/Payment.thy ===== *)
theory Payment
  imports Engine
begin

text \<open>
  From the mempool to the ledger: what becomes of a transaction the mempool took, when the
  engine proposes its harvest and commits it. This composes the validation and the pool of
  \<open>aura-mempool\<close>, the proposal and the commit of \<open>aura-consensus\<close>, the execution loop and the
  state database.
\<close>

section \<open>The pool after plain additions\<close>

text \<open>An addition that replaces nothing and evicts nothing.\<close>

lemma add_plain:
  assumes inv: "mp_inv E mp" and run: "add_transaction E C db tx mp = Ret (Inr h) mp'"
    and "sender_lookup mp (tx_sender tx) (tx_nonce tx) = None" and "\<not> over_capacity (size_bytes tx) mp"
  shows "h = tx_hash E tx" and "validate_stateless E tx = Inr ()"
    and "validate_stateful E tx (get_account C db (tx_sender tx)) = Some (Inr ())"
    and "set (by_hash mp') = insert (h, tx) (set (by_hash mp))" and "hm_get (by_hash mp) h = None"
    and "pool_size (by_hash mp') = pool_size (by_hash mp) + size_bytes tx"
    and "length (by_hash mp') = length (by_hash mp) + 1"
    and "mp_inv E mp'" and "mp_config mp' = mp_config mp"
proof -
  from run obtain mp1 mp2 where r: "validate_stateless E tx = Inr ()" "h = tx_hash E tx"
    "hm_get (by_hash mp) h = None"
    "validate_stateful E tx (get_account C db (tx_sender tx)) = Some (Inr ())"
    "rbf_check E tx mp = Ret (Inr ()) mp1" "make_room E tx (size_bytes tx) mp1 = Ret (Inr ()) mp2"
    "mp' = insert_transaction h tx (size_bytes tx) mp2" by (rule add_transaction_InrD)
  have mp1: "mp1 = touch_sender (tx_sender tx) mp" using rbf_check_Ret [OF inv r(5)] assms(3) by simp
  have "make_room E tx (size_bytes tx) mp1 = Ret (Inr ()) mp1"
    using assms(4) by (simp add: make_room_def make_room_loop.simps over_capacity_def mp1)
  then have mp': "mp' = insert_transaction h tx (size_bytes tx) (touch_sender (tx_sender tx) mp)"
    using r(6,7) by (simp add: mp1)
  note new = hm_insert_fresh [OF r(3), of tx]
  show "h = tx_hash E tx" "validate_stateless E tx = Inr ()" "hm_get (by_hash mp) h = None"
    "validate_stateful E tx (get_account C db (tx_sender tx)) = Some (Inr ())" by (fact r)+
  show "set (by_hash mp') = insert (h, tx) (set (by_hash mp))" "mp_config mp' = mp_config mp"
    "pool_size (by_hash mp') = pool_size (by_hash mp) + size_bytes tx"
    "length (by_hash mp') = length (by_hash mp) + 1"
    by (simp_all add: mp' new pool_size_def)
  show "mp_inv E mp'"
    unfolding mp' r(2) using inv r(1-3) assms(3) by (intro mp_inv_insert mp_inv_touch) simp_all
qed

text \<open>A harvest with room for the whole pool takes all of it.\<close>

lemma harvest_all:
  assumes inv: "mp_inv E mp" and room: "pool_size (by_hash mp) \<le> limit"
  shows "set (harvest limit mp) = snd ` set (by_hash mp)" and "distinct (harvest limit mp)"
proof -
  have sorted: "sorted_wrt (\<lambda>t u. entry_key E u < entry_key E t) (harvest limit mp)"
    by (rule harvest_sorted [OF inv])
  have "distinct xs" if "sorted_wrt (\<lambda>t u. entry_key E u < entry_key E t) xs" for xs
    using that by (induction xs) auto
  then show dist: "distinct (harvest limit mp)" using sorted by blast
  have sub: "set (harvest limit mp) \<subseteq> snd ` set (by_hash mp)"
    using harvest_valid(2) [OF inv] mp_inv_get [OF inv] by (force simp: get_transaction_def)
  have keys: "distinct (map fst (by_hash mp))" using mp_invD(1) [OF inv] by (simp add: hm_ok_def)
  have inj: "inj_on snd (set (by_hash mp))"
  proof (rule inj_onI)
    fix p q assume "p \<in> set (by_hash mp)" "q \<in> set (by_hash mp)" "snd p = snd q"
    then show "p = q" using mp_invD(4) [OF inv] by (metis prod.collapse)
  qed
  have "distinct (by_hash mp)" using keys by (simp add: distinct_map)
  then have total: "sum size_bytes (snd ` set (by_hash mp)) = pool_size (by_hash mp)"
    by (simp add: sum.reindex [OF inj] pool_size_def sum.distinct_set_conv_list comp_def)
  have "tx \<in> set (harvest limit mp)" if tx: "tx \<in> snd ` set (by_hash mp)" for tx
  proof (rule ccontr)
    assume out: "tx \<notin> set (harvest limit mp)"
    from tx obtain h where h: "(h, tx) \<in> set (by_hash mp)" by auto
    then have "priority_key_of h tx \<in> set (rev (priority_index mp))"
      by (force simp: mp_invD(5) [OF inv])
    from harvest_loop_greedy [OF this, of mp tx limit 0] h out
    have "limit < size_sum (harvest limit mp) + size_bytes tx"
      by (simp add: harvest_def priority_key_of_def mp_inv_get [OF inv])
    also have "\<dots> = sum size_bytes (insert tx (set (harvest limit mp)))"
      using out dist by (simp add: size_sum_def sum.distinct_set_conv_list)
    also have "\<dots> \<le> sum size_bytes (snd ` set (by_hash mp))"
      using sub tx by (intro sum_mono2) auto
    finally show False using room total by simp
  qed
  with sub show "set (harvest limit mp) = snd ` set (by_hash mp)" by blast
qed

lemma stateless_size: "validate_stateless E tx = Inr () \<Longrightarrow> size_bytes tx \<le> 131072"
  by (simp add: validate_stateless_def Let_def MAX_TRANSACTION_SIZE_def split: if_splits)

abbreviation new_pool :: mempool where
  "new_pool \<equiv> mempool_new mempool_config_default"

lemma new_pool_facts:
  "mp_inv E new_pool" "by_hash new_pool = []" "sender_lookup new_pool a n = None"
  "mp_config new_pool = mempool_config_default" "total_bytes new_pool = 0"
  using mp_inv_new [of E mempool_config_default]
  by (simp_all add: mempool_new_def sender_lookup_def hm_get_def)

lemma roomy:
  assumes "mp_inv E mp" and "mp_config mp = mempool_config_default" and "length (by_hash mp) < 10000"
    and "pool_size (by_hash mp) + sz \<le> 10485760"
  shows "\<not> over_capacity sz mp"
  using assms mp_invD(7) [OF assms(1)] by (simp add: over_capacity_def mempool_config_default_def)

lemma no_nonce:
  assumes "mp_inv E mp" and "\<And>h t. (h, t) \<in> set (by_hash mp) \<Longrightarrow> tx_sender t \<noteq> a \<or> tx_nonce t \<noteq> n"
  shows "sender_lookup mp a n = None"
proof (cases "sender_lookup mp a n")
  case (Some t)
  then have "(tx_hash E t, t) \<in> set (by_hash mp)" "tx_sender t = a" "tx_nonce t = n" using mp_invD(6) [OF assms(1)] by auto
  with assms(2) show ?thesis by blast
qed simp

section \<open>From the proposal to the accounts\<close>

lemma write_all_ledger:
  assumes "engine_execute_all E C db txs [] = Some ov" and "om_ok (kv_map (db_kv db))" and "account_codec_laws C"
  shows "get_account C (write_all E C ov b n db) = fold ledger_step txs (get_account C db)"
proof
  fix a
  from engine_execute_all_step [OF assms(1)]
  have "overlay_get C ov db = fold ledger_step txs (get_account C db)" "hm_ok ov" by (simp_all add: hm_ok_def)
  moreover have "get_account C (write_all E C ov b n db) a = overlay_get C ov db a"
    using assms(2,3) \<open>hm_ok ov\<close>
    by (simp add: get_account_write_all account_codec_laws_def map_of_rev_hm overlay_get_def)
  ultimately show "get_account C (write_all E C ov b n db) a = fold ledger_step txs (get_account C db) a" by simp
qed

text \<open>
  A commit that returns, or waits for ever in the mempool: the block is stored either way. With
  the documented lock a block that holds a pooled transaction makes it wait.
\<close>

lemma commit_ledger:
  assumes "returned_or_blocked (commit_proposed E C (block_hash E b) en) en'" and "proposed_block en = Some b"
    and "om_ok (kv_map (db_kv (en_db en)))" and "account_codec_laws C"
  shows "get_account C (en_db en') = fold ledger_step (b_transactions b) (get_account C (en_db en))"
    and "get_latest_height (en_db en') = h_height (b_header b)"
    and "commit_proposed E C (block_hash E b) en = Ret u en' \<Longrightarrow>
      remove_committed E (b_transactions b) (en_pool en) = Ret () (en_pool en')"
    and "exclusive_writes (locks E) \<Longrightarrow> tx \<in> set (b_transactions b) \<Longrightarrow> get_transaction (tx_hash E tx) (en_pool en) \<noteq> None \<Longrightarrow>
      commit_proposed E C (block_hash E b) en = Blocked en'"
proof -
  obtain ov mp where ov: "engine_execute_all E C (en_db en) (b_transactions b) [] = Some ov"
    and en': "en' = en\<lparr>en_db := write_all E C ov b (h_height (b_header b)) (en_db en), en_pool := mp\<rparr>"
    and how: "(remove_committed E (b_transactions b) (en_pool en) = Ret () mp \<and> commit_proposed E C (block_hash E b) en = Ret () en') \<or>
     (remove_committed E (b_transactions b) (en_pool en) = Blocked mp \<and> commit_proposed E C (block_hash E b) en = Blocked en')"
    by (rule commit_proposed_stored [OF assms(1,2) refl])
  show "get_account C (en_db en') = fold ledger_step (b_transactions b) (get_account C (en_db en))"
    using write_all_ledger [OF ov assms(3,4)] by (simp add: en')
  show "get_latest_height (en_db en') = h_height (b_header b)"
    by (simp add: en' get_latest_height_write_all [OF assms(3)])
  show "commit_proposed E C (block_hash E b) en = Ret u en' \<Longrightarrow>
      remove_committed E (b_transactions b) (en_pool en) = Ret () (en_pool en')"
    using how by (auto simp: en')
  assume "exclusive_writes (locks E)" "tx \<in> set (b_transactions b)" "get_transaction (tx_hash E tx) (en_pool en) \<noteq> None"
  then have "\<exists>mp'. remove_committed E (b_transactions b) (en_pool en) = Blocked mp'"
    using remove_committed_deadlock [of E "b_transactions b" "en_pool en"] by (auto simp: list_all_iff split: if_splits)
  with how show "commit_proposed E C (block_hash E b) en = Blocked en'" by auto
qed

lemma proposed_harvest:
  assumes "create_proposal E C now en = Ret (Inr b) en1"
  shows "b_transactions b = harvest (1024 * 1024) (en_pool en)" and "proposed_block en1 = Some b"
    and "en_db en1 = en_db en" and "en_pool en1 = en_pool en"
  using create_proposal_Ret [OF assms] by (cases; simp)+

text \<open>What the additions leave, when a new pool takes one transaction, or two of different nonces.\<close>

lemma one_pooled:
  assumes "add_transaction E C db tx new_pool = Ret (Inr h) mp"
  shows "h = tx_hash E tx" and "validate_stateful E tx (get_account C db (tx_sender tx)) = Some (Inr ())"
    and "mp_inv E mp" and "set (by_hash mp) = {(h, tx)}" and "harvest (1024 * 1024) mp = [tx]"
    and "pool_size (by_hash mp) \<le> 131072" and "length (by_hash mp) = 1" and "mp_config mp = mempool_config_default"
    and "validate_stateless E tx = Inr ()"
proof -
  have sz: "size_bytes tx \<le> 131072"
    using add_transaction_InrD [OF assms] stateless_size by metis
  have "\<not> over_capacity (size_bytes tx) new_pool"
    by (rule roomy [OF new_pool_facts(1)]) (use sz in \<open>simp_all add: new_pool_facts pool_size_def\<close>)
  note add = add_plain [OF new_pool_facts(1) assms new_pool_facts(3) this, unfolded new_pool_facts]
  show "h = tx_hash E tx" "validate_stateful E tx (get_account C db (tx_sender tx)) = Some (Inr ())"
    "mp_inv E mp" "mp_config mp = mempool_config_default" "validate_stateless E tx = Inr ()"
    by (fact add)+
  show h: "set (by_hash mp) = {(h, tx)}" and l: "length (by_hash mp) = 1" using add(4,7) by simp_all
  show p: "pool_size (by_hash mp) \<le> 131072" using add(6) sz by (simp add: pool_size_def)
  then have "set (harvest (1024 * 1024) mp) = {tx}" "distinct (harvest (1024 * 1024) mp)"
    using harvest_all [OF add(8), of "1024 * 1024"] h by simp_all
  then show "harvest (1024 * 1024) mp = [tx]" by (intro distinct_singleton)
qed

lemma two_pooled:
  assumes t: "add_transaction E C db t new_pool = Ret (Inr h) mp1"
    and u: "add_transaction E C db u mp1 = Ret (Inr g) mp" and n: "tx_sender t \<noteq> tx_sender u \<or> tx_nonce t \<noteq> tx_nonce u"
  shows "validate_stateful E t (get_account C db (tx_sender t)) = Some (Inr ())"
    and "validate_stateful E u (get_account C db (tx_sender u)) = Some (Inr ())"
    and "harvest (1024 * 1024) mp \<in> {[t, u], [u, t]}" and "mp_inv E mp" and "length (by_hash mp) = 2"
proof -
  note one = one_pooled [OF t]
  show "validate_stateful E t (get_account C db (tx_sender t)) = Some (Inr ())" by (rule one(2))
  have sz: "size_bytes u \<le> 131072" using add_transaction_InrD [OF u] stateless_size by metis
  have "sender_lookup mp1 (tx_sender u) (tx_nonce u) = None"
    by (rule no_nonce [OF one(3)]) (use one(4) n in simp)
  moreover have "\<not> over_capacity (size_bytes u) mp1"
    by (rule roomy [OF one(3,8)]) (use one(6,7) sz in simp_all)
  ultimately have add: "validate_stateful E u (get_account C db (tx_sender u)) = Some (Inr ())"
    "set (by_hash mp) = {(h, t), (g, u)}" "mp_inv E mp" "pool_size (by_hash mp) \<le> 1024 * 1024"
    "length (by_hash mp) = 2"
    using add_plain(3,4,6,7,8) [OF one(3) u] one(4,6,7) sz by auto
  show "validate_stateful E u (get_account C db (tx_sender u)) = Some (Inr ())" "mp_inv E mp"
    "length (by_hash mp) = 2" by (fact add)+
  have "set (harvest (1024 * 1024) mp) = {t, u}" "distinct (harvest (1024 * 1024) mp)"
    using harvest_all [OF add(3,4)] add(2) by auto
  moreover have "t \<noteq> u" using n by auto
  moreover have "xs \<in> {[t, u], [u, t]}" if xs: "set xs = {t, u}" "distinct xs" "t \<noteq> u" for xs
  proof -
    have "length xs = 2" using distinct_card [OF xs(2)] xs(1,3) by simp
    then obtain x y where "xs = [x, y]" by (auto simp: numeral_2_eq_2 length_Suc_conv)
    with xs show ?thesis by auto
  qed
  ultimately show "harvest (1024 * 1024) mp \<in> {[t, u], [u, t]}" by blast
qed

text \<open>What an addition needs to succeed.\<close>

lemma add_goes_through:
  assumes "validate_stateless E tx = Inr ()" and "validate_stateful E tx (get_account C db (tx_sender tx)) = Some (Inr ())"
    and "hm_get (by_hash mp) (tx_hash E tx) = None" and "sender_lookup mp (tx_sender tx) (tx_nonce tx) = None"
    and "\<not> over_capacity (size_bytes tx) mp"
  shows "\<exists>mp'. add_transaction E C db tx mp = Ret (Inr (tx_hash E tx)) mp'"
proof -
  let ?mp = "touch_sender (tx_sender tx) mp"
  have "rbf_check E tx mp = Ret (Inr ()) ?mp"
    using assms(4) by (simp add: rbf_check_def Let_def touch_sender_def sender_lookup_def split: option.splits)
  moreover have "make_room E tx (size_bytes tx) ?mp = Ret (Inr ()) ?mp"
    using assms(5) by (simp add: make_room_def make_room_loop.simps over_capacity_def)
  ultimately show ?thesis using assms(1-3) by (simp add: add_transaction_def Let_def)
qed

lemma add_succeeds:
  assumes "validate_stateless E tx = Inr ()" and "validate_stateful E tx (get_account C db (tx_sender tx)) = Some (Inr ())"
    and "mp_inv E mp" and "by_hash mp = []" and "mp_config mp = mempool_config_default"
  shows "\<exists>mp'. add_transaction E C db tx mp = Ret (Inr (tx_hash E tx)) mp' \<and> harvest (1024 * 1024) mp' = [tx]"
proof -
  have none: "sender_lookup mp (tx_sender tx) (tx_nonce tx) = None"
    by (rule no_nonce [OF assms(3)]) (simp add: assms(4))
  have fit: "\<not> over_capacity (size_bytes tx) mp"
    using stateless_size [OF assms(1)] assms(4) by (intro roomy [OF assms(3,5)]) (simp_all add: pool_size_def)
  have "hm_get (by_hash mp) (tx_hash E tx) = None" by (simp add: assms(4) hm_get_def)
  from add_goes_through [OF assms(1,2) this none fit] obtain mp' where
    run: "add_transaction E C db tx mp = Ret (Inr (tx_hash E tx)) mp'" by blast
  note add = add_plain [OF assms(3) run none fit]
  have "pool_size (by_hash mp') \<le> 1024 * 1024" "set (by_hash mp') = {(tx_hash E tx, tx)}"
    using add(4,6) stateless_size [OF assms(1)] assms(4) by (simp_all add: pool_size_def)
  with harvest_all [OF add(8)] have "set (harvest (1024 * 1024) mp') = {tx}" "distinct (harvest (1024 * 1024) mp')"
    by (metis image_empty image_insert snd_conv)+
  then have "harvest (1024 * 1024) mp' = [tx]" by (intro distinct_singleton)
  with run show ?thesis by blast
qed

lemma remove_committed_config: "remove_committed E txs mp = Ret r mp' \<Longrightarrow> mp_config mp' = mp_config mp"
proof (induction txs arbitrary: mp)
  case (Cons tx txs)
  then obtain v mp1 where e: "evict_transaction E (tx_hash E tx) mp = Ret v mp1" "remove_committed E txs mp1 = Ret r mp'"
    by (auto simp: andThen_Ret_iff)
  have "mp_config mp1 = mp_config mp"
    using e(1) by (auto simp: evict_transaction_eq split: option.split_asm if_split_asm)
  with Cons.IH [OF e(2)] show ?case by simp
qed simp

lemma accepted_nonce:
  assumes "validate_stateful E tx acc = Some (Inr ())" and "balance acc \<noteq> - 1"
  shows "nonce acc < tx_nonce tx" and "unat (tx_amount tx) + unat (tx_fee tx) \<le> unat (balance acc)"
  using assms(1) sat_add_le_iff [OF assms(2), of "tx_amount tx" "tx_fee tx"]
  by (auto simp: validate_stateful_def Let_def map_option_case not_le split: if_splits option.splits)

lemma settled_transfer:
  assumes "tx_type tx = Transfer" and "tx_sender tx \<noteq> tx_recipient tx"
    and "unat (tx_amount tx) + unat (tx_fee tx) \<le> unat (balance (L (tx_sender tx)))"
    and "unat (balance (L (tx_recipient tx))) + unat (tx_amount tx) < 2 ^ 64"
  shows "unat (balance (ledger_step tx L (tx_sender tx))) + unat (tx_amount tx) + unat (tx_fee tx) =
      unat (balance (L (tx_sender tx)))"
    and "unat (balance (ledger_step tx L (tx_recipient tx))) = unat (balance (L (tx_recipient tx))) + unat (tx_amount tx)"
    and "a \<notin> {tx_sender tx, tx_recipient tx} \<Longrightarrow> ledger_step tx L a = L a"
  using assms unat_total_deduct [OF assms(3)]
  by (simp_all add: ledger_step_def debit_def credit_def unat_sat_sub unat_sat_add)

section \<open>Properties\<close>

text \<open>
  C8: a payment settles: a transfer that a new mempool takes is the whole of the next
  proposal, and when the engine commits that proposal, whether the commit returns or waits for
  ever for the mempool, the recipient has the amount, the sender has paid amount and fee, its
  nonce is one higher, and every other account is as before. If the commit returns the
  transaction has left the pool; with the lock the crate documents it does not return.
\<close>
theorem payment_settles:
  assumes "account_codec_laws C" and "om_ok (kv_map (db_kv (en_db en)))"
    and "add_transaction E C (en_db en) tx (mempool_new mempool_config_default) = Ret (Inr h) (en_pool en)"
    and "tx_type tx = Transfer" and "tx_sender tx \<noteq> tx_recipient tx"
    and "balance (get_account C (en_db en) (tx_sender tx)) \<noteq> - 1"
    and "unat (balance (get_account C (en_db en) (tx_recipient tx))) + unat (tx_amount tx) < 2 ^ 64"
    and "create_proposal E C now en = Ret (Inr b) en1"
    and "returned_or_blocked (commit_proposed E C (block_hash E b) en1) en2"
  shows "b_transactions b = [tx] \<and>
    unat (balance (get_account C (en_db en2) (tx_sender tx))) + unat (tx_amount tx) + unat (tx_fee tx) =
      unat (balance (get_account C (en_db en) (tx_sender tx))) \<and>
    unat (balance (get_account C (en_db en2) (tx_recipient tx))) =
      unat (balance (get_account C (en_db en) (tx_recipient tx))) + unat (tx_amount tx) \<and>
    nonce (get_account C (en_db en2) (tx_sender tx)) = nonce (get_account C (en_db en) (tx_sender tx)) + 1 \<and>
    (\<forall>a. a \<notin> {tx_sender tx, tx_recipient tx} \<longrightarrow> get_account C (en_db en2) a = get_account C (en_db en) a) \<and>
    (commit_proposed E C (block_hash E b) en1 = Ret u en2 \<longrightarrow> get_transaction h (en_pool en2) = None) \<and>
    (exclusive_writes (locks E) \<longrightarrow> commit_proposed E C (block_hash E b) en1 = Blocked en2)"
proof -
  let ?L = "get_account C (en_db en)"
  note one = one_pooled [OF assms(3)] and proposal = proposed_harvest [OF assms(8)]
  have b: "b_transactions b = [tx]" using one(5) proposal(1) by simp
  have om: "om_ok (kv_map (db_kv (en_db en1)))" using assms(2) proposal(3) by simp
  note commit = commit_ledger [OF assms(9) proposal(2) om assms(1)]
  have L: "get_account C (en_db en2) = ledger_step tx ?L" using commit(1) b proposal(3) by simp
  have "get_transaction h (en_pool en2) = None" if "commit_proposed E C (block_hash E b) en1 = Ret u en2"
    using remove_committed_keeps [OF one(3), of "[tx]"] commit(3) [OF that] one(1) b proposal(4)
    by (simp add: get_transaction_def)
  moreover have "get_transaction (tx_hash E tx) (en_pool en1) \<noteq> None"
    using one(1,4) mp_inv_get [OF one(3), of h tx] by (simp add: proposal(4) get_transaction_def)
  ultimately show ?thesis
    using settled_transfer [OF assms(4,5) accepted_nonce(2) [OF one(2) assms(6)] assms(7)] commit(4) [of tx] b
    by (simp add: L nonce_step)
qed

lemma replay_valid:
  assumes "validate_stateless E tx = Inr ()" and "validate_stateful E tx acc = Some (Inr ())"
    and "tx_type tx = Transfer" and "unat (nonce acc) + 1 < unat (tx_nonce tx)" and "unat (nonce acc) + 65 < 2 ^ 64"
    and "2 * (unat (tx_amount tx) + unat (tx_fee tx)) \<le> unat (balance acc)"
    and "unat (balance acc2) + unat (tx_amount tx) + unat (tx_fee tx) = unat (balance acc)"
    and "nonce acc2 = nonce acc + 1"
  shows "validate_stateful E tx acc2 = Some (Inr ())"
proof -
  have n: "unat (nonce acc2) = unat (nonce acc) + 1" using assms(5,8) by (simp add: unat_plus_small)
  have "100 \<le> unat (tx_fee tx)"
    using assms(1) by (auto simp: validate_stateless_def Let_def MIN_TRANSACTION_FEE_def word_less_nat_alt split: if_splits)
  with assms(7) unat_bound [of "balance acc"] have "unat (balance acc2) < 2 ^ 64 - 1" by simp
  then have "balance acc2 \<noteq> - 1" by (auto simp: unsigned_minus_1_eq_mask mask_eq_exp_minus_1)
  note sat = sat_add_le_iff [OF this]
  have "unat (tx_nonce tx) \<le> unat (nonce acc) + 64"
    using assms(2) validate_stateful_accepts [of acc E tx] assms(5) by simp
  then show ?thesis
    using validate_stateful_accepts [of acc2 E tx] n assms(3-7) sat by (auto simp: word_less_nat_alt)
qed

text \<open>
  C27: a nonce with a gap can be replayed: the mempool accepts any of the next 64 nonces, but
  a commit moves the account's nonce by one only. So once a transfer that skipped a nonce is
  committed (the commit returning, or waiting for ever in the mempool), a new mempool over the
  resulting state, that of a node restarted or of another node, accepts it again, from anyone
  who saw it, as long as the sender can pay; and so does the same mempool if the commit returned.
\<close>
theorem gapped_transfer_replays:
  assumes "account_codec_laws C" and "om_ok (kv_map (db_kv (en_db en)))"
    and "add_transaction E C (en_db en) tx (mempool_new mempool_config_default) = Ret (Inr h) (en_pool en)"
    and "tx_type tx = Transfer" and "tx_sender tx \<noteq> tx_recipient tx"
    and "balance (get_account C (en_db en) (tx_sender tx)) \<noteq> - 1"
    and "unat (balance (get_account C (en_db en) (tx_recipient tx))) + unat (tx_amount tx) < 2 ^ 64"
    and "create_proposal E C now en = Ret (Inr b) en1"
    and "returned_or_blocked (commit_proposed E C (block_hash E b) en1) en2"
    and "unat (nonce (get_account C (en_db en) (tx_sender tx))) + 1 < unat (tx_nonce tx)"
    and "unat (nonce (get_account C (en_db en) (tx_sender tx))) + 65 < 2 ^ 64"
    and "2 * (unat (tx_amount tx) + unat (tx_fee tx)) \<le> unat (balance (get_account C (en_db en) (tx_sender tx)))"
  shows "(\<exists>mp. add_transaction E C (en_db en2) tx (mempool_new mempool_config_default) = Ret (Inr h) mp \<and>
      harvest (1024 * 1024) mp = [tx]) \<and>
    (commit_proposed E C (block_hash E b) en1 = Ret u en2 \<longrightarrow>
      (\<exists>mp. add_transaction E C (en_db en2) tx (en_pool en2) = Ret (Inr h) mp \<and> harvest (1024 * 1024) mp = [tx]))"
proof -
  let ?L = "get_account C (en_db en)"
  note one = one_pooled [OF assms(3)] and proposal = proposed_harvest [OF assms(8)]
  have b: "b_transactions b = [tx]" using one(5) proposal(1) by simp
  have om: "om_ok (kv_map (db_kv (en_db en1)))" using assms(2) proposal(3) by simp
  note commit = commit_ledger [OF assms(9) proposal(2) om assms(1)]
  have L: "get_account C (en_db en2) = ledger_step tx ?L" using commit(1) b proposal(3) by simp
  have valid: "validate_stateful E tx (get_account C (en_db en2) (tx_sender tx)) = Some (Inr ())"
    by (rule replay_valid [OF one(9,2) assms(4,10,11,12)])
       (use settled_transfer [OF assms(4,5) accepted_nonce(2) [OF one(2) assms(6)] assms(7)] assms(4,5)
         in \<open>simp_all add: L nonce_step\<close>)
  note again = add_succeeds [OF one(9) valid]
  have "\<exists>mp. add_transaction E C (en_db en2) tx (en_pool en2) = Ret (Inr h) mp \<and> harvest (1024 * 1024) mp = [tx]"
    if "commit_proposed E C (block_hash E b) en1 = Ret u en2"
  proof -
    have pool: "remove_committed E [tx] (en_pool en) = Ret () (en_pool en2)" using commit(3) [OF that] b proposal(4) by simp
    have inv: "mp_inv E (en_pool en2)" and gone: "set (by_hash (en_pool en2)) \<subseteq> {(h, tx)}"
        "hm_get (by_hash (en_pool en2)) (tx_hash E tx) = None"
      using remove_committed_keeps [OF one(3) pool] one(4) by simp_all
    have "(h, tx) \<notin> set (by_hash (en_pool en2))" using gone(2) one(1) mp_inv_get [OF inv, of h tx] by simp
    with subset_singletonD [OF gone(1)] have "set (by_hash (en_pool en2)) = {}" by (metis singletonI)
    then have "by_hash (en_pool en2) = []" by (simp only: set_empty)
    moreover have "mp_config (en_pool en2) = mempool_config_default"
      using remove_committed_config [OF pool] one(8) by simp
    ultimately show ?thesis using again [OF inv] by (simp add: one(1))
  qed
  with again [OF new_pool_facts(1,2,4)] show ?thesis by (simp add: one(1))
qed

lemma covered_transfer:
  assumes "tx_type tx = Transfer"
  shows "covered tx L \<longleftrightarrow> unat (tx_amount tx) + unat (tx_fee tx) \<le> unat (balance (L (tx_sender tx))) \<and>
    unat (balance (L (tx_recipient tx))) + unat (tx_amount tx) < 2 ^ 64"
  using assms by (simp add: covered_def)

text \<open>A transfer its sender cannot cover, as a step of the ledger.\<close>

lemma uncovered_step:
  assumes "tx_type tx = Transfer" and "tx_sender tx \<noteq> tx_recipient tx"
    and "unat (tx_amount tx) + unat (tx_fee tx) < 2 ^ 64"
    and "unat (balance (L (tx_sender tx))) < unat (tx_amount tx) + unat (tx_fee tx)"
    and "unat (balance (L (tx_recipient tx))) + unat (tx_amount tx) < 2 ^ 64"
  shows "total_supply (ledger_step tx L) + unat (balance (L (tx_sender tx))) = total_supply L + unat (tx_amount tx)"
proof -
  let ?M = "ledger_step tx L" and ?rest = "UNIV - {tx_sender tx, tx_recipient tx}"
  have d: "unat (tx_amount tx + tx_fee tx) = unat (tx_amount tx) + unat (tx_fee tx)"
    using assms(3) by (intro unat_plus_small) simp
  have "holdings (?M (tx_sender tx)) + unat (balance (L (tx_sender tx))) = holdings (L (tx_sender tx))"
    using assms(1,4) d by (simp add: ledger_step_def debit_def holdings_def sat_sub_def word_le_nat_alt)
  moreover have "holdings (?M (tx_recipient tx)) = holdings (L (tx_recipient tx)) + unat (tx_amount tx)"
    using assms(1,2,5) by (simp add: ledger_step_def credit_def holdings_def unat_sat_add)
  moreover have "(\<Sum>x\<in>?rest. holdings (?M x)) = (\<Sum>x\<in>?rest. holdings (L x))"
    by (rule sum.cong) (auto simp: ledger_step_other)
  ultimately show ?thesis
    using supply_remove2 [OF assms(2), of L] supply_remove2 [OF assms(2), of ?M] by simp
qed

lemma two_transfers:
  assumes t: "tx_type t = Transfer" "tx_sender t = s" "tx_recipient t \<noteq> s"
      "unat (tx_amount t) + unat (tx_fee t) \<le> unat (balance (L s))"
    and u: "tx_type u = Transfer" "tx_sender u = s" "tx_recipient u \<noteq> s"
      "unat (tx_amount u) + unat (tx_fee u) \<le> unat (balance (L s))"
    and short: "unat (balance (L s)) < unat (tx_amount t) + unat (tx_fee t) + unat (tx_amount u) + unat (tx_fee u)"
    and room: "unat (balance (L (tx_recipient t))) + unat (balance (L (tx_recipient u))) +
      unat (tx_amount t) + unat (tx_amount u) < 2 ^ 64"
  shows "total_supply (ledger_step u (ledger_step t L)) + unat (balance (L s)) =
    total_supply L + unat (tx_amount t) + unat (tx_amount u)"
proof -
  let ?M = "ledger_step t L"
  have cov: "covered t L" using t room by (simp add: covered_transfer)
  note paid = settled_transfer [OF t(1), of L]
  have s: "unat (balance (?M s)) + unat (tx_amount t) + unat (tx_fee t) = unat (balance (L s))"
    using paid(1) t room by auto
  have "unat (balance (?M (tx_recipient u))) \<le> unat (balance (L (tx_recipient u))) + unat (tx_amount t)"
    using paid(2,3) t u(3) room by (cases "tx_recipient u = tx_recipient t") auto
  then have r: "unat (balance (?M (tx_recipient u))) + unat (tx_amount u) < 2 ^ 64" using room by simp
  have "total_supply (ledger_step u ?M) + unat (balance (?M s)) = total_supply ?M + unat (tx_amount u)"
    using uncovered_step [OF u(1), of ?M] u(2-4) s short r unat_bound [of "balance (L s)"] by simp
  moreover have "total_supply ?M + unat (tx_fee t) = total_supply L"
    using supply_step [OF cov] t by (simp add: burned_def)
  ultimately show ?thesis using s by simp
qed

text \<open>
  C26: double spending creates money: two transfers of one sender that the balance covers one at
  a time but not together are both taken by a new mempool, which compares each with the stored
  account only. They are proposed in one block, and committing it, whether the commit returns or
  waits for ever in the mempool (as it does with the documented lock), leaves more in existence
  than before by whatever their amounts exceed the balance.
\<close>
theorem double_spend_mints:
  assumes "account_codec_laws C" and "om_ok (kv_map (db_kv (en_db en)))"
    and "add_transaction E C (en_db en) t (mempool_new mempool_config_default) = Ret (Inr h) mp"
    and "add_transaction E C (en_db en) u mp = Ret (Inr g) (en_pool en)"
    and "tx_type t = Transfer" and "tx_type u = Transfer"
    and "tx_sender t = s" and "tx_sender u = s" and "tx_recipient t \<noteq> s" and "tx_recipient u \<noteq> s"
    and "tx_nonce t \<noteq> tx_nonce u" and "balance (get_account C (en_db en) s) \<noteq> - 1"
    and "unat (balance (get_account C (en_db en) s)) <
      unat (tx_amount t) + unat (tx_fee t) + unat (tx_amount u) + unat (tx_fee u)"
    and "unat (balance (get_account C (en_db en) (tx_recipient t))) +
      unat (balance (get_account C (en_db en) (tx_recipient u))) + unat (tx_amount t) + unat (tx_amount u) < 2 ^ 64"
    and "create_proposal E C now en = Ret (Inr b) en1"
    and "returned_or_blocked (commit_proposed E C (block_hash E b) en1) en2"
  shows "total_supply (get_account C (en_db en2)) + unat (balance (get_account C (en_db en) s)) =
    total_supply (get_account C (en_db en)) + unat (tx_amount t) + unat (tx_amount u)"
proof -
  let ?L = "get_account C (en_db en)"
  note two = two_pooled [OF assms(3,4) disjI2 [OF assms(11)]] and proposal = proposed_harvest [OF assms(15)]
  have b: "b_transactions b \<in> {[t, u], [u, t]}" using two(3) proposal(1) by simp
  from commit_ledger(1) [OF assms(16) proposal(2) _ assms(1)] assms(2) proposal(3)
  have L: "get_account C (en_db en2) = fold ledger_step (b_transactions b) ?L" by simp
  have pay: "unat (tx_amount t) + unat (tx_fee t) \<le> unat (balance (?L s))"
    "unat (tx_amount u) + unat (tx_fee u) \<le> unat (balance (?L s))"
    using accepted_nonce(2) [OF two(1)] accepted_nonce(2) [OF two(2)] assms(7,8,12) by simp_all
  from b consider "b_transactions b = [t, u]" | "b_transactions b = [u, t]" by auto
  then show ?thesis
  proof cases
    case 1
    with two_transfers [OF assms(5,7,9) pay(1) assms(6,8,10) pay(2) assms(13,14)] L show ?thesis by simp
  next
    case 2
    have "unat (balance (?L s)) < unat (tx_amount u) + unat (tx_fee u) + unat (tx_amount t) + unat (tx_fee t)"
      "unat (balance (?L (tx_recipient u))) + unat (balance (?L (tx_recipient t))) + unat (tx_amount u) + unat (tx_amount t) < 2 ^ 64"
      using assms(13,14) by simp_all
    from two_transfers [OF assms(6,8,10) pay(2) assms(5,7,9) pay(1) this] 2 L show ?thesis by simp
  qed
qed

section \<open>Examples\<close>

definition rich_seat :: account where
  "rich_seat = seat\<lparr>balance := 100000\<rparr>"

definition pay_db :: state_db where
  "pay_db = write_all fee_env fee_codec [(own_address, rich_seat)] (sample_block []) 1 memory_db"

definition pay_engine :: "mempool \<Rightarrow> engine" where
  "pay_engine mp = val_engine\<lparr>en_db := pay_db, en_pool := mp\<rparr>"

lemma pay_laws: "account_codec_laws fee_codec" "om_ok (kv_map (db_kv pay_db))"
  by (simp_all add: fee_codec_def account_codec_laws_toy pay_db_def om_ok_write_all)

lemma pay_account:
  "get_account fee_codec pay_db a = (if a = own_address then rich_seat else account_default)"
proof -
  have "get_account fee_codec memory_db a = account_default"
    by (simp add: get_account_def memory_db_def open_in_memory_def kv_get_def)
  then show ?thesis
    using pay_laws(1) by (simp add: pay_db_def get_account_write_all account_codec_laws_def)
qed

lemma pay_validators:
  "active_validators fee_codec pay_db = [\<lparr>vi_address = own_address, vi_pubkey = PublicKey 7, vi_power = 300\<rparr>]"
proof -
  have "(a, acc) \<in> set (get_validators fee_codec pay_db) \<longleftrightarrow> (a, acc) = (own_address, rich_seat)" for a acc
    unfolding get_validators_iff [OF pay_laws(2)]
    using pay_laws(1)
    by (auto simp: pay_db_def kv_get_write_account account_codec_laws_def rich_seat_def seat_def)
  then have "set (get_validators fee_codec pay_db) = {(own_address, rich_seat)}" by auto
  moreover have "distinct (get_validators fee_codec pay_db)"
    using distinct_get_validators [OF pay_laws(2), of fee_codec] by (simp add: distinct_map)
  ultimately have "get_validators fee_codec pay_db = [(own_address, rich_seat)]" by (intro distinct_singleton)
  then show ?thesis by (simp add: active_validators_def map_filter_simps rich_seat_def seat_def)
qed

text \<open>The examples hold with locks a thread may take twice and with the documented ones.\<close>

abbreviation sample_envs :: "env set" where
  "sample_envs \<equiv> {fee_env, locked_env}"

lemma sample_env_same:
  assumes "E \<in> sample_envs"
  shows "prof E = Debug" "address_from_pubkey E = address_from_pubkey fee_env" "tx_hash E = tx_hash fee_env"
    "validate_stateless E = validate_stateless fee_env"
  using assms by (auto simp: locked_same fee_env_locks)

lemma sample_env_commits:
  assumes "E \<in> sample_envs" and "engine_execute_all E C (en_db en) (b_transactions b) [] = Some ov"
    and "proposed_block en = Some b" and "kv_path (db_kv (en_db en)) = None"
  shows "\<exists>en'. returned_or_blocked (commit_proposed E C (block_hash E b) en) en'"
proof -
  obtain h where c: "commit_block E C b ov (en_db en) = (Inr h, write_all E C ov b (h_height (b_header b)) (en_db en))"
    using commit_block_memory [OF assms(4)] by blast
  have "exclusive_writes (locks E) \<or> locks E = reentrant"
    using assms(1) locked_ok(2) fee_env_locks(1) by auto
  then have "\<exists>mp. remove_committed E (b_transactions b) (en_pool en) = Ret () mp \<or>
      remove_committed E (b_transactions b) (en_pool en) = Blocked mp"
    using remove_reentrant remove_committed_deadlock [of E "b_transactions b" "en_pool en"] by (metis (full_types))
  then show ?thesis
    using assms(2,3) c by (auto simp: returned_or_blocked_def commit_proposed_def)
qed

lemma pay_run:
  assumes E: "E \<in> sample_envs" and "run_fits Debug (harvest (1024 * 1024) mp) (get_account fee_codec pay_db)"
  shows "\<exists>b en1 en2. create_proposal E fee_codec (Some 9) (pay_engine mp) = Ret (Inr b) en1 \<and>
    returned_or_blocked (commit_proposed E fee_codec (block_hash E b) en1) en2"
proof -
  let ?txs = "harvest (1024 * 1024) mp"
  let ?vs = "[\<lparr>vi_address = own_address, vi_pubkey = PublicKey 7, vi_power = 300\<rparr>]"
  note same = sample_env_same [OF E]
  obtain ov where ov: "engine_execute_all E fee_codec pay_db ?txs [] = Some ov"
    using engine_execute_all_None [of E fee_codec pay_db ?txs "[]"] assms(2) same(1) by fastforce
  have "total_stake ?vs = 300" by (simp add: total_stake_def)
  with select_proposer_exists [of ?vs E 2 0]
  have sel: "select_proposer E 2 0 ?vs = Some (Some (?vs ! 0))" by auto
  have parent: "get_block_by_height fee_codec pay_db 1 = Some (sample_block [])"
    by (simp add: pay_db_def get_block_by_height_write_all fee_codec_def)
  have "sub_ck Debug (2 :: u64) 1 = Some 1" by (simp add: sub_ck_def word_le_nat_alt)
  moreover have "address_from_pubkey E (kp_public (keypair_from_secret_bytes fee_env 7)) = own_address"
    by (simp add: same own_address_def keypair_from_secret_bytes_def fee_env_def)
  ultimately obtain b en1 where run: "create_proposal E fee_codec (Some 9) (pay_engine mp) = Ret (Inr b) en1"
    using sel parent ov
    by (simp add: create_proposal_def pay_engine_def val_engine_def pay_validators Let_def same
        finish_proposal_def header_sign_def)
  note proposal = proposed_harvest [OF run]
  have "kv_path (db_kv pay_db) = None"
    by (simp add: pay_db_def write_all_def apply_batch_def memory_db_def open_in_memory_def)
  then have "\<exists>en2. returned_or_blocked (commit_proposed E fee_codec (block_hash E b) en1) en2"
    using sample_env_commits [OF E _ proposal(2), of fee_codec ov] proposal ov by (simp add: pay_engine_def)
  with run show ?thesis by blast
qed

lemma priced_accepted:
  assumes E: "E \<in> sample_envs" and "100 \<le> f" and "a \<noteq> 0" and "1 \<le> n" and "n \<le> 64" and "unat a + unat f \<le> 100000"
  shows "validate_stateless E (priced_tx a f n []) = Inr ()"
    and "validate_stateful E (priced_tx a f n []) (get_account fee_codec pay_db own_address) = Some (Inr ())"
proof -
  show "validate_stateless E (priced_tx a f n []) = Inr ()" using assms(2,3) by (simp add: sample_env_same [OF E])
  have "balance rich_seat = 100000" "nonce rich_seat = 0" by (simp_all add: rich_seat_def seat_def)
  then show "validate_stateful E (priced_tx a f n []) (get_account fee_codec pay_db own_address) = Some (Inr ())"
    using validate_stateful_accepts [of rich_seat E "priced_tx a f n []"] sat_add_le_iff [of "100000" a f] assms(4-6)
    by (simp add: pay_account word_less_nat_alt word_le_nat_alt)
qed

lemma be_nat_zeros: "be_nat (replicate n 0) = 0"
  by (induction n) (simp_all add: be_nat_append [of "[0]", simplified] be_nat_def)

lemma own_address_value: "own_address = Address 0"
proof -
  have "be_nat (be_bytes 32 (7 :: 256 word)) = unat (7 :: 256 word)" by (simp add: be_bytes_def be_nat_nat_be)
  moreover have "(of_nat (256 ^ 32) :: 256 word) = 0" by (simp add: of_nat_power)
  ultimately have tail: "(of_be_bytes (xs @ be_bytes 32 (7 :: 256 word)) :: 256 word) = 7" for xs
    by (simp only: of_be_bytes_def be_nat_append length_be_bytes of_nat_add of_nat_mult mult_zero_right add_0)
      (simp add: unsigned_of_nat)
  have seven: "(7 :: 256 word) = of_be_bytes (replicate 31 0 @ [7])"
    by (simp add: of_be_bytes_def be_nat_append be_nat_zeros) (simp add: be_nat_def)
  have "be_bytes 32 (7 :: 256 word) = replicate 31 0 @ [7]"
    by (subst seven, subst be_bytes_of_be_bytes) simp_all
  then have "take 20 (be_bytes 32 (7 :: 256 word)) = replicate 20 0" by simp
  moreover have "(of_be_bytes (replicate 20 0) :: 160 word) = 0"
    by (simp add: of_be_bytes_def be_nat_zeros)
  ultimately show ?thesis
    using tail [of "le_len DOMAIN_ADDRESS @ DOMAIN_ADDRESS"]
    by (simp add: own_address_def address_from_pubkey_def hash_with_domain_def domain_preimage_def
        pk_bytes_def hash_bytes_of_def fee_env_def)
qed

lemma not_own [simp]: "Address 9 \<noteq> own_address" "own_address \<noteq> Address 9"
  by (simp_all add: own_address_value)

lemma priced_sender: "tx_sender (priced_tx a f n p) = own_address" "tx_recipient (priced_tx a f n p) = Address 9"
  by (simp_all add: own_address_def priced_tx_def tx_new_unsigned_def)

lemma pay_balances:
  "balance (get_account fee_codec pay_db own_address) = 100000"
  "nonce (get_account fee_codec pay_db own_address) = 0"
  "balance (get_account fee_codec pay_db (Address 9)) = 0"
  by (simp_all add: pay_account rich_seat_def seat_def account_default_def)

lemma pay_engine_simps [simp]: "en_db (pay_engine mp) = pay_db" "en_pool (pay_engine mp) = mp"
  by (simp_all add: pay_engine_def)

text \<open>One transfer, taken by a new mempool, proposed and committed.\<close>

lemma pay_one:
  assumes E: "E \<in> sample_envs" and "100 \<le> f" and "a \<noteq> 0" and "1 \<le> n" and "n \<le> 64" and "unat a + unat f \<le> 100000"
  shows "\<exists>mp b en1 en2.
    add_transaction E fee_codec pay_db (priced_tx a f n []) new_pool = Ret (Inr (Hash (ucast f))) mp \<and>
    create_proposal E fee_codec (Some 9) (pay_engine mp) = Ret (Inr b) en1 \<and>
    returned_or_blocked (commit_proposed E fee_codec (block_hash E b) en1) en2"
proof -
  let ?tx = "priced_tx a f n []"
  note ok = priced_accepted [OF E assms(2-6)] and same = sample_env_same [OF E]
  obtain mp where mp: "add_transaction E fee_codec pay_db ?tx new_pool = Ret (Inr (tx_hash E ?tx)) mp"
    "harvest (1024 * 1024) mp = [?tx]"
    using add_succeeds [OF ok(1), where db = pay_db and C = fee_codec and mp = new_pool] ok(2) new_pool_facts
    unfolding priced_sender by blast
  have "run_fits Debug (harvest (1024 * 1024) mp) (get_account fee_codec pay_db)"
    using assms(6) unfolding mp(2) run_fits.simps tx_fits_def priced_sender by (simp add: pay_balances)
  from pay_run [OF E this] mp(1) show ?thesis by (auto simp: same)
qed

theorem payment_settles_witness:
  "\<exists>tx mp b en1 en2. add_transaction locked_env fee_codec pay_db tx new_pool = Ret (Inr (Hash 200)) mp \<and>
    create_proposal locked_env fee_codec (Some 9) (pay_engine mp) = Ret (Inr b) en1 \<and>
    commit_proposed locked_env fee_codec (block_hash locked_env b) en1 = Blocked en2 \<and>
    b_transactions b = [tx] \<and> tx_amount tx = 40000 \<and>
    unat (balance (get_account fee_codec (en_db en2) (Address 9))) = 40000"
proof -
  let ?tx = "priced_tx 40000 200 1 []"
  obtain mp b en1 en2 where run:
    "add_transaction locked_env fee_codec pay_db ?tx new_pool = Ret (Inr (Hash (ucast (200 :: u64)))) mp"
    "create_proposal locked_env fee_codec (Some 9) (pay_engine mp) = Ret (Inr b) en1"
    "returned_or_blocked (commit_proposed locked_env fee_codec (block_hash locked_env b) en1) en2"
    using pay_one [of locked_env 200 40000 1] by auto
  have "b_transactions b = [?tx] \<and> unat (balance (get_account fee_codec (en_db en2) (Address 9))) = 40000 \<and>
      commit_proposed locked_env fee_codec (block_hash locked_env b) en1 = Blocked en2"
    using payment_settles [of fee_codec "pay_engine mp" locked_env ?tx _ "Some 9" b en1 en2 "()"] run pay_laws locked_ok(2)
    unfolding priced_sender pay_engine_simps by (simp add: pay_balances)
  with run(1,2) show ?thesis by (intro exI [of _ ?tx] exI [of _ mp] exI [of _ b] exI [of _ en1] exI [of _ en2]) simp
qed

theorem gapped_transfer_replays_witness:
  "\<exists>tx mp b en1 en2 mp2. create_proposal locked_env fee_codec (Some 9) (pay_engine mp) = Ret (Inr b) en1 \<and>
    returned_or_blocked (commit_proposed locked_env fee_codec (block_hash locked_env b) en1) en2 \<and> b_transactions b = [tx] \<and>
    tx_nonce tx = 3 \<and> add_transaction locked_env fee_codec (en_db en2) tx new_pool = Ret (Inr (Hash 200)) mp2"
proof -
  let ?tx = "priced_tx 40000 200 3 []"
  obtain mp b en1 en2 where run:
    "add_transaction locked_env fee_codec pay_db ?tx new_pool = Ret (Inr (Hash (ucast (200 :: u64)))) mp"
    "create_proposal locked_env fee_codec (Some 9) (pay_engine mp) = Ret (Inr b) en1"
    "returned_or_blocked (commit_proposed locked_env fee_codec (block_hash locked_env b) en1) en2"
    using pay_one [of locked_env 200 40000 3] by auto
  have "\<exists>mp. add_transaction locked_env fee_codec (en_db en2) ?tx new_pool = Ret (Inr (Hash (ucast (200 :: u64)))) mp"
    using gapped_transfer_replays [of fee_codec "pay_engine mp" locked_env ?tx _ "Some 9" b en1 en2] run pay_laws
    unfolding priced_sender pay_engine_simps by (simp add: pay_balances) blast
  moreover have "b_transactions b = [?tx]"
    using proposed_harvest(1) [OF run(2)] one_pooled(5) [OF run(1)] by simp
  moreover have "tx_nonce ?tx = 3" "Hash (ucast (200 :: u64)) = Hash 200" by simp_all
  ultimately show ?thesis using run(2,3) by metis
qed

theorem double_spend_mints_witness:
  "\<exists>en b en1 en2. create_proposal locked_env fee_codec (Some 9) en = Ret (Inr b) en1 \<and>
    returned_or_blocked (commit_proposed locked_env fee_codec (block_hash locked_env b) en1) en2 \<and>
    total_supply (get_account fee_codec (en_db en2)) = total_supply (get_account fee_codec (en_db en)) + 20000"
proof -
  let ?t = "priced_tx 60000 200 1 []" and ?u = "priced_tx 60000 300 2 []"
  have E: "locked_env \<in> sample_envs" by simp
  note t = priced_accepted [OF E, of 200 60000 1] and u = priced_accepted [OF E, of 300 60000 2]
  obtain mp1 where t1: "add_transaction locked_env fee_codec pay_db ?t new_pool = Ret (Inr (tx_hash locked_env ?t)) mp1"
    using add_succeeds [OF t(1), where db = pay_db and C = fee_codec and mp = new_pool] t(2) new_pool_facts
    unfolding priced_sender by auto
  note one = one_pooled [OF t1]
  have "sender_lookup mp1 (tx_sender ?u) (tx_nonce ?u) = None"
    by (rule no_nonce [OF one(3)]) (use one(4) in simp)
  moreover have "\<not> over_capacity (size_bytes ?u) mp1" by (rule roomy [OF one(3,8)]) (use one(6,7) in simp_all)
  moreover have "hm_get (by_hash mp1) (tx_hash locked_env ?u) = None"
    using one(4) mp_inv_get [OF one(3)] by (cases "hm_get (by_hash mp1) (tx_hash locked_env ?u)") (auto simp: locked_same)
  ultimately obtain mp where u1: "add_transaction locked_env fee_codec pay_db ?u mp1 = Ret (Inr (tx_hash locked_env ?u)) mp"
    using add_goes_through [OF u(1), where db = pay_db and C = fee_codec and mp = mp1] u(2)
    unfolding priced_sender by auto
  have "run_fits Debug (harvest (1024 * 1024) mp) (get_account fee_codec pay_db)"
    using two_pooled(3) [OF t1 u1] by (auto simp: tx_fits_def own_address_def [symmetric] pay_balances nonce_step)
  from pay_run [OF E this] obtain b en1 en2 where run:
    "create_proposal locked_env fee_codec (Some 9) (pay_engine mp) = Ret (Inr b) en1"
    "returned_or_blocked (commit_proposed locked_env fee_codec (block_hash locked_env b) en1) en2" by blast
  have "total_supply (get_account fee_codec (en_db en2)) = total_supply (get_account fee_codec pay_db) + 20000"
    using double_spend_mints [of fee_codec "pay_engine mp" locked_env ?t _ mp1 ?u _ own_address "Some 9" b en1 en2]
      t1 u1 run pay_laws
    unfolding priced_sender pay_engine_simps by (simp add: pay_balances)
  then show ?thesis using run by (intro exI [of _ "pay_engine mp"]) auto
qed

end
