(* ===== verification/Sample_Codec.thy ===== *)
theory Sample_Codec
  imports State
begin

text \<open>
  A codec that reads back every block, as an instance of the parameter that stands for
  bincode: words at a fixed width with their most significant byte first, a tag before each
  element of a list and before an optional value. It is not bincode's format; it shows that
  the laws the development asks of a codec hold of an executable one.
\<close>

section \<open>Writers with their readers\<close>

text \<open>A reader returns what it read and the rest of the bytes.\<close>

type_synonym 'a serial = "('a \<Rightarrow> bytes) \<times> (bytes \<Rightarrow> ('a \<times> bytes) option)"

definition serial_ok :: "'a serial \<Rightarrow> bool" where
  "serial_ok s \<longleftrightarrow> (\<forall>x rest. snd s (fst s x @ rest) = Some (x, rest))"

lemma serial_okD: "serial_ok s \<Longrightarrow> snd s (fst s x @ rest) = Some (x, rest)"
  by (simp add: serial_ok_def)

definition word_serial :: "nat \<Rightarrow> 'w::len word serial" where
  "word_serial n = (be_bytes n, \<lambda>bs. if length bs < n then None else Some (of_be_bytes (take n bs), drop n bs))"

lemma word_serial_ok: "LENGTH('w) = 8 * n \<Longrightarrow> serial_ok (word_serial n :: 'w::len word serial)"
  by (simp add: serial_ok_def word_serial_def of_be_bytes_be_bytes)

definition map_serial :: "('b \<Rightarrow> 'a) \<Rightarrow> ('a \<Rightarrow> 'b) \<Rightarrow> 'a serial \<Rightarrow> 'b serial" where
  "map_serial f g s = (\<lambda>x. fst s (f x), \<lambda>bs. map_option (\<lambda>(y, rest). (g y, rest)) (snd s bs))"

lemma map_serial_ok: "serial_ok s \<Longrightarrow> (\<And>x. g (f x) = x) \<Longrightarrow> serial_ok (map_serial f g s)"
  by (simp add: serial_ok_def map_serial_def)

definition pair_serial :: "'a serial \<Rightarrow> 'b serial \<Rightarrow> ('a \<times> 'b) serial" where
  "pair_serial s t =
     (\<lambda>(x, y). fst s x @ fst t y,
      \<lambda>bs. case snd s bs of None \<Rightarrow> None
         | Some (x, rest) \<Rightarrow> map_option (\<lambda>(y, rest). ((x, y), rest)) (snd t rest))"

lemma pair_serial_ok: "serial_ok s \<Longrightarrow> serial_ok t \<Longrightarrow> serial_ok (pair_serial s t)"
  by (auto simp: serial_ok_def pair_serial_def)

fun read_list :: "(bytes \<Rightarrow> ('a \<times> bytes) option) \<Rightarrow> nat \<Rightarrow> bytes \<Rightarrow> ('a list \<times> bytes) option" where
  "read_list rd 0 bs = None"
| "read_list rd (Suc k) [] = None"
| "read_list rd (Suc k) (b # bs) =
     (if b = 0 then Some ([], bs)
      else case rd bs of None \<Rightarrow> None
      | Some (x, rest) \<Rightarrow> map_option (\<lambda>(xs, rest). (x # xs, rest)) (read_list rd k rest))"

definition list_serial :: "'a serial \<Rightarrow> 'a list serial" where
  "list_serial s =
     (\<lambda>xs. concat (map (\<lambda>x. 1 # fst s x) xs) @ [0], \<lambda>bs. read_list (snd s) (length bs) bs)"

lemma read_list_written:
  assumes "serial_ok s"
  shows "length xs < k \<Longrightarrow> read_list (snd s) k (concat (map (\<lambda>x. 1 # fst s x) xs) @ 0 # rest) = Some (xs, rest)"
  by (induction xs arbitrary: k; case_tac k) (simp_all add: serial_okD [OF assms])

lemma list_serial_ok: "serial_ok s \<Longrightarrow> serial_ok (list_serial s)"
proof -
  assume s: "serial_ok s"
  have "length xs \<le> length (concat (map (\<lambda>x. 1 # fst s x) xs))" for xs
    by (induction xs) simp_all
  then have "length xs < length (concat (map (\<lambda>x. 1 # fst s x) xs) @ 0 # rest)" for xs rest
    by (simp add: le_imp_less_Suc trans_le_add1)
  from read_list_written [OF s this] show ?thesis by (simp add: serial_ok_def list_serial_def)
qed

definition option_serial :: "'a serial \<Rightarrow> 'a option serial" where
  "option_serial s =
     map_serial (\<lambda>x. case x of None \<Rightarrow> [] | Some y \<Rightarrow> [y]) (\<lambda>l. case l of [] \<Rightarrow> None | y # _ \<Rightarrow> Some y) (list_serial s)"

lemma option_serial_ok: "serial_ok s \<Longrightarrow> serial_ok (option_serial s)"
  unfolding option_serial_def by (intro map_serial_ok list_serial_ok) (auto split: option.split)

section \<open>Blocks\<close>

definition tag_serial :: "'a list \<Rightarrow> 'a serial" where
  "tag_serial xs = ((\<lambda>x. [word_of_nat (length (takeWhile (\<lambda>y. y \<noteq> x) xs))]),
     \<lambda>bs. case bs of [] \<Rightarrow> None | b # rest \<Rightarrow> if unat b < length xs then Some (xs ! unat b, rest) else None)"

lemma takeWhile_index: "x \<in> set xs \<Longrightarrow> length (takeWhile (\<lambda>y. y \<noteq> x) xs) < length xs \<and>
    xs ! length (takeWhile (\<lambda>y. y \<noteq> x) xs) = x"
  by (induction xs) auto

lemma tag_serial_ok:
  assumes "\<And>x. x \<in> set xs" and "length xs \<le> 256"
  shows "serial_ok (tag_serial xs)"
proof -
  have "length (takeWhile (\<lambda>y. y \<noteq> x) xs) < 256" for x
    using takeWhile_index [OF assms(1), of x] assms(2) by simp
  then have "take_bit 8 (length (takeWhile (\<lambda>y. y \<noteq> x) xs)) = length (takeWhile (\<lambda>y. y \<noteq> x) xs)" for x
    by (simp add: take_bit_nat_eq_self_iff)
  then show ?thesis
    using takeWhile_index [OF assms(1)] by (simp add: serial_ok_def tag_serial_def unsigned_of_nat)
qed

definition hash_serial :: "hash serial" where
  "hash_serial = map_serial hash_word Hash (word_serial 32)"
definition key_serial :: "public_key serial" where
  "key_serial = map_serial pk_word PublicKey (word_serial 32)"
definition sig_serial :: "signature serial" where
  "sig_serial = map_serial sig_word Signature (word_serial 64)"
definition addr_serial :: "address serial" where
  "addr_serial = map_serial addr_word Address (word_serial 20)"
definition text_serial :: "string serial" where
  "text_serial = list_serial (map_serial (\<lambda>c. word_of_nat (of_char c) :: u8) (\<lambda>b. char_of (unat b)) (word_serial 1))"

definition tx_serial :: "transaction serial" where
  "tx_serial =
     map_serial
       (\<lambda>t. (tx_sender t, tx_recipient t, tx_amount t, tx_fee t, tx_nonce t, tx_type t, tx_payload t, tx_pubkey t,
          tx_signature t))
       (\<lambda>(s, r, a, f, n, ty, p, k, sg). \<lparr>tx_sender = s, tx_recipient = r, tx_amount = a, tx_fee = f, tx_nonce = n,
          tx_type = ty, tx_payload = p, tx_pubkey = k, tx_signature = sg\<rparr>)
       (pair_serial addr_serial (pair_serial addr_serial (pair_serial (word_serial 8) (pair_serial (word_serial 8)
          (pair_serial (word_serial 8) (pair_serial (tag_serial [Transfer, Stake, Unstake, RegisterValidator])
             (pair_serial (list_serial (word_serial 1)) (pair_serial key_serial sig_serial))))))))"

definition header_serial :: "header serial" where
  "header_serial =
     map_serial
       (\<lambda>h. (h_version h, h_chain_id h, h_height h, h_round h, h_prev_hash h, h_merkle_root h, h_state_root h,
          h_validator_set_hash h, h_timestamp h, h_proposer h, h_signature h))
       (\<lambda>(v, c, n, r, p, m, s, vs, t, a, sg). \<lparr>h_version = v, h_chain_id = c, h_height = n, h_round = r,
          h_prev_hash = p, h_merkle_root = m, h_state_root = s, h_validator_set_hash = vs, h_timestamp = t,
          h_proposer = a, h_signature = sg\<rparr>)
       (pair_serial (word_serial 4) (pair_serial text_serial (pair_serial (word_serial 8) (pair_serial (word_serial 4)
          (pair_serial hash_serial (pair_serial hash_serial (pair_serial hash_serial (pair_serial hash_serial
             (pair_serial (word_serial 8) (pair_serial addr_serial sig_serial))))))))))"

definition vote_serial :: "vote serial" where
  "vote_serial =
     map_serial
       (\<lambda>v. (v_block_hash v, v_height v, v_round v, v_type v, v_validator v, v_pubkey v, v_signature v))
       (\<lambda>(h, n, r, ty, a, k, sg). \<lparr>v_block_hash = h, v_height = n, v_round = r, v_type = ty, v_validator = a,
          v_pubkey = k, v_signature = sg\<rparr>)
       (pair_serial hash_serial (pair_serial (word_serial 8) (pair_serial (word_serial 4)
          (pair_serial (tag_serial [PreVoteType, PreCommitType]) (pair_serial addr_serial
             (pair_serial key_serial sig_serial))))))"

definition qc_serial :: "quorum_certificate serial" where
  "qc_serial =
     map_serial
       (\<lambda>q. (qc_block_hash q, qc_height q, qc_round q, qc_votes q, qc_total_voting_power q, qc_signers_voting_power q))
       (\<lambda>(h, n, r, vs, t, s). \<lparr>qc_block_hash = h, qc_height = n, qc_round = r, qc_votes = vs,
          qc_total_voting_power = t, qc_signers_voting_power = s\<rparr>)
       (pair_serial hash_serial (pair_serial (word_serial 8) (pair_serial (word_serial 4)
          (pair_serial (list_serial vote_serial) (pair_serial (word_serial 8) (word_serial 8))))))"

definition block_serial :: "block serial" where
  "block_serial =
     map_serial (\<lambda>b. (b_header b, b_transactions b, b_last_commit_qc b))
       (\<lambda>(h, txs, qc). \<lparr>b_header = h, b_transactions = txs, b_last_commit_qc = qc\<rparr>)
       (pair_serial header_serial (pair_serial (list_serial tx_serial) (option_serial qc_serial)))"

lemmas serial_oks = map_serial_ok pair_serial_ok list_serial_ok option_serial_ok word_serial_ok tag_serial_ok

lemma base_serials_ok:
  "serial_ok hash_serial" "serial_ok key_serial" "serial_ok sig_serial" "serial_ok addr_serial" "serial_ok text_serial"
proof -
  have "char_of (unat (word_of_nat (of_char c) :: u8)) = c" for c
    by (simp add: unsigned_of_nat char_of_take_bit_eq)
  then show "serial_ok text_serial" unfolding text_serial_def by (intro serial_oks) simp_all
qed (unfold hash_serial_def key_serial_def sig_serial_def addr_serial_def, (intro serial_oks; simp)+)

lemma block_serial_ok: "serial_ok block_serial"
proof -
  have kind: "x \<in> set [Transfer, Stake, Unstake, RegisterValidator]" for x by (cases x) simp_all
  have phase: "x \<in> set [PreVoteType, PreCommitType]" for x by (cases x) simp_all
  have tx: "serial_ok tx_serial"
    unfolding tx_serial_def by (intro serial_oks base_serials_ok) (use kind in simp_all)
  have header: "serial_ok header_serial"
    unfolding header_serial_def by (intro serial_oks base_serials_ok) simp_all
  have vote: "serial_ok vote_serial"
    unfolding vote_serial_def by (intro serial_oks base_serials_ok) (use phase in simp_all)
  have qc: "serial_ok qc_serial"
    unfolding qc_serial_def by (intro serial_oks base_serials_ok vote) simp_all
  show ?thesis unfolding block_serial_def by (intro serial_oks tx header qc) simp
qed

definition full_codec :: codec where
  "full_codec = (toy_codec (sample_block []))\<lparr>block_enc := fst block_serial, block_dec := \<lambda>bs. map_option fst (snd block_serial bs)\<rparr>"

lemma full_codec_laws: "account_codec_laws full_codec" "block_dec full_codec (block_enc full_codec b) = Some b"
  using serial_okD [OF block_serial_ok, of b "[]"]
  by (simp_all add: full_codec_def account_codec_laws_def sample_acc_dec_enc)

end
