(* ===== verification/Settlement.thy ===== *)
theory Settlement
  imports System Payment Sample_Codec
begin

text \<open>
  From a request to the ledger: what a running node that is the only validator does with the
  transactions its server took, when its production loop gets to them. This composes the
  server of \<open>aura-rpc\<close>, the pool of \<open>aura-mempool\<close>, the loop of \<open>aura-node/src/main.rs\<close>, the
  engine of \<open>aura-consensus\<close> and the store. With the documented locks the loop's next turn
  settles a block of what the pool offers and is its last: it waits for ever for a lock it holds.
  What it would go on to do, were its locks ones a thread may take twice, is proved beside that.
\<close>

section \<open>Transfers leave the validators as they are\<close>

text \<open>What makes an account a validator, and of what weight.\<close>

definition seat_of :: "account \<Rightarrow> bool \<times> u64 \<times> public_key option" where
  "seat_of acc = (is_validator acc, staked_amount acc, validator_pubkey acc)"

lemma transfer_keeps_seats: "tx_type tx = Transfer \<Longrightarrow> seat_of (ledger_step tx L a) = seat_of (L a)"
  by (simp add: seat_of_def ledger_step_def debit_def credit_def)

lemma transfers_keep_seats:
  "\<forall>tx \<in> set txs. tx_type tx = Transfer \<Longrightarrow> seat_of (fold ledger_step txs L a) = seat_of (L a)"
  by (induction txs arbitrary: L) (simp_all add: transfer_keeps_seats)

text \<open>The validators are read off the accounts.\<close>

lemma get_validators_accounts:
  assumes "om_ok (kv_map (db_kv db))"
  shows "(a, acc) \<in> set (get_validators C db) \<longleftrightarrow>
    acc = get_account C db a \<and> is_validator acc \<and> 0 < staked_amount acc"
  unfolding get_validators_iff [OF assms]
  by (auto simp: get_account_def account_default_def split: option.split)

lemma active_validators_accounts:
  assumes "om_ok (kv_map (db_kv db))"
  shows "vi \<in> set (active_validators C db) \<longleftrightarrow>
    (\<exists>pk stake. seat_of (get_account C db (vi_address vi)) = (True, stake, Some pk) \<and> 0 < stake \<and>
       vi = \<lparr>vi_address = vi_address vi, vi_pubkey = pk, vi_power = stake\<rparr>)"
proof -
  have "vi \<in> set (active_validators C db) \<longleftrightarrow>
      (\<exists>a acc. (a, acc) \<in> set (get_validators C db) \<and> (\<exists>pk. validator_pubkey acc = Some pk \<and>
         vi = \<lparr>vi_address = a, vi_pubkey = pk, vi_power = staked_amount acc\<rparr>))"
    by (force simp: active_validators_def List.map_filter_def image_iff split: prod.splits)
  then show ?thesis unfolding get_validators_accounts [OF assms] seat_of_def by force
qed

lemma transfers_keep_sole:
  assumes "sole E C en stake" and om: "om_ok (kv_map (db_kv (en_db en)))" and laws: "account_codec_laws C"
    and run: "engine_execute_all E C (en_db en) txs [] = Some ov" and "\<forall>tx \<in> set txs. tx_type tx = Transfer"
    and db: "en_db en' = write_all E C ov b n (en_db en)" "en_keypair en' = en_keypair en" "en_address en' = en_address en"
  shows "sole E C en' stake"
proof -
  have acc: "get_account C (en_db en') = fold ledger_step txs (get_account C (en_db en))"
    using write_all_ledger [OF run om laws] by (simp add: db(1))
  have om': "om_ok (kv_map (db_kv (en_db en')))" by (simp add: db(1) om om_ok_write_all)
  have "set (active_validators C (en_db en')) = set (active_validators C (en_db en))"
    using transfers_keep_seats [OF assms(5)]
    by (auto simp: active_validators_accounts [OF om] active_validators_accounts [OF om'] acc)
  moreover have "distinct (active_validators C (en_db en'))"
    using distinct_active_validators [OF om'] by (simp add: distinct_map)
  ultimately show "sole E C en' stake"
    using assms(1) db(2,3) by (auto simp: sole_def intro: distinct_singleton)
qed

section \<open>A tick over a pool of transfers\<close>

lemma pool_tick:
  assumes "locks E = reentrant" and laws: "account_codec_laws C" and rdy: "ready E C stake n prev en"
    and om: "om_ok (kv_map (db_kv (en_db en)))" and "unat n + 2 < 2 ^ 64" and pool: "mp_inv E (en_pool en)"
    and transfers: "\<forall>tx \<in> set (harvest (1024 * 1024) (en_pool en)). tx_type tx = Transfer"
    and fits: "run_fits (prof E) (harvest (1024 * 1024) (en_pool en)) (get_account C (en_db en))"
  shows "\<exists>b en'. node_tick E C (Some t) en = Ret None en' \<and> validate_basic E b = Inr () \<and>
    b_transactions b = harvest (1024 * 1024) (en_pool en) \<and> h_prev_hash (b_header b) = block_hash E prev \<and>
    h_height (b_header b) = n + 1 \<and> get_latest_height (en_db en') = n + 1 \<and>
    kv_get (db_kv (en_db en')) (height_key (n + 1)) = Some (hash_bytes_of (block_hash E b)) \<and>
    kv_get (db_kv (en_db en')) (block_key (block_hash E b)) = Some (block_enc C b) \<and>
    get_account C (en_db en') = fold ledger_step (b_transactions b) (get_account C (en_db en)) \<and>
    remove_committed E (b_transactions b) (en_pool en) = Ret () (en_pool en') \<and>
    om_ok (kv_map (db_kv (en_db en'))) \<and> mp_inv E (en_pool en') \<and>
    (block_dec C (block_enc C b) = Some b \<longrightarrow> ready E C stake (n + 1) b en')"
proof -
  let ?txs = "harvest (1024 * 1024) (en_pool en)"
  obtain ov where run: "engine_execute_all E C (en_db en) ?txs [] = Some ov"
    using engine_execute_all_None [of E C "en_db en" ?txs "[]"] fits by fastforce
  have sole: "sole E C en stake" and f: "kv_faults (db_kv (en_db en)) = []" using rdy by (simp_all add: ready_def)
  have verified: "\<forall>tx \<in> set ?txs. tx_verify E tx = Inr ()"
    using harvest_valid(1) [OF pool] validate_stateless_verify by blast
  obtain b en' where b: "validate_basic E b = Inr ()" "b_transactions b = ?txs" "h_height (b_header b) = n + 1"
      "h_prev_hash (b_header b) = block_hash E prev"
    and en': "en_db en' = write_all E C ov b (n + 1) (en_db en)" "remove_committed E ?txs (en_pool en) = Ret () (en_pool en')"
      "cur_height en' = n + 2" "precommits en' = []" "own_votes (en_address en') (prevotes en')" "sole E C en' stake"
    and tick: "node_tick E C (Some t) en = Ret None en'"
    using sole_tick_reentrant [OF assms(1) rdy assms(5) refl run verified, of t]
      transfers_keep_sole [OF sole om laws run transfers] by blast
  have acc: "get_account C (en_db en') = fold ledger_step ?txs (get_account C (en_db en))"
    by (simp add: en'(1) write_all_ledger [OF run om laws])
  show ?thesis
    using b en' tick acc f remove_committed_keeps [OF pool en'(2)] om
    by (intro exI [of _ b] exI [of _ en'])
       (simp add: get_latest_height_write_all kv_get_write_block om_ok_write_all ready_def
         get_block_by_height_write_all write_all_no_faults add.assoc)
qed

section \<open>Properties\<close>

text \<open>
  With locks a thread may take twice, every tick of the only validator settles what its
  pool offers: when the transactions harvested are transfers that run, the tick stores a valid
  block of exactly these on top of the chain, moves the accounts by them in that order, drops
  them from the pool, and leaves the validator at its turn on the next height.
\<close>
theorem tick_settles_pool:
  assumes "locks E = reentrant" and "account_codec_laws C" and "ready E C stake n prev en"
    and "om_ok (kv_map (db_kv (en_db en)))" and "unat n + 2 < 2 ^ 64" and "mp_inv E (en_pool en)"
    and "\<forall>tx \<in> set (harvest (1024 * 1024) (en_pool en)). tx_type tx = Transfer"
    and "run_fits (prof E) (harvest (1024 * 1024) (en_pool en)) (get_account C (en_db en))"
  shows "\<exists>b en'. node_tick E C (Some t) en = Ret None en' \<and> validate_basic E b = Inr () \<and>
    b_transactions b = harvest (1024 * 1024) (en_pool en) \<and> h_prev_hash (b_header b) = block_hash E prev \<and>
    h_height (b_header b) = n + 1 \<and> get_latest_height (en_db en') = n + 1 \<and>
    kv_get (db_kv (en_db en')) (height_key (n + 1)) = Some (hash_bytes_of (block_hash E b)) \<and>
    kv_get (db_kv (en_db en')) (block_key (block_hash E b)) = Some (block_enc C b) \<and>
    get_account C (en_db en') = fold ledger_step (b_transactions b) (get_account C (en_db en)) \<and>
    (\<forall>tx \<in> set (b_transactions b). get_transaction (tx_hash E tx) (en_pool en') = None) \<and>
    (block_dec C (block_enc C b) = Some b \<longrightarrow> ready E C stake (n + 1) b en')"
proof -
  from pool_tick [OF assms, of t] obtain b en' where
    r: "node_tick E C (Some t) en = Ret None en'" "validate_basic E b = Inr ()"
      "b_transactions b = harvest (1024 * 1024) (en_pool en)" "h_prev_hash (b_header b) = block_hash E prev"
      "h_height (b_header b) = n + 1" "get_latest_height (en_db en') = n + 1"
      "kv_get (db_kv (en_db en')) (height_key (n + 1)) = Some (hash_bytes_of (block_hash E b))"
      "kv_get (db_kv (en_db en')) (block_key (block_hash E b)) = Some (block_enc C b)"
      "get_account C (en_db en') = fold ledger_step (b_transactions b) (get_account C (en_db en))"
      "block_dec C (block_enc C b) = Some b \<longrightarrow> ready E C stake (n + 1) b en'"
    and gone: "remove_committed E (b_transactions b) (en_pool en) = Ret () (en_pool en')" by blast
  have "\<forall>tx \<in> set (b_transactions b). get_transaction (tx_hash E tx) (en_pool en') = None"
    using remove_committed_keeps [OF assms(6) gone] by (simp add: get_transaction_def)
  with r show ?thesis by blast
qed

section \<open>From the request\<close>

lemma ready_pool: "ready E C stake n prev (en\<lparr>en_pool := mp\<rparr>) = ready E C stake n prev en"
  by (simp add: ready_def sole_def)

text \<open>A transaction that an empty pool would take is answered with its hash and pooled.\<close>

lemma serve_takes:
  assumes "rq_method req = ''sendTransaction''" and "read_transaction J (rq_params req) = Inr tx"
    and "validate_stateless E tx = Inr ()"
    and "validate_stateful E tx (get_account C (ns_db ns) (tx_sender tx)) = Some (Inr ())"
    and "mp_inv E (ns_pool ns)" and "by_hash (ns_pool ns) = []" and "mp_config (ns_pool ns) = mempool_config_default"
  shows "\<exists>resp ns'. serve E C J req ns = Ret resp ns' \<and>
    rp_result resp = Some (js_object J [(''tx_hash'', js_str J (hash_to_hex E (tx_hash E tx)))]) \<and> rp_error resp = None \<and>
    ns_db ns' = ns_db ns \<and> ns_engine ns' = ns_engine ns \<and> mp_inv E (ns_pool ns') \<and>
    harvest (1024 * 1024) (ns_pool ns') = [tx]"
proof -
  from add_succeeds [OF assms(3,4,5,6,7)] obtain mp where
    add: "add_transaction E C (ns_db ns) tx (ns_pool ns) = Ret (Inr (tx_hash E tx)) mp"
    and mp: "harvest (1024 * 1024) mp = [tx]" by blast
  have "sender_lookup (ns_pool ns) (tx_sender tx) (tx_nonce tx) = None"
    by (rule no_nonce [OF assms(5)]) (simp add: assms(6))
  moreover have "\<not> over_capacity (size_bytes tx) (ns_pool ns)"
    using stateless_size [OF assms(3)] assms(6) by (intro roomy [OF assms(5,7)]) (simp_all add: pool_size_def)
  ultimately have "mp_inv E mp" by (rule add_plain(8) [OF assms(5) add])
  with add mp show ?thesis
    by (simp add: serve_def handle_rpc_def assms(1,2) send_transaction_def rpc_view_def rpc_back_def rpc_success_def)
qed

text \<open>With the documented locks a tick settles the harvest and then waits for ever.\<close>

lemma pool_tick_waits:
  assumes "exclusive_writes (locks E)" and laws: "account_codec_laws C" and rdy: "ready E C stake n prev en"
    and om: "om_ok (kv_map (db_kv (en_db en)))" and "unat n + 2 < 2 ^ 64" and pool: "mp_inv E (en_pool en)"
    and fits: "run_fits (prof E) (harvest (1024 * 1024) (en_pool en)) (get_account C (en_db en))"
  shows "\<exists>b en'. node_tick E C (Some t) en = Blocked en' \<and> validate_basic E b = Inr () \<and>
    b_transactions b = harvest (1024 * 1024) (en_pool en) \<and> h_prev_hash (b_header b) = block_hash E prev \<and>
    h_height (b_header b) = n + 1 \<and> get_latest_height (en_db en') = n + 1 \<and>
    kv_get (db_kv (en_db en')) (height_key (n + 1)) = Some (hash_bytes_of (block_hash E b)) \<and>
    kv_get (db_kv (en_db en')) (block_key (block_hash E b)) = Some (block_enc C b) \<and>
    get_account C (en_db en') = fold ledger_step (b_transactions b) (get_account C (en_db en))"
proof -
  let ?txs = "harvest (1024 * 1024) (en_pool en)"
  obtain ov where run: "engine_execute_all E C (en_db en) ?txs [] = Some ov"
    using engine_execute_all_None [of E C "en_db en" ?txs "[]"] fits by fastforce
  have verified: "\<forall>tx \<in> set ?txs. tx_verify E tx = Inr ()"
    using harvest_valid(1) [OF pool] validate_stateless_verify by blast
  from sole_tick_waits [OF rdy assms(5) refl run verified assms(1), of t] obtain b en' where
    r: "h_height (b_header b) = n + 1" "h_prev_hash (b_header b) = block_hash E prev" "b_transactions b = ?txs"
      "validate_basic E b = Inr ()" "en_db en' = write_all E C ov b (n + 1) (en_db en)" "node_tick E C (Some t) en = Blocked en'"
    by blast
  then show ?thesis
    by (intro exI [of _ b] exI [of _ en'])
       (simp add: get_latest_height_write_all kv_get_write_block om write_all_ledger [OF run om laws])
qed

text \<open>
  C5: a payment sent to a running node settles in the next turn of its production loop: when
  the node is the only validator and its pool empty, a valid and covered transfer sent to its
  server is answered with its hash, and the turn stores a valid block of that one transaction on
  top of the chain and leaves the recipient with the amount, the sender without amount and fee,
  and every other account as it was. With the locks the code documents that turn does not
  return, and the loop is gone: the server goes on over what it stored.
\<close>
theorem request_settles:
  assumes "exclusive_writes (locks E)" and "account_codec_laws C"
    and "ns_engine ns = Some en" and "ready E C stake n prev (engine_on ns en)"
    and "om_ok (kv_map (db_kv (ns_db ns)))" and "unat n + 2 < 2 ^ 64"
    and "mp_inv E (ns_pool ns)" and "by_hash (ns_pool ns) = []" and "mp_config (ns_pool ns) = mempool_config_default"
    and "rq_method req = ''sendTransaction''" and "read_transaction J (rq_params req) = Inr tx"
    and "validate_stateless E tx = Inr ()"
    and "validate_stateful E tx (get_account C (ns_db ns) (tx_sender tx)) = Some (Inr ())"
    and "tx_type tx = Transfer" and "tx_sender tx \<noteq> tx_recipient tx"
    and "balance (get_account C (ns_db ns) (tx_sender tx)) \<noteq> - 1"
    and "unat (balance (get_account C (ns_db ns) (tx_recipient tx))) + unat (tx_amount tx) < 2 ^ 64"
  shows "\<exists>resp ns1 ns2 b. serve E C J req ns = Ret resp ns1 \<and>
    rp_result resp = Some (js_object J [(''tx_hash'', js_str J (hash_to_hex E (tx_hash E tx)))]) \<and>
    engine_tick E C J (Some t) ns1 = Blocked ns2 \<and> ns_engine ns2 = None \<and>
    b_transactions b = [tx] \<and> validate_basic E b = Inr () \<and> h_prev_hash (b_header b) = block_hash E prev \<and>
    kv_get (db_kv (ns_db ns2)) (height_key (n + 1)) = Some (hash_bytes_of (block_hash E b)) \<and>
    kv_get (db_kv (ns_db ns2)) (block_key (block_hash E b)) = Some (block_enc C b) \<and>
    unat (balance (get_account C (ns_db ns2) (tx_sender tx))) + unat (tx_amount tx) + unat (tx_fee tx) =
      unat (balance (get_account C (ns_db ns) (tx_sender tx))) \<and>
    unat (balance (get_account C (ns_db ns2) (tx_recipient tx))) =
      unat (balance (get_account C (ns_db ns) (tx_recipient tx))) + unat (tx_amount tx) \<and>
    (\<forall>a. a \<notin> {tx_sender tx, tx_recipient tx} \<longrightarrow> get_account C (ns_db ns2) a = get_account C (ns_db ns) a)"
proof -
  let ?L = "get_account C (ns_db ns)"
  obtain resp ns1 where s: "serve E C J req ns = Ret resp ns1"
      "rp_result resp = Some (js_object J [(''tx_hash'', js_str J (hash_to_hex E (tx_hash E tx)))])"
    and n1: "ns_db ns1 = ns_db ns" "ns_engine ns1 = Some en" "mp_inv E (ns_pool ns1)"
      "harvest (1024 * 1024) (ns_pool ns1) = [tx]"
    using serve_takes [OF assms(10-13,7-9)] assms(3) by auto
  note paid = accepted_nonce [OF assms(13,16)]
  have "run_fits (prof E) [tx] ?L"
    using paid unat_bound [of "balance (?L (tx_sender tx))"] unat_bound [of "tx_nonce tx"]
    by (simp add: tx_fits_def word_less_nat_alt)
  moreover have "ready E C stake n prev (engine_on ns1 en)"
    using assms(4) ready_pool [of E C stake n prev "ns_pool ns1" "engine_on ns en"] by (simp add: engine_on_def n1(1))
  ultimately obtain b en' where tick: "node_tick E C (Some t) (engine_on ns1 en) = Blocked en'"
    and b: "b_transactions b = [tx]" "validate_basic E b = Inr ()" "h_prev_hash (b_header b) = block_hash E prev"
      "get_account C (en_db en') = ledger_step tx ?L"
      "kv_get (db_kv (en_db en')) (height_key (n + 1)) = Some (hash_bytes_of (block_hash E b))"
      "kv_get (db_kv (en_db en')) (block_key (block_hash E b)) = Some (block_enc C b)"
    using pool_tick_waits [of E C stake n prev "engine_on ns1 en" t] assms(1,2,5,6) n1 by (auto simp: engine_on_def)
  have "engine_tick E C J (Some t) ns1 = Blocked (engine_back ns1 None en')"
    by (simp add: engine_tick_def n1(2) tick)
  moreover have "ns_db (engine_back ns1 None en') = en_db en'" "ns_engine (engine_back ns1 None en') = None"
    by (simp_all add: engine_back_def)
  ultimately show ?thesis
    using s b settled_transfer [of tx ?L, OF assms(14,15) paid(2) assms(17)]
    by (intro exI [of _ resp] exI [of _ ns1] exI [of _ "engine_back ns1 None en'"] exI [of _ b]) simp
qed

text \<open>
  C6: the production loop of the only validator makes one block and stops: with the locks the
  code documents, from any point of its chain and with any pool whose harvest runs without an
  overflow, its next turn stores a valid block of exactly the harvest, linked to the block
  before, and moves the accounts by these transactions in their order; and it never returns
  from that turn, however many were to follow.
\<close>
theorem loop_stops_after_one_block:
  assumes "exclusive_writes (locks E)" and "account_codec_laws C" and "ready E C stake n prev en"
    and "om_ok (kv_map (db_kv (en_db en)))" and "unat n + 2 < 2 ^ 64" and "mp_inv E (en_pool en)"
    and "run_fits (prof E) (harvest (1024 * 1024) (en_pool en)) (get_account C (en_db en))"
  shows "\<exists>b en'. node_loop E C (Some t # clocks) en = Blocked en' \<and> validate_basic E b = Inr () \<and>
    b_transactions b = harvest (1024 * 1024) (en_pool en) \<and> h_prev_hash (b_header b) = block_hash E prev \<and>
    h_height (b_header b) = n + 1 \<and> get_latest_height (en_db en') = n + 1 \<and>
    kv_get (db_kv (en_db en')) (height_key (n + 1)) = Some (hash_bytes_of (block_hash E b)) \<and>
    kv_get (db_kv (en_db en')) (block_key (block_hash E b)) = Some (block_enc C b) \<and>
    get_account C (en_db en') = fold ledger_step (b_transactions b) (get_account C (en_db en))"
proof -
  from pool_tick_waits [OF assms, of t] obtain b en' where
    "node_tick E C (Some t) en = Blocked en'" "validate_basic E b = Inr ()"
    "b_transactions b = harvest (1024 * 1024) (en_pool en)" "h_prev_hash (b_header b) = block_hash E prev"
    "h_height (b_header b) = n + 1" "get_latest_height (en_db en') = n + 1"
    "kv_get (db_kv (en_db en')) (height_key (n + 1)) = Some (hash_bytes_of (block_hash E b))"
    "kv_get (db_kv (en_db en')) (block_key (block_hash E b)) = Some (block_enc C b)"
    "get_account C (en_db en') = fold ledger_step (b_transactions b) (get_account C (en_db en))" by blast
  then show ?thesis by (intro exI [of _ b] exI [of _ en']) simp
qed

section \<open>The loop, were its locks ones a thread may take twice\<close>

text \<open>Blocks of consecutive heights, each valid and linked to the one before.\<close>

fun extends :: "env \<Rightarrow> u64 \<Rightarrow> block \<Rightarrow> block list \<Rightarrow> bool" where
  "extends E n prev [] = True"
| "extends E n prev (b # bs) \<longleftrightarrow>
     h_height (b_header b) = n + 1 \<and> h_prev_hash (b_header b) = block_hash E prev \<and>
     validate_basic E b = Inr () \<and> extends E (n + 1) b bs"

text \<open>A pool whose transfers any number of ticks can settle without a panic.\<close>

definition settleable :: "env \<Rightarrow> mempool \<Rightarrow> bool" where
  "settleable E mp \<longleftrightarrow> mp_inv E mp \<and> (prof E = Release \<or> by_hash mp = []) \<and>
     list_all (\<lambda>(h, tx). tx_type tx = Transfer) (by_hash mp)"

lemma release_fits: "run_fits Release txs L"
  by (induction txs arbitrary: L) (simp_all add: tx_fits_def)

lemma harvest_empty: "by_hash mp = [] \<Longrightarrow> mp_inv E mp \<Longrightarrow> harvest limit mp = []"
  using harvest_valid(2) [of E mp "hd (harvest limit mp)" limit] hd_in_set [of "harvest limit mp"]
  by (cases "harvest limit mp = []") (simp_all add: get_transaction_def hm_get_def)

lemma settleable_harvest:
  assumes "settleable E mp"
  shows "\<forall>tx \<in> set (harvest limit mp). tx_type tx = Transfer" and "run_fits (prof E) (harvest limit mp) L"
proof -
  have inv: "mp_inv E mp" using assms by (simp add: settleable_def)
  show "\<forall>tx \<in> set (harvest limit mp). tx_type tx = Transfer"
    using harvest_valid(2) [OF inv] mp_inv_get [OF inv] assms
    by (fastforce simp: settleable_def list_all_iff get_transaction_def)
  show "run_fits (prof E) (harvest limit mp) L"
    using assms harvest_empty [of mp E limit] release_fits by (auto simp: settleable_def)
qed

text \<open>One turn: the pool stays settleable, and a pool that fits in one block is empty after it.\<close>

lemma settled_pool:
  assumes "settleable E mp" and "remove_committed E (harvest (1024 * 1024) mp) mp = Ret u mp'"
  shows "settleable E mp'" and "set (by_hash mp') \<subseteq> set (by_hash mp)"
    and "pool_size (by_hash mp) \<le> 1024 * 1024 \<Longrightarrow> by_hash mp' = []"
proof -
  have inv: "mp_inv E mp" using assms(1) by (simp add: settleable_def)
  note k = remove_committed_keeps [OF inv assms(2)]
  then show "set (by_hash mp') \<subseteq> set (by_hash mp)" by simp
  with k assms(1) show "settleable E mp'" by (auto simp: settleable_def list_all_iff)
  assume "pool_size (by_hash mp) \<le> 1024 * 1024"
  then have all: "set (harvest (1024 * 1024) mp) = snd ` set (by_hash mp)" by (rule harvest_all(1) [OF inv])
  have "(h, tx) \<notin> set (by_hash mp')" for h tx
  proof
    assume m: "(h, tx) \<in> set (by_hash mp')"
    with k have "hm_get (by_hash mp') (tx_hash E tx) = None" using all by force
    moreover have "hm_get (by_hash mp') h = Some tx \<and> h = tx_hash E tx"
      using m k mp_inv_get [of E mp'] mp_invD(4) [of E mp'] by blast
    ultimately show False by auto
  qed
  then show "by_hash mp' = []" by (cases "by_hash mp'") auto
qed

lemma loop_settles:
  assumes "locks E = reentrant" and "account_codec_laws C" and rt: "\<And>b. block_dec C (block_enc C b) = Some b"
  shows "ready E C stake n prev en \<Longrightarrow> om_ok (kv_map (db_kv (en_db en))) \<Longrightarrow> settleable E (en_pool en) \<Longrightarrow>
    unat n + length ts + 1 < 2 ^ 64 \<Longrightarrow>
    \<exists>bs en'. node_loop E C (map Some ts) en = Ret [] en' \<and> length bs = length ts \<and> extends E n prev bs \<and>
      ready E C stake (n + word_of_nat (length ts)) (last (prev # bs)) en' \<and>
      get_account C (en_db en') = fold ledger_step (concat (map b_transactions bs)) (get_account C (en_db en)) \<and>
      set (by_hash (en_pool en')) \<subseteq> set (by_hash (en_pool en)) \<and>
      (ts \<noteq> [] \<longrightarrow> pool_size (by_hash (en_pool en)) \<le> 1024 * 1024 \<longrightarrow> by_hash (en_pool en') = [])"
proof (induction ts arbitrary: n prev en)
  case (Cons t ts)
  note pool = settleable_harvest [OF Cons.prems(3), of "1024 * 1024"]
  have "mp_inv E (en_pool en)" "unat n + 2 < 2 ^ 64" using Cons.prems(3,4) by (simp_all add: settleable_def)
  from pool_tick [OF assms(1,2) Cons.prems(1,2) this(2,1) pool, of t] obtain b en1 where
    tick: "node_tick E C (Some t) en = Ret None en1"
    and b: "validate_basic E b = Inr ()" "h_prev_hash (b_header b) = block_hash E prev" "h_height (b_header b) = n + 1"
    and en1: "get_account C (en_db en1) = fold ledger_step (b_transactions b) (get_account C (en_db en))"
      "remove_committed E (harvest (1024 * 1024) (en_pool en)) (en_pool en) = Ret () (en_pool en1)"
      "om_ok (kv_map (db_kv (en_db en1)))" "ready E C stake (n + 1) b en1"
    using rt by metis
  note pool1 = settled_pool [OF Cons.prems(3) en1(2)]
  have "unat (n + 1) + length ts + 1 < 2 ^ 64" using Cons.prems(4) by (simp add: unat_plus_small)
  from Cons.IH [OF en1(4,3) pool1(1) this] obtain bs en' where
    rest: "node_loop E C (map Some ts) en1 = Ret [] en'" "length bs = length ts" "extends E (n + 1) b bs"
      "ready E C stake (n + 1 + word_of_nat (length ts)) (last (b # bs)) en'"
      "get_account C (en_db en') = fold ledger_step (concat (map b_transactions bs)) (get_account C (en_db en1))"
      "set (by_hash (en_pool en')) \<subseteq> set (by_hash (en_pool en1))" by blast
  have "by_hash (en_pool en') = []" if "pool_size (by_hash (en_pool en)) \<le> 1024 * 1024"
    using pool1(3) [OF that] rest(6) by simp
  with tick b en1(1) rest pool1(2) show ?case
    by (intro exI [of _ "b # bs"] exI [of _ en']) (simp add: add.assoc subset_trans)
qed simp

text \<open>
  With locks a thread may take twice, the production loop of the only validator makes
  progress for as long as it runs: each turn adds one valid block linked to the one before, so
  that after \<open>k\<close> turns the chain is \<open>k\<close> blocks higher and the validator at its turn again; the
  accounts are moved by exactly the transactions of these blocks, in their order; and a pool of
  transfers that fits in one block is settled completely.
\<close>
theorem loop_makes_progress:
  assumes "locks E = reentrant" and "account_codec_laws C" and "\<And>b. block_dec C (block_enc C b) = Some b"
    and "ready E C stake n prev en" and "om_ok (kv_map (db_kv (en_db en)))" and "settleable E (en_pool en)"
    and "unat n + length ts + 1 < 2 ^ 64"
  shows "\<exists>bs en'. node_loop E C (map Some ts) en = Ret [] en' \<and> length bs = length ts \<and> extends E n prev bs \<and>
    get_block_by_height C (en_db en') (n + word_of_nat (length ts)) = Some (last (prev # bs)) \<and>
    cur_height en' = n + word_of_nat (length ts) + 1 \<and>
    get_account C (en_db en') = fold ledger_step (concat (map b_transactions bs)) (get_account C (en_db en)) \<and>
    (ts \<noteq> [] \<longrightarrow> pool_size (by_hash (en_pool en)) \<le> 1024 * 1024 \<longrightarrow> by_hash (en_pool en') = [])"
  using loop_settles [OF assms] unfolding ready_def by meson

section \<open>Examples\<close>

text \<open>A store whose one account is its one validator is ready for that validator's engine.\<close>

lemma seat_ready:
  assumes laws: "account_codec_laws C" and "block_dec C (block_enc C b) = Some b"
    and db: "en_db en = write_all E C [(en_address en, acc)] b n memory_db"
    and acc: "seat_of acc = (True, stake, Some (kp_public (en_keypair en)))" "0 < stake"
    and "en_address en = address_from_pubkey E (kp_public (en_keypair en))"
    and "cur_height en = n + 1" and "prevotes en = []" and "precommits en = []"
  shows "ready E C stake n b en" and "om_ok (kv_map (db_kv (en_db en)))"
    and "get_account C (en_db en) a = (if a = en_address en then acc else account_default)"
proof -
  let ?v = "\<lparr>vi_address = en_address en, vi_pubkey = kp_public (en_keypair en), vi_power = stake\<rparr>"
  have mem: "kv_map (db_kv memory_db) = []" "kv_faults (db_kv memory_db) = []"
    by (simp_all add: memory_db_def open_in_memory_def)
  note empty = empty_db_reads [OF mem(1)]
  have account: "get_account C (en_db en) a = (if a = en_address en then acc else account_default)" for a
    using laws by (simp add: db get_account_write_all empty account_codec_laws_def)
  then show "get_account C (en_db en) a = (if a = en_address en then acc else account_default)" .
  show om: "om_ok (kv_map (db_kv (en_db en)))" by (simp add: db om_ok_write_all empty)
  have "seat_of account_default = (False, 0, None)" by (simp add: seat_of_def account_default_def)
  then have "vi \<in> set (active_validators C (en_db en)) \<longleftrightarrow> vi = ?v" for vi
    using acc by (cases vi) (auto simp: active_validators_accounts [OF om] account)
  then have "set (active_validators C (en_db en)) = {?v}" by auto
  moreover have "distinct (active_validators C (en_db en))"
    using distinct_active_validators [OF om] by (simp add: distinct_map)
  ultimately have "sole E C en stake"
    using acc(2) assms(6) by (simp add: sole_def distinct_singleton)
  moreover have "get_block_by_height C (en_db en) n = Some b"
    by (simp add: db get_block_by_height_write_all empty assms(2))
  ultimately show "ready E C stake n b en"
    using assms(7-9) by (simp add: ready_def db write_all_no_faults mem(2))
qed

lemma rich_seat_of: "seat_of rich_seat = (True, 300, Some (PublicKey 7))"
  by (simp add: seat_of_def rich_seat_def seat_def)

lemma pay_ready:
  assumes "E \<in> sample_envs"
  shows "ready E fee_codec 300 1 (sample_block []) (pay_engine mp)" "om_ok (kv_map (db_kv (en_db (pay_engine mp))))"
proof -
  have addr: "en_address (pay_engine mp) = own_address" "kp_public (en_keypair (pay_engine mp)) = PublicKey 7"
    by (simp_all add: pay_engine_def val_engine_def keypair_from_secret_bytes_def fee_env_def)
  have "write_all E = write_all fee_env" using assms write_all_locked by auto
  then have db: "en_db (pay_engine mp) = write_all E fee_codec [(en_address (pay_engine mp), rich_seat)] (sample_block []) 1 memory_db"
    by (simp add: addr pay_db_def)
  have "seat_of rich_seat = (True, 300, Some (kp_public (en_keypair (pay_engine mp))))" by (simp add: rich_seat_of addr)
  from seat_ready [OF pay_laws(1) _ db this]
  show "ready E fee_codec 300 1 (sample_block []) (pay_engine mp)" "om_ok (kv_map (db_kv (en_db (pay_engine mp))))"
    by (simp_all add: addr fee_codec_def own_address_def sample_env_same [OF assms]) (simp_all add: pay_engine_def val_engine_def)
qed

definition pay_node :: node_sys where
  "pay_node = \<lparr>ns_db = pay_db, ns_pool = new_pool, ns_peers = peer_manager_new, ns_chain_id = ''aura'', ns_sent = [],
     ns_engine = Some (pay_engine new_pool), ns_metrics = metrics_new\<rparr>"

theorem request_settles_witness:
  "\<exists>resp ns1 ns2. serve locked_env fee_codec sample_lib
      (sample_request ''sendTransaction'' (SList [STx (priced_tx 40000 200 1 [])])) pay_node = Ret resp ns1 \<and>
    engine_tick locked_env fee_codec sample_lib (Some 9) ns1 = Blocked ns2 \<and>
    unat (balance (get_account fee_codec (ns_db ns2) (Address 9))) = 40000"
proof -
  let ?tx = "priced_tx 40000 200 1 []"
  let ?req = "sample_request ''sendTransaction'' (SList [STx ?tx])"
  have E: "locked_env \<in> sample_envs" by simp
  have "engine_on pay_node (pay_engine new_pool) = pay_engine new_pool"
    by (simp add: engine_on_def pay_node_def pay_engine_def)
  moreover have "rq_method ?req = ''sendTransaction''" "read_transaction sample_lib (rq_params ?req) = Inr ?tx"
    by (simp_all add: sample_request_def read_transaction_def sample_lib_def)
  moreover have "tx_sender ?tx = own_address" "tx_recipient ?tx = Address 9" by (rule priced_sender)+
  moreover have "ns_db pay_node = pay_db" "ns_pool pay_node = new_pool" "ns_engine pay_node = Some (pay_engine new_pool)"
    by (simp_all add: pay_node_def)
  ultimately show ?thesis
    using request_settles [of locked_env fee_codec pay_node "pay_engine new_pool" 300 1 "sample_block []" ?req sample_lib ?tx 9]
      pay_ready [OF E, of new_pool] pay_laws priced_accepted [OF E, of 200 40000 1] new_pool_facts locked_ok(2)
    by (auto simp: pay_balances)
qed

text \<open>A pool with one payment in it.\<close>

lemma pay_pooled:
  assumes E: "E \<in> sample_envs"
  obtains mp where "harvest (1024 * 1024) mp = [priced_tx 40000 200 1 []]" "mp_inv E mp"
    "run_fits (prof E) [priced_tx 40000 200 1 []] (get_account fee_codec (en_db (pay_engine mp)))"
proof -
  let ?tx = "priced_tx 40000 200 1 []"
  note ok = priced_accepted [OF E, of 200 40000 1]
  obtain mp where add: "add_transaction E fee_codec pay_db ?tx new_pool = Ret (Inr (tx_hash E ?tx)) mp"
    using add_succeeds [of E ?tx fee_codec pay_db new_pool] ok new_pool_facts unfolding priced_sender by auto
  note one = one_pooled [OF add]
  have "run_fits (prof E) [?tx] (get_account fee_codec (en_db (pay_engine mp)))"
    unfolding run_fits.simps tx_fits_def priced_sender by (simp add: pay_balances)
  with one(3,5) that show ?thesis by blast
qed

theorem loop_stops_after_one_block_witness:
  "\<exists>mp b en'. node_loop locked_env fee_codec [Some 9, Some 12, Some 15] (pay_engine mp) = Blocked en' \<and>
    b_transactions b = [priced_tx 40000 200 1 []] \<and> get_latest_height (en_db en') = 2 \<and>
    kv_get (db_kv (en_db en')) (block_key (block_hash locked_env b)) = Some (block_enc fee_codec b) \<and>
    unat (balance (get_account fee_codec (en_db en') (Address 9))) = 40000"
proof -
  let ?tx = "priced_tx 40000 200 1 []"
  have E: "locked_env \<in> sample_envs" by simp
  obtain mp where mp: "harvest (1024 * 1024) mp = [?tx]" "mp_inv locked_env mp"
    "run_fits (prof locked_env) [?tx] (get_account fee_codec (en_db (pay_engine mp)))" by (rule pay_pooled [OF E])
  from loop_stops_after_one_block [OF locked_ok(2) pay_laws(1) pay_ready [OF E, of mp], of 9 "[Some 12, Some 15]"] mp
  obtain b en' where r: "node_loop locked_env fee_codec [Some 9, Some 12, Some 15] (pay_engine mp) = Blocked en'"
    "b_transactions b = [?tx]" "get_latest_height (en_db en') = 2"
    "kv_get (db_kv (en_db en')) (block_key (block_hash locked_env b)) = Some (block_enc fee_codec b)"
    "get_account fee_codec (en_db en') = ledger_step ?tx (get_account fee_codec pay_db)" by auto
  have "unat (balance (ledger_step ?tx (get_account fee_codec pay_db) (tx_recipient ?tx))) = 40000"
    by (subst settled_transfer(2)) (unfold priced_sender, simp_all add: pay_balances)
  then have "unat (balance (get_account fee_codec (en_db en') (Address 9))) = 40000" by (simp add: r(5) priced_sender)
  with r show ?thesis by blast
qed

theorem tick_settles_pool_witness:
  "\<exists>b mp en'. node_tick fee_env fee_codec (Some 9) (pay_engine mp) = Ret None en' \<and>
    b_transactions b = [priced_tx 40000 200 1 []] \<and> get_latest_height (en_db en') = 2 \<and>
    kv_get (db_kv (en_db en')) (block_key (block_hash fee_env b)) = Some (block_enc fee_codec b)"
proof -
  have E: "fee_env \<in> sample_envs" by simp
  obtain mp where "harvest (1024 * 1024) mp = [priced_tx 40000 200 1 []]" "mp_inv fee_env mp"
    "run_fits (prof fee_env) [priced_tx 40000 200 1 []] (get_account fee_codec (en_db (pay_engine mp)))"
    by (rule pay_pooled [OF E])
  then show ?thesis
    using tick_settles_pool [of fee_env fee_codec 300 1 "sample_block []" "pay_engine mp" 9] pay_ready [OF E, of mp]
      pay_laws(1) fee_env_locks(1) by auto
qed

definition shipped_env :: env where
  "shipped_env = fee_env\<lparr>prof := Release\<rparr>"

definition shipped_engine :: "mempool \<Rightarrow> engine" where
  "shipped_engine mp = val_engine\<lparr>en_pool := mp,
     en_db := write_all shipped_env full_codec [(own_address, rich_seat)] (sample_block []) 1 memory_db\<rparr>"

lemma shipped_same:
  "locks shipped_env = reentrant" "prof shipped_env = Release" "address_from_pubkey shipped_env = address_from_pubkey fee_env"
  "validate_stateless shipped_env tx = validate_stateless fee_env tx"
  using fee_env_locks(1)
  by (simp_all add: shipped_env_def fun_eq_iff address_from_pubkey_def hash_with_domain_def hash_bytes_def
      validate_stateless_def tx_verify_def pk_verify_def Let_def)

lemma shipped_ready:
  "ready shipped_env full_codec 300 1 (sample_block []) (shipped_engine mp)"
  "om_ok (kv_map (db_kv (en_db (shipped_engine mp))))"
  "get_account full_codec (en_db (shipped_engine mp)) a = (if a = own_address then rich_seat else account_default)"
proof -
  have addr: "en_address (shipped_engine mp) = own_address" "kp_public (en_keypair (shipped_engine mp)) = PublicKey 7"
    by (simp_all add: shipped_engine_def val_engine_def keypair_from_secret_bytes_def fee_env_def)
  have db: "en_db (shipped_engine mp) =
      write_all shipped_env full_codec [(en_address (shipped_engine mp), rich_seat)] (sample_block []) 1 memory_db"
    unfolding addr by (simp add: shipped_engine_def)
  have "seat_of rich_seat = (True, 300, Some (kp_public (en_keypair (shipped_engine mp))))" by (simp add: rich_seat_of addr)
  from seat_ready [OF full_codec_laws(1,2) db this]
  show "ready shipped_env full_codec 300 1 (sample_block []) (shipped_engine mp)"
    "om_ok (kv_map (db_kv (en_db (shipped_engine mp))))"
    "get_account full_codec (en_db (shipped_engine mp)) a = (if a = own_address then rich_seat else account_default)"
    by (simp_all add: addr own_address_def shipped_same) (simp_all add: shipped_engine_def val_engine_def)
qed

theorem loop_makes_progress_witness:
  "\<exists>mp bs en'. by_hash mp \<noteq> [] \<and> node_loop shipped_env full_codec [Some 9, Some 12] (shipped_engine mp) = Ret [] en' \<and>
    length bs = 2 \<and> extends shipped_env 1 (sample_block []) bs \<and> cur_height en' = 4 \<and> by_hash (en_pool en') = []"
proof -
  let ?tx = "priced_tx 40000 200 1 []" and ?db = "en_db (shipped_engine new_pool)"
  have sender: "get_account full_codec ?db (tx_sender ?tx) = rich_seat"
    unfolding priced_sender by (simp add: shipped_ready(3))
  have acc: "balance rich_seat = 100000" "nonce rich_seat = 0" by (simp_all add: rich_seat_def seat_def)
  then have "validate_stateful shipped_env ?tx rich_seat = Some (Inr ())"
    using validate_stateful_accepts [of rich_seat shipped_env ?tx] sat_add_le_iff [of "100000" "40000 :: u64" 200]
    by (simp add: word_less_nat_alt word_le_nat_alt)
  then obtain mp where add: "add_transaction shipped_env full_codec ?db ?tx new_pool = Ret (Inr (tx_hash shipped_env ?tx)) mp"
    using add_succeeds [of shipped_env ?tx full_codec ?db new_pool] priced_accepted(1) [of fee_env 200 40000 1] new_pool_facts sender
    by (auto simp: shipped_same)
  note one = one_pooled [OF add]
  have "by_hash mp \<noteq> []" "pool_size (by_hash mp) \<le> 1024 * 1024" "settleable shipped_env mp"
    using one(3,4,6) by (auto simp: settleable_def shipped_same list_all_iff)
  moreover have "en_pool (shipped_engine mp) = mp" by (simp add: shipped_engine_def)
  ultimately obtain bs en' where run: "node_loop shipped_env full_codec (map Some [9, 12]) (shipped_engine mp) = Ret [] en'"
    "length bs = 2" "extends shipped_env 1 (sample_block []) bs" "cur_height en' = 4" "by_hash (en_pool en') = []"
    using loop_makes_progress [OF shipped_same(1) full_codec_laws(1,2) shipped_ready(1) [of mp] shipped_ready(2), of "[9, 12]"]
    by (force simp del: node_loop.simps)
  have "map Some [9, 12] = [Some 9, Some (12 :: u64)]" by simp
  with run \<open>by_hash mp \<noteq> []\<close> show ?thesis by metis
qed

end
