(* ===== verification/Cipher.thy ===== *)
theory Cipher
  imports Transaction Merkle
begin

unbundle bit_operations_syntax

text \<open>
  \<open>aura-tunnel\<close>, the parts without sockets: bandwidth vouchers (\<open>billing.rs\<close>), the session
  key (\<open>handshake.rs\<close>) and the authenticated stream cipher (\<open>cipher.rs\<close>). A cipher session
  is a record passed through \<open>encrypt\<close> and \<open>decrypt\<close>; a sequence number that overflows
  panics in a debug build and wraps in a release build.
\<close>

section \<open>Vouchers\<close>

definition DOMAIN_VOUCHER :: bytes where
  "DOMAIN_VOUCHER = str_bytes ''AURA_BANDWIDTH_VOUCHER_v1''"

record bandwidth_voucher =
  bv_session_id :: u64
  bv_bytes_served :: u64
  bv_aur_amount :: u64
  bv_client_address :: address
  bv_client_pubkey :: public_key
  bv_signature :: signature

definition voucher_signing_bytes :: "u64 \<Rightarrow> u64 \<Rightarrow> u64 \<Rightarrow> address \<Rightarrow> bytes" where
  "voucher_signing_bytes session_id bytes_served aur_amount client_address =
     be_bytes 8 session_id @ be_bytes 8 bytes_served @ be_bytes 8 aur_amount @ addr_bytes client_address"

definition voucher_new_signed :: "env \<Rightarrow> u64 \<Rightarrow> u64 \<Rightarrow> u64 \<Rightarrow> key_pair \<Rightarrow> bandwidth_voucher" where
  "voucher_new_signed E session_id bytes_served aur_amount kp =
     (let client_address = address_from_pubkey E (kp_public kp);
          data = voucher_signing_bytes session_id bytes_served aur_amount client_address;
          h = hash_with_domain E DOMAIN_VOUCHER data
      in \<lparr>bv_session_id = session_id, bv_bytes_served = bytes_served, bv_aur_amount = aur_amount,
          bv_client_address = client_address, bv_client_pubkey = kp_public kp,
          bv_signature = kp_sign E kp (hash_bytes_of h)\<rparr>)"

definition voucher_hash :: "env \<Rightarrow> bandwidth_voucher \<Rightarrow> hash" where
  "voucher_hash E v =
     hash_with_domain E DOMAIN_VOUCHER
       (voucher_signing_bytes (bv_session_id v) (bv_bytes_served v) (bv_aur_amount v) (bv_client_address v))"

definition voucher_verify :: "env \<Rightarrow> bandwidth_voucher \<Rightarrow> bool" where
  "voucher_verify E v =
     (if address_from_pubkey E (bv_client_pubkey v) \<noteq> bv_client_address v then False
      else pk_verify E (bv_client_pubkey v) (hash_bytes_of (voucher_hash E v)) (bv_signature v) = Inr ())"

section \<open>Handshake\<close>

definition DOMAIN_HANDSHAKE :: bytes where
  "DOMAIN_HANDSHAKE = str_bytes ''AURA_TUNNEL_HANDSHAKE_v1''"

record handshake_init =
  client_identity :: public_key
  client_ephemeral :: public_key
  init_timestamp :: u64

record handshake_response =
  host_identity :: public_key
  host_ephemeral :: public_key
  response_timestamp :: u64

definition derive_session_key :: "env \<Rightarrow> public_key \<Rightarrow> public_key \<Rightarrow> 256 word" where
  "derive_session_key E client_eph host_eph =
     hash_word (hash_with_domain E DOMAIN_HANDSHAKE (pk_bytes client_eph @ pk_bytes host_eph))"

section \<open>The cipher\<close>

definition DOMAIN_AEAD_STREAM :: bytes where
  "DOMAIN_AEAD_STREAM = str_bytes ''AURA_TUNNEL_STREAM_v1''"

definition DOMAIN_AEAD_TAG :: bytes where
  "DOMAIN_AEAD_TAG = str_bytes ''AURA_TUNNEL_TAG_v1''"

datatype cipher_error = TagMismatch | ReplayDetected u64 u64 | PayloadTooLarge

record tunnel_cipher =
  session_key :: "256 word"
  tx_seq :: u64
  rx_seq :: u64

definition cipher_new :: "256 word \<Rightarrow> tunnel_cipher" where
  "cipher_new key = \<lparr>session_key = key, tx_seq = 0, rx_seq = 0\<rparr>"

definition stream_key :: "env \<Rightarrow> 256 word \<Rightarrow> u64 \<Rightarrow> bytes" where
  "stream_key E key n =
     hash_bytes_of (hash_with_domain E DOMAIN_AEAD_STREAM (be_bytes 32 key @ be_bytes 8 n))"

definition xor_stream :: "bytes \<Rightarrow> bytes \<Rightarrow> bytes" where
  "xor_stream key_bytes data = map (\<lambda>(i, b). b XOR key_bytes ! (i mod 32)) (enumerate 0 data)"

definition auth_tag :: "env \<Rightarrow> 256 word \<Rightarrow> u64 \<Rightarrow> bytes \<Rightarrow> bytes" where
  "auth_tag E key n ciphertext =
     hash_bytes_of (hash_with_domain E DOMAIN_AEAD_TAG (be_bytes 32 key @ be_bytes 8 n @ ciphertext))"

definition encrypt :: "env \<Rightarrow> bytes \<Rightarrow> tunnel_cipher \<Rightarrow> (bytes, tunnel_cipher) outcome" where
  "encrypt E plaintext c =
     (let n = tx_seq c in
      or_panic (add_ck (prof E) (tx_seq c) 1) c (\<lambda>next_seq.
        let c = c\<lparr>tx_seq := next_seq\<rparr>;
            ciphertext = xor_stream (stream_key E (session_key c) n) plaintext;
            tag = auth_tag E (session_key c) n ciphertext
        in Ret (be_bytes 8 n @ tag @ ciphertext) c))"

definition decrypt :: "env \<Rightarrow> bytes \<Rightarrow> tunnel_cipher \<Rightarrow> (cipher_error + bytes, tunnel_cipher) outcome" where
  "decrypt E frame c =
     (if length frame < 40 then Ret (Inl TagMismatch) c
      else let n = of_be_bytes (take 8 frame) in
        if n < rx_seq c then Ret (Inl (ReplayDetected (rx_seq c) n)) c
        else or_panic (add_ck (prof E) n 1) c (\<lambda>next_seq.
          let c = c\<lparr>rx_seq := next_seq\<rparr>;
              tag_bytes = take 32 (drop 8 frame);
              ciphertext = drop 40 frame;
              expected_tag = auth_tag E (session_key c) n ciphertext
          in if expected_tag \<noteq> tag_bytes then Ret (Inl TagMismatch) c
             else Ret (Inr (xor_stream (stream_key E (session_key c) n) ciphertext)) c))"

text \<open>A session: frames encrypted, and frames decrypted, one after the other.\<close>

fun encrypt_all :: "env \<Rightarrow> bytes list \<Rightarrow> tunnel_cipher \<Rightarrow> (bytes list, tunnel_cipher) outcome" where
  "encrypt_all E [] c = Ret [] c"
| "encrypt_all E (p # ps) c =
     andThen (encrypt E p c) (\<lambda>f c. andThen (encrypt_all E ps c) (\<lambda>fs c. Ret (f # fs) c))"

fun decrypt_all :: "env \<Rightarrow> bytes list \<Rightarrow> tunnel_cipher \<Rightarrow> (cipher_error + bytes list, tunnel_cipher) outcome" where
  "decrypt_all E [] c = Ret (Inr []) c"
| "decrypt_all E (f # fs) c =
     andThen (decrypt E f c) (\<lambda>r c. case r of Inl e \<Rightarrow> Ret (Inl e) c
       | Inr p \<Rightarrow> andThen (decrypt_all E fs c) (\<lambda>r c. case r of Inl e \<Rightarrow> Ret (Inl e) c
           | Inr ps \<Rightarrow> Ret (Inr (p # ps)) c))"

section \<open>Lemmas\<close>

lemma length_xor_stream [simp]: "length (xor_stream k xs) = length xs"
  by (simp add: xor_stream_def)

lemma xor_stream_nth: "i < length xs \<Longrightarrow> xor_stream k xs ! i = xs ! i XOR k ! (i mod 32)"
  by (simp add: xor_stream_def nth_enumerate_eq)

lemma xor_stream_twice [simp]: "xor_stream k (xor_stream k xs) = xs"
  by (rule nth_equalityI) (simp_all add: xor_stream_nth xor.assoc)

lemma length_auth_tag [simp]: "length (auth_tag E key n ct) = 32"
  by (simp add: auth_tag_def)

lemma encrypt_Ret:
  assumes "encrypt E p c = Ret f c'"
  shows "f = be_bytes 8 (tx_seq c) @
      auth_tag E (session_key c) (tx_seq c) (xor_stream (stream_key E (session_key c) (tx_seq c)) p) @
      xor_stream (stream_key E (session_key c) (tx_seq c)) p"
    and "c' = c\<lparr>tx_seq := tx_seq c + 1\<rparr>" and "add_ck (prof E) (tx_seq c) 1 = Some (tx_seq c + 1)"
  using assms by (auto simp: encrypt_def Let_def or_panic_Ret_iff dest: add_ck_SomeD)

text \<open>A frame taken apart.\<close>

lemma frame_parts:
  assumes "length tag = 32"
  shows "take 8 (be_bytes 8 (n :: u64) @ tag @ ct) = be_bytes 8 n"
    "take 32 (drop 8 (be_bytes 8 n @ tag @ ct)) = tag" "drop 40 (be_bytes 8 n @ tag @ ct) = ct"
    "of_be_bytes (take 8 (be_bytes 8 n @ tag @ ct)) = n"
  using assms by (simp_all add: of_be_bytes_be_bytes)

lemma decrypt_frame:
  assumes "length tag = 32" and "rx_seq c \<le> n" and "add_ck (prof E) n 1 = Some (n + 1)"
  shows "decrypt E (be_bytes 8 n @ tag @ ct) c =
    (if auth_tag E (session_key c) n ct = tag
     then Ret (Inr (xor_stream (stream_key E (session_key c) n) ct)) (c\<lparr>rx_seq := n + 1\<rparr>)
     else Ret (Inl TagMismatch) (c\<lparr>rx_seq := n + 1\<rparr>))"
  using assms frame_parts [OF assms(1), of n ct] by (simp add: decrypt_def Let_def not_less)

lemma frame_split:
  assumes "\<not> length f < 40"
  shows "f = be_bytes 8 (of_be_bytes (take 8 f) :: u64) @ take 32 (drop 8 f) @ drop 40 f"
    and "length (take 32 (drop 8 f)) = 32"
proof -
  have "be_bytes 8 (of_be_bytes (take 8 f) :: u64) = take 8 f"
    using assms by (intro be_bytes_of_be_bytes) simp_all
  moreover have "drop 8 f = take 32 (drop 8 f) @ drop 40 f"
    using append_take_drop_id [of 32 "drop 8 f"] by simp
  ultimately show "f = be_bytes 8 (of_be_bytes (take 8 f) :: u64) @ take 32 (drop 8 f) @ drop 40 f"
    using append_take_drop_id [of 8 f] by simp
  show "length (take 32 (drop 8 f)) = 32" using assms by simp
qed

text \<open>The number a frame carries, and what its tag is computed from.\<close>

definition frame_seq :: "bytes \<Rightarrow> u64" where
  "frame_seq f = of_be_bytes (take 8 f)"

definition tag_input :: "256 word \<Rightarrow> bytes \<Rightarrow> bytes" where
  "tag_input key f = domain_preimage DOMAIN_AEAD_TAG (be_bytes 32 key @ take 8 f @ drop 40 f)"

lemma decrypt_Ret:
  assumes "decrypt E f c = Ret r c'"
  obtains (short) "length f < 40" "r = Inl TagMismatch" "c' = c"
  | (replay) "\<not> length f < 40" "frame_seq f < rx_seq c" "r = Inl (ReplayDetected (rx_seq c) (frame_seq f))" "c' = c"
  | (fresh) "\<not> length f < 40" "rx_seq c \<le> frame_seq f" "c' = c\<lparr>rx_seq := frame_seq f + 1\<rparr>"
      "prof E = Debug \<longrightarrow> frame_seq f \<noteq> - 1"
      "r = (if hash_bytes_of (Hash (blake3 E (tag_input (session_key c) f))) = take 32 (drop 8 f)
            then Inr (xor_stream (stream_key E (session_key c) (frame_seq f)) (drop 40 f))
            else Inl TagMismatch)"
proof -
  note d = assms [unfolded decrypt_def Let_def frame_seq_def [symmetric]]
  consider "length f < 40" | "\<not> length f < 40" "frame_seq f < rx_seq c"
    | "\<not> length f < 40" "\<not> frame_seq f < rx_seq c" by blast
  then show thesis
  proof cases
    case 1
    from d 1 have "r = Inl TagMismatch" "c' = c" by simp_all
    with 1 show thesis by (rule short)
  next
    case 2
    from d 2 have "r = Inl (ReplayDetected (rx_seq c) (frame_seq f))" "c' = c" by auto
    with 2 show thesis by (rule replay)
  next
    case 3
    have seq: "be_bytes 8 (frame_seq f) = take 8 f"
      unfolding frame_seq_def using 3(1) by (intro be_bytes_of_be_bytes) simp_all
    from d 3 obtain m where m: "add_ck (prof E) (frame_seq f) 1 = Some m"
      by (auto simp: or_panic_Ret_iff)
    have m1: "m = frame_seq f + 1" using m by (rule add_ck_SomeD)
    have last: "prof E = Debug \<longrightarrow> frame_seq f \<noteq> - 1"
      using m by (auto simp: add_ck_def unsigned_minus_1_eq_mask mask_eq_exp_minus_1 split: if_splits)
    have tag: "hash_bytes_of (Hash (blake3 E (tag_input (session_key c) f))) =
        auth_tag E (session_key c) (frame_seq f) (drop 40 f)"
      by (simp add: auth_tag_def hash_with_domain_def tag_input_def seq)
    show thesis
    proof (rule fresh [OF 3(1) _ _ last])
      show "rx_seq c \<le> frame_seq f" using 3(2) by simp
      show "c' = c\<lparr>rx_seq := frame_seq f + 1\<rparr>"
        using d 3 m by (simp add: m1 split: if_splits)
      show "r = (if hash_bytes_of (Hash (blake3 E (tag_input (session_key c) f))) = take 32 (drop 8 f)
          then Inr (xor_stream (stream_key E (session_key c) (frame_seq f)) (drop 40 f)) else Inl TagMismatch)"
        unfolding tag using d 3 m by (simp split: if_splits)
    qed
  qed
qed

lemma seq_succ: "n \<noteq> - 1 \<Longrightarrow> unat (n + 1 :: u64) = unat n + 1"
proof -
  assume "n \<noteq> - 1"
  then have "unat n \<noteq> unat (- 1 :: u64)" by (simp add: word_unat_eq_iff)
  then have "unat n + 1 < 2 ^ 64"
    using unat_bound [of n] by (simp add: unsigned_minus_1_eq_mask mask_eq_exp_minus_1)
  then show ?thesis by (simp add: unat_plus_small)
qed

text \<open>Frames handed to a receiver one by one, whatever each of them returns.\<close>

inductive received :: "env \<Rightarrow> tunnel_cipher \<Rightarrow> bytes list \<Rightarrow> tunnel_cipher \<Rightarrow> bool" for E c0 where
  received_none: "received E c0 [] c0"
| received_frame: "received E c0 fs c \<Longrightarrow> decrypt E f c = Ret r c' \<Longrightarrow> received E c0 (fs @ [f]) c'"

lemma decrypt_mono:
  assumes "decrypt E f c = Ret r c'" and "prof E = Release \<longrightarrow> frame_seq f \<noteq> - 1"
  shows "rx_seq c \<le> rx_seq c'"
  using assms(1)
proof (cases rule: decrypt_Ret)
  case fresh
  then have "frame_seq f \<noteq> - 1" using assms(2) by (cases "prof E") auto
  with fresh show ?thesis using seq_succ [of "frame_seq f"] by (simp add: word_le_nat_alt)
qed simp_all

lemma received_mono:
  "received E c0 fs c \<Longrightarrow> prof E = Release \<longrightarrow> (\<forall>f \<in> set fs. frame_seq f \<noteq> - 1) \<Longrightarrow> rx_seq c0 \<le> rx_seq c"
  by (induction rule: received.induct) (auto dest!: decrypt_mono intro: order_trans)

lemma tag_input_inject:
  assumes "tag_input key f = tag_input key g" and "\<not> length f < 40" and "\<not> length g < 40"
    and "take 32 (drop 8 f) = take 32 (drop 8 g)"
  shows "f = g"
proof -
  have "take 8 f @ drop 40 f = take 8 g @ drop 40 g"
    using assms(1) by (simp add: tag_input_def domain_preimage_def)
  moreover have "length (take 8 f) = length (take 8 g)" using assms(2,3) by simp
  ultimately have "take 8 f = take 8 g" "drop 40 f = drop 40 g" by (simp_all add: append_eq_append_conv)
  then show "f = g"
    using assms(4) frame_split(1) [OF assms(2)] frame_split(1) [OF assms(3)] by metis
qed

section \<open>Properties\<close>

text \<open>
  C28: what one side of a session encrypts, the other side with the same key decrypts to the
  same payloads in the same order, and the two stay in step.
\<close>
theorem cipher_stream:
  assumes "encrypt_all E ps s = Ret fs s'" and "session_key r = session_key s" and "rx_seq r = tx_seq s"
  shows "\<exists>r'. decrypt_all E fs r = Ret (Inr ps) r' \<and> session_key r' = session_key s' \<and> rx_seq r' = tx_seq s'"
  using assms
proof (induction ps arbitrary: s r fs)
  case (Cons p ps)
  then obtain f s1 fs' where e: "encrypt E p s = Ret f s1" "encrypt_all E ps s1 = Ret fs' s'" "fs = f # fs'"
    by (auto simp: andThen_Ret_iff)
  note f = encrypt_Ret [OF e(1)]
  have d: "decrypt E f r = Ret (Inr p) (r\<lparr>rx_seq := tx_seq s + 1\<rparr>)"
    using f(3) Cons.prems(2,3) unfolding f(1) by (subst decrypt_frame) simp_all
  from Cons.IH [OF e(2), of "r\<lparr>rx_seq := tx_seq s + 1\<rparr>"] Cons.prems(2) f(2)
  obtain r' where r': "decrypt_all E fs' (r\<lparr>rx_seq := tx_seq s + 1\<rparr>) = Ret (Inr ps) r'"
    "session_key r' = session_key s'" "rx_seq r' = tx_seq s'" by auto
  have "decrypt_all E fs r = Ret (Inr (p # ps)) r'"
    unfolding e(3) decrypt_all.simps d andThen.simps sum.case r'(1) ..
  with r'(2,3) show ?case by blast
qed simp

text \<open>
  A frame that was altered outside its tag, or in its tag alone, is not accepted, or
  the two tag inputs are an explicit collision of BLAKE3.
\<close>
theorem cipher_tamper:
  assumes "encrypt E p s = Ret f s'" and "session_key r = session_key s" and "g \<noteq> f"
    and "take 32 (drop 8 g) = take 32 (drop 8 f) \<or> take 8 g = take 8 f \<and> drop 40 g = drop 40 f"
    and "decrypt E g r = Ret (Inr q) r'"
  shows "blake3_collision E (tag_input (session_key s) f) (tag_input (session_key s) g)"
  using assms(5)
proof (cases rule: decrypt_Ret)
  case fresh
  note f = encrypt_Ret(1) [OF assms(1)]
  let ?ct = "xor_stream (stream_key E (session_key s) (tx_seq s)) p"
  have len: "\<not> length f < 40" unfolding f by simp
  have t: "take 8 f = be_bytes 8 (tx_seq s)"
    "take 32 (drop 8 f) = auth_tag E (session_key s) (tx_seq s) ?ct" "drop 40 f = ?ct"
    unfolding f by (rule frame_parts, simp)+
  have tagf: "take 32 (drop 8 f) = hash_bytes_of (Hash (blake3 E (tag_input (session_key s) f)))"
    unfolding tag_input_def t by (simp add: auth_tag_def hash_with_domain_def)
  have tagg: "take 32 (drop 8 g) = hash_bytes_of (Hash (blake3 E (tag_input (session_key s) g)))"
    using fresh(5) assms(2) by (simp split: if_splits)
  have same: "take 32 (drop 8 g) = take 32 (drop 8 f)"
    using assms(4)
  proof
    assume "take 8 g = take 8 f \<and> drop 40 g = drop 40 f"
    then show ?thesis unfolding tagf tagg by (simp add: tag_input_def)
  qed
  then have "Hash (blake3 E (tag_input (session_key s) f)) = Hash (blake3 E (tag_input (session_key s) g))"
    unfolding tagf tagg by (rule hash_arr.to_bytes_inject [symmetric])
  then show ?thesis
    using tag_input_inject [OF _ fresh(1) len same, of "session_key s"] assms(3)
    unfolding blake3_collision_def by (metis hash.inject)
qed simp_all

text \<open>
  C29: a frame that was accepted is not accepted again, whatever frames follow: in a debug
  build never, and in a release build as long as none of the frames carries the last sequence
  number \<open>2 ^ 64 - 1\<close>, which wraps the counter (theorem \<open>last_number_resets\<close>).
\<close>
theorem replay_refused:
  assumes "decrypt E f c = Ret (Inr p) c1" and "received E c1 fs c2"
    and "prof E = Release \<longrightarrow> (\<forall>g \<in> set (f # fs). frame_seq g \<noteq> - 1)"
  shows "decrypt E f c2 = Ret (Inl (ReplayDetected (rx_seq c2) (frame_seq f))) c2"
  using assms(1)
proof (cases rule: decrypt_Ret)
  case fresh
  then have n: "frame_seq f \<noteq> - 1" using assms(3) by (cases "prof E") auto
  have "rx_seq c1 \<le> rx_seq c2" by (rule received_mono [OF assms(2)]) (use assms(3) in simp)
  then have "frame_seq f < rx_seq c2"
    using fresh(3) seq_succ [OF n] by (simp add: word_le_nat_alt word_less_nat_alt)
  then show ?thesis using fresh(1) by (simp add: decrypt_def frame_seq_def Let_def)
qed simp_all

text \<open>
  The receive counter moves before the tag is checked: any 40 bytes that carry a number
  not below the counter are refused, yet from then on the receiver refuses the sender's own
  frames up to that number. No key is needed to close a session so.
\<close>
theorem forged_frame_desynchronises:
  assumes "\<not> length g < 40" and "rx_seq r \<le> frame_seq g" and "frame_seq g \<noteq> - 1"
    and "hash_bytes_of (Hash (blake3 E (tag_input (session_key r) g))) \<noteq> take 32 (drop 8 g)"
    and "encrypt E p s = Ret f s'" and "session_key r = session_key s" and "tx_seq s \<le> frame_seq g"
  shows "\<exists>r'. decrypt E g r = Ret (Inl TagMismatch) r' \<and>
    decrypt E f r' = Ret (Inl (ReplayDetected (frame_seq g + 1) (tx_seq s))) r'"
proof -
  have room: "add_ck (prof E) (frame_seq g) 1 = Some (frame_seq g + 1)"
    using seq_succ [OF assms(3)] unat_bound [of "frame_seq g + 1"] by (simp add: add_ck_def)
  have split: "g = be_bytes 8 (frame_seq g) @ take 32 (drop 8 g) @ drop 40 g" "length (take 32 (drop 8 g)) = 32"
    using frame_split [OF assms(1)] by (simp_all add: frame_seq_def)
  have "be_bytes 8 (frame_seq g) = take 8 g"
    unfolding frame_seq_def using assms(1) by (intro be_bytes_of_be_bytes) simp_all
  then have "auth_tag E (session_key r) (frame_seq g) (drop 40 g) \<noteq> take 32 (drop 8 g)"
    using assms(4) by (simp add: auth_tag_def hash_with_domain_def tag_input_def)
  then have d: "decrypt E g r = Ret (Inl TagMismatch) (r\<lparr>rx_seq := frame_seq g + 1\<rparr>)"
    using decrypt_frame [OF split(2) assms(2) room, of "drop 40 g"] split(1) by simp
  note f = encrypt_Ret(1) [OF assms(5)]
  have "\<not> length f < 40" "frame_seq f = tx_seq s"
    unfolding f by (simp, simp add: frame_seq_def of_be_bytes_be_bytes)
  moreover have "tx_seq s < frame_seq g + 1"
    using assms(7) seq_succ [OF assms(3)] by (simp add: word_le_nat_alt word_less_nat_alt)
  ultimately have "decrypt E f (r\<lparr>rx_seq := frame_seq g + 1\<rparr>) =
      Ret (Inl (ReplayDetected (frame_seq g + 1) (tx_seq s))) (r\<lparr>rx_seq := frame_seq g + 1\<rparr>)"
    by (simp add: decrypt_def frame_seq_def Let_def)
  with d show ?thesis by blast
qed

text \<open>
  A forged frame with the last sequence number needs no key either: a debug build
  panics on it, and a release build refuses its tag but wraps the counter to zero, after
  which every frame ever sent in the session is accepted again.
\<close>
theorem last_number_resets:
  assumes "\<not> length g < 40" and "frame_seq g = - 1"
    and "encrypt E p s = Ret f s'" and "session_key r = session_key s"
  shows "case prof E of
      Debug \<Rightarrow> decrypt E g r = Panic r
    | Release \<Rightarrow> \<exists>x r' r''. decrypt E g r = Ret x r' \<and> decrypt E f r' = Ret (Inr p) r''"
proof -
  have le: "rx_seq r \<le> - 1" by simp
  have n: "(of_be_bytes (take 8 g) :: u64) = - 1" using assms(2) by (simp add: frame_seq_def)
  show ?thesis
  proof (cases "prof E")
    case Debug
    then show ?thesis
      using assms(1) by (simp add: decrypt_def Let_def n not_less le add_ck_def unsigned_minus_1_eq_mask mask_eq_exp_minus_1)
  next
    case Release
    have d: "\<exists>x. decrypt E g r = Ret x (r\<lparr>rx_seq := 0\<rparr>)"
      using assms(1) by (simp add: decrypt_def Let_def n not_less le Release add_ck_Release)
    have "decrypt E f (r\<lparr>rx_seq := 0\<rparr>) = Ret (Inr p) (r\<lparr>rx_seq := tx_seq s + 1\<rparr>)"
      unfolding encrypt_Ret(1) [OF assms(3)] using assms(4)
      by (subst decrypt_frame) (simp_all add: Release add_ck_Release)
    with d Release show ?thesis by auto
  qed
qed

text \<open>
  The key stream of a frame repeats after 32 bytes, so a frame shows, to anyone, the
  difference of any two payload bytes 32 places apart.
\<close>
theorem keystream_repeats:
  assumes "encrypt E p s = Ret f s'" and "i + 32 < length p"
  shows "drop 40 f ! i XOR drop 40 f ! (i + 32) = p ! i XOR p ! (i + 32)"
proof -
  have "drop 40 f = xor_stream (stream_key E (session_key s) (tx_seq s)) p"
    unfolding encrypt_Ret(1) [OF assms(1)] by (rule frame_parts) simp
  then show ?thesis using assms(2) by (simp add: xor_stream_nth bit_eq_iff bit_xor_iff) blast
qed

text \<open>
  Whoever sees the two public keys of the handshake reads the session: a cipher made from
  them alone decrypts every frame the client sends.
\<close>
theorem eavesdropper_reads:
  assumes "s = cipher_new (derive_session_key E (client_ephemeral i) (host_ephemeral h))"
    and "encrypt_all E ps s = Ret fs s'"
  shows "\<exists>r'. decrypt_all E fs (cipher_new (hash_word (hash_with_domain E DOMAIN_HANDSHAKE
      (pk_bytes (client_ephemeral i) @ pk_bytes (host_ephemeral h))))) = Ret (Inr ps) r'"
proof -
  have "\<exists>r'. decrypt_all E fs s = Ret (Inr ps) r' \<and> session_key r' = session_key s' \<and> rx_seq r' = tx_seq s'"
    by (rule cipher_stream [OF assms(2)]) (simp_all add: assms(1) cipher_new_def)
  then show ?thesis unfolding assms(1) derive_session_key_def by blast
qed

definition voucher_input :: "bandwidth_voucher \<Rightarrow> bytes" where
  "voucher_input v = domain_preimage DOMAIN_VOUCHER
     (voucher_signing_bytes (bv_session_id v) (bv_bytes_served v) (bv_aur_amount v) (bv_client_address v))"

text \<open>
  A voucher signed by a client verifies, names the client's own address and the figures
  it was made for, and the hash a client signs fixes session, bytes, amount and client: two
  vouchers of one hash agree on all four or are an explicit collision.
\<close>
theorem voucher_sign_verify:
  assumes "ed25519_laws E" and "kp_ok E kp"
  shows "voucher_verify E (voucher_new_signed E sid served amount kp) \<and>
    bv_aur_amount (voucher_new_signed E sid served amount kp) = amount \<and>
    bv_client_address (voucher_new_signed E sid served amount kp) = address_from_pubkey E (kp_public kp) \<and>
    (if voucher_hash E v = voucher_hash E w
     then (bv_session_id v = bv_session_id w \<and> bv_bytes_served v = bv_bytes_served w \<and>
           bv_aur_amount v = bv_aur_amount w \<and> bv_client_address v = bv_client_address w) \<or>
          blake3_collision E (voucher_input v) (voucher_input w)
     else True)"
proof -
  have "voucher_input v = voucher_input w \<longleftrightarrow>
      bv_session_id v = bv_session_id w \<and> bv_bytes_served v = bv_bytes_served w \<and>
      bv_aur_amount v = bv_aur_amount w \<and> bv_client_address v = bv_client_address w"
    by (auto simp: voucher_input_def domain_preimage_def voucher_signing_bytes_def array_append_inject
        dest: addr_arr.to_bytes_inject)
  moreover have "voucher_hash E x = Hash (blake3 E (voucher_input x))" for x
    by (simp add: voucher_hash_def hash_with_domain_def voucher_input_def)
  ultimately show ?thesis
    using pk_verify_kp_sign [OF assms]
    by (simp add: voucher_verify_def voucher_new_signed_def voucher_hash_def Let_def blake3_collision_def)
qed

section \<open>Examples\<close>

lemma encrypt_exists:
  "tx_seq c \<noteq> - 1 \<Longrightarrow> \<exists>f. encrypt E p c = Ret f (c\<lparr>tx_seq := tx_seq c + 1\<rparr>)"
  using seq_succ [of "tx_seq c"] unat_bound [of "tx_seq c + 1"] by (simp add: encrypt_def Let_def add_ck_def)

lemma two_frames: "\<exists>fs s'. encrypt_all toy_env [[1, 2], [3]] (cipher_new k) = Ret fs s' \<and> tx_seq s' = 2"
  by (simp add: encrypt_def Let_def add_ck_def cipher_new_def)

theorem cipher_stream_witness:
  "\<exists>fs s' r'. encrypt_all toy_env [[1, 2], [3]] (cipher_new 7) = Ret fs s' \<and>
     decrypt_all toy_env fs (cipher_new 7) = Ret (Inr [[1, 2], [3]]) r' \<and> rx_seq r' = 2"
proof -
  obtain fs s' where e: "encrypt_all toy_env [[1, 2], [3]] (cipher_new 7) = Ret fs s'" "tx_seq s' = 2"
    using two_frames by blast
  with cipher_stream [OF e(1), of "cipher_new 7"] show ?thesis by (auto simp: cipher_new_def)
qed

abbreviation zero_env :: env where
  "zero_env \<equiv> toy_env\<lparr>blake3 := (\<lambda>_. 0)\<rparr>"

lemma zero_tag: "auth_tag zero_env k n ct = be_bytes 32 (0 :: 256 word)"
  by (simp add: auth_tag_def hash_with_domain_def hash_bytes_of_def)

lemma zero_frame: "\<exists>s'. encrypt zero_env p (cipher_new k) =
    Ret (be_bytes 8 (0 :: u64) @ be_bytes 32 (0 :: 256 word) @ xor_stream (stream_key zero_env k 0) p) s'"
  by (simp add: encrypt_def Let_def add_ck_def cipher_new_def zero_tag)

theorem cipher_tamper_witness:
  "\<exists>f. blake3_collision zero_env (tag_input 7 f)
     (tag_input 7 (be_bytes 8 (0 :: u64) @ be_bytes 32 (0 :: 256 word) @ [1, 2]))"
proof -
  let ?g = "be_bytes 8 (0 :: u64) @ be_bytes 32 (0 :: 256 word) @ [1, 2]"
  obtain s' where e: "encrypt zero_env [9] (cipher_new 7) =
      Ret (be_bytes 8 (0 :: u64) @ be_bytes 32 (0 :: 256 word) @ xor_stream (stream_key zero_env 7 0) [9]) s'"
    using zero_frame [of "[9]" 7] by blast
  have "length (xor_stream (stream_key zero_env 7 0) [9]) = 1" by simp
  then have ne: "?g \<noteq> be_bytes 8 (0 :: u64) @ be_bytes 32 (0 :: 256 word) @ xor_stream (stream_key zero_env 7 0) [9]"
    by (metis append_eq_append_conv length_Cons list.size(3) One_nat_def n_not_Suc_n)
  have d: "decrypt zero_env ?g (cipher_new 7) =
      Ret (Inr (xor_stream (stream_key zero_env 7 0) [1, 2])) (cipher_new 7\<lparr>rx_seq := 1\<rparr>)"
    by (subst decrypt_frame) (simp_all add: cipher_new_def add_ck_def zero_tag)
  from cipher_tamper [OF e refl ne _ d] show ?thesis
    by (auto simp: frame_parts cipher_new_def)
qed

theorem replay_refused_witness:
  "\<exists>f g s1 s2 c1 c2. encrypt toy_env [5] (cipher_new 7) = Ret f s1 \<and> encrypt toy_env [6] s1 = Ret g s2 \<and>
     received toy_env c1 [g] c2 \<and> decrypt toy_env g c1 = Ret (Inr [6]) c2 \<and>
     decrypt toy_env f c2 = Ret (Inl (ReplayDetected 2 0)) c2"
proof -
  obtain f s1 where e: "encrypt toy_env [5] (cipher_new 7) = Ret f s1" "s1 = cipher_new 7\<lparr>tx_seq := 1\<rparr>"
    using encrypt_exists [of "cipher_new 7" toy_env "[5]"] by (auto simp: cipher_new_def)
  then obtain g s2 where e2: "encrypt toy_env [6] s1 = Ret g s2"
    using encrypt_exists [of s1 toy_env "[6]"] by (auto simp: cipher_new_def)
  have d: "decrypt toy_env f (cipher_new 7) = Ret (Inr [5]) (cipher_new 7\<lparr>rx_seq := 1\<rparr>)"
    unfolding encrypt_Ret(1) [OF e(1)] by (subst decrypt_frame) (simp_all add: cipher_new_def add_ck_def)
  have d2: "decrypt toy_env g (cipher_new 7\<lparr>rx_seq := 1\<rparr>) = Ret (Inr [6]) (cipher_new 7\<lparr>rx_seq := 2\<rparr>)"
    unfolding encrypt_Ret(1) [OF e2] by (subst decrypt_frame) (simp_all add: e(2) cipher_new_def add_ck_def)
  have seq: "frame_seq f = 0" "frame_seq g = 1"
    unfolding frame_seq_def encrypt_Ret(1) [OF e(1)] encrypt_Ret(1) [OF e2]
    by (simp_all add: e(2) cipher_new_def of_be_bytes_be_bytes)
  have rec: "received toy_env (cipher_new 7\<lparr>rx_seq := 1\<rparr>) [g] (cipher_new 7\<lparr>rx_seq := 2\<rparr>)"
    using received_frame [OF received_none d2] by simp
  have "decrypt toy_env f (cipher_new 7\<lparr>rx_seq := 2\<rparr>) = Ret (Inl (ReplayDetected 2 0)) (cipher_new 7\<lparr>rx_seq := 2\<rparr>)"
    using replay_refused [OF d rec] seq by simp
  with e(1) e2 d2 rec show ?thesis by blast
qed

theorem forged_frame_desynchronises_witness:
  "\<exists>f s' r'. encrypt zero_env [5] (cipher_new 7) = Ret f s' \<and>
     decrypt zero_env (be_bytes 8 (9 :: u64) @ be_bytes 32 (1 :: 256 word)) (cipher_new 7) = Ret (Inl TagMismatch) r' \<and>
     decrypt zero_env f r' = Ret (Inl (ReplayDetected 10 0)) r'"
proof -
  let ?g = "be_bytes 8 (9 :: u64) @ be_bytes 32 (1 :: 256 word)"
  obtain f s' where e: "encrypt zero_env [5] (cipher_new 7) = Ret f s'" using zero_frame by blast
  have s: "frame_seq ?g = 9" by (simp add: frame_seq_def of_be_bytes_be_bytes)
  have "take 32 (drop 8 ?g) = be_bytes 32 (1 :: 256 word)" by simp
  then have "hash_bytes_of (Hash (blake3 zero_env (tag_input (session_key (cipher_new 7)) ?g))) \<noteq> take 32 (drop 8 ?g)"
    by (simp add: hash_bytes_of_def be_bytes_inject del: take_append drop_append)
  from forged_frame_desynchronises [OF _ _ _ this e refl] e s show ?thesis
    by (auto simp: cipher_new_def)
qed

theorem last_number_resets_witness:
  "\<exists>f s' x r' r''. encrypt (zero_env\<lparr>prof := Release\<rparr>) [5] (cipher_new 7) = Ret f s' \<and>
     decrypt (zero_env\<lparr>prof := Release\<rparr>) (be_bytes 8 (- 1 :: u64) @ be_bytes 32 (1 :: 256 word)) (cipher_new 7) = Ret x r' \<and>
     decrypt (zero_env\<lparr>prof := Release\<rparr>) f r' = Ret (Inr [5]) r''"
proof -
  let ?g = "be_bytes 8 (- 1 :: u64) @ be_bytes 32 (1 :: 256 word)" and ?E = "zero_env\<lparr>prof := Release\<rparr>"
  obtain f s' where e: "encrypt ?E [5] (cipher_new 7) = Ret f s'"
    using encrypt_exists [of "cipher_new 7" ?E "[5]"] by (auto simp: cipher_new_def)
  have "frame_seq ?g = - 1" by (simp add: frame_seq_def of_be_bytes_be_bytes)
  from last_number_resets [OF _ this e refl] e show ?thesis by auto
qed

theorem keystream_repeats_witness:
  "\<exists>f s'. encrypt toy_env (5 # replicate 32 9) (cipher_new 7) = Ret f s' \<and> drop 40 f ! 0 XOR drop 40 f ! 32 = 12"
proof -
  obtain f s' where e: "encrypt toy_env (5 # replicate 32 9) (cipher_new 7) = Ret f s'"
    using encrypt_exists [of "cipher_new 7" toy_env "5 # replicate 32 9"] by (auto simp: cipher_new_def)
  have i: "0 + 32 < length (5 # replicate 32 (9 :: u8))" by simp
  from keystream_repeats [OF e i] e show ?thesis by (auto simp: nth_Cons')
qed

theorem eavesdropper_reads_witness:
  "\<exists>fs s' r'. encrypt_all toy_env [[1, 2], [3]]
       (cipher_new (derive_session_key toy_env (PublicKey 3) (PublicKey 4))) = Ret fs s' \<and>
     decrypt_all toy_env fs (cipher_new (hash_word (hash_with_domain toy_env DOMAIN_HANDSHAKE
       (pk_bytes (PublicKey 3) @ pk_bytes (PublicKey 4))))) = Ret (Inr [[1, 2], [3]]) r'"
proof -
  obtain fs s' where e: "encrypt_all toy_env [[1, 2], [3]]
      (cipher_new (derive_session_key toy_env (PublicKey 3) (PublicKey 4))) = Ret fs s'"
    using two_frames by blast
  from eavesdropper_reads [of _ toy_env "\<lparr>client_identity = PublicKey 1, client_ephemeral = PublicKey 3, init_timestamp = 0\<rparr>"
      "\<lparr>host_identity = PublicKey 2, host_ephemeral = PublicKey 4, response_timestamp = 0\<rparr>", OF refl] e
  show ?thesis by auto
qed

theorem voucher_sign_verify_witness:
  "voucher_verify toy_env (voucher_new_signed toy_env 1001 52428800 50000 (keypair_from_secret_bytes toy_env 7))"
  using voucher_sign_verify [OF ed25519_laws_toy kp_ok_from_secret] by blast

end
