(* ===== verification/Tunnel.thy ===== *)
theory Tunnel
  imports Cipher Text
begin

text \<open>
  \<open>aura-tunnel\<close>, the two ends of a tunnel: the frames (\<open>protocol.rs\<close>), the exit node's
  session loop (\<open>host.rs\<close>) and the SOCKS5 client (\<open>client.rs\<close>). A socket that is read is the
  bytes it will deliver before it closes; what is written is a log. What the network does,
  whether a connection opens and whether a write succeeds, is a parameter that sees the log
  so far. bincode on frames is a parameter too.
\<close>

section \<open>Frames\<close>

datatype tunnel_frame =
    ConnectTcp u32 string u16
  | ConnectOk u32
  | ConnectFail u32 string
  | Data u32 bytes
  | Close u32
  | VoucherFrame u64 u64 u64 address signature
  | Ping
  | Pong

text \<open>\<open>frame_enc f = None\<close>: serialization fails, and \<open>to_bytes\<close> panics.\<close>

record frame_codec =
  frame_enc :: "tunnel_frame \<Rightarrow> bytes option"
  frame_dec :: "bytes \<Rightarrow> tunnel_frame option"

definition frame_to_bytes :: "frame_codec \<Rightarrow> tunnel_frame \<Rightarrow> bytes option" where
  "frame_to_bytes T f = frame_enc T f"

definition frame_from_bytes :: "frame_codec \<Rightarrow> bytes \<Rightarrow> tunnel_frame option" where
  "frame_from_bytes T bs = frame_dec T bs"

text \<open>The \<open>?\<close> operator: an error returns from the function.\<close>

definition try_then :: "('e + 'a, 's) outcome \<Rightarrow> ('a \<Rightarrow> 's \<Rightarrow> ('e + 'b, 's) outcome) \<Rightarrow> ('e + 'b, 's) outcome" where
  "try_then m k = andThen m (\<lambda>r s. case r of Inl e \<Rightarrow> Ret (Inl e) s | Inr a \<Rightarrow> k a s)"

definition target_addr :: "string \<Rightarrow> u16 \<Rightarrow> string" where
  "target_addr host port = host @ '':'' @ show_nat (unat port)"

section \<open>The exit node\<close>

datatype host_error = HostIo | HostCipher cipher_error | HostBincode

datatype host_event =
    Opened u32 string
  | Queued u32 bytes
  | Closed u32

record host_state =
  hs_cipher :: tunnel_cipher
  hs_streams :: "(u32 \<times> string) list"
  hs_log :: "host_event list"

text \<open>
  One decrypted frame. A stream's sender stands for its target address; \<open>Queued\<close> is the data
  put on the stream's channel, whose send result the code ignores.
\<close>

definition host_frame :: "(host_event list \<Rightarrow> string \<Rightarrow> bool) \<Rightarrow> tunnel_frame \<Rightarrow> host_state \<Rightarrow> host_state" where
  "host_frame connects f st =
     (case f of
        ConnectTcp stream_id target_host target_port \<Rightarrow>
          let target = target_addr target_host target_port in
          if connects (hs_log st) target
          then st\<lparr>hs_streams := hm_insert stream_id target (hs_streams st),
                 hs_log := hs_log st @ [Opened stream_id target]\<rparr>
          else st
      | Data stream_id data \<Rightarrow>
          (case hm_get (hs_streams st) stream_id of
             Some _ \<Rightarrow> st\<lparr>hs_log := hs_log st @ [Queued stream_id data]\<rparr>
           | None \<Rightarrow> st)
      | Close stream_id \<Rightarrow>
          st\<lparr>hs_streams := hm_remove stream_id (hs_streams st), hs_log := hs_log st @ [Closed stream_id]\<rparr>
      | Ping \<Rightarrow> st
      | _ \<Rightarrow> st)"

function handle_tunnel_client ::
  "env \<Rightarrow> frame_codec \<Rightarrow> (host_event list \<Rightarrow> string \<Rightarrow> bool) \<Rightarrow> bytes \<Rightarrow> host_state \<Rightarrow>
     (host_error + unit, host_state) outcome" where
  "handle_tunnel_client E T connects inp st =
     (case read_exact 4 inp of
        None \<Rightarrow> Ret (Inr ()) st
      | Some (len_buf, inp1) \<Rightarrow>
          (case read_exact (unat (of_be_bytes len_buf :: u32)) inp1 of
             None \<Rightarrow> Ret (Inl HostIo) st
           | Some (enc_frame, inp2) \<Rightarrow>
               (case decrypt E enc_frame (hs_cipher st) of
                  Panic c \<Rightarrow> Panic (st\<lparr>hs_cipher := c\<rparr>)
                | Blocked c \<Rightarrow> Blocked (st\<lparr>hs_cipher := c\<rparr>)
                | Spin \<Rightarrow> Spin
                | Ret (Inl e) c \<Rightarrow> Ret (Inl (HostCipher e)) (st\<lparr>hs_cipher := c\<rparr>)
                | Ret (Inr plain_bytes) c \<Rightarrow>
                    (case frame_from_bytes T plain_bytes of
                       None \<Rightarrow> Ret (Inl HostBincode) (st\<lparr>hs_cipher := c\<rparr>)
                     | Some f \<Rightarrow> handle_tunnel_client E T connects inp2
                         (host_frame connects f (st\<lparr>hs_cipher := c\<rparr>))))))"
  by pat_completeness auto
termination
  by (relation "measure (\<lambda>(E, T, connects, inp, st). length inp)")
     (auto dest!: read_exact_length)

declare handle_tunnel_client.simps [simp del]

text \<open>A session of the accept loop starts with a new cipher and no streams.\<close>

definition host_session ::
  "env \<Rightarrow> frame_codec \<Rightarrow> (host_event list \<Rightarrow> string \<Rightarrow> bool) \<Rightarrow> 256 word \<Rightarrow> bytes \<Rightarrow>
     (host_error + unit, host_state) outcome" where
  "host_session E T connects key inp =
     handle_tunnel_client E T connects inp \<lparr>hs_cipher = cipher_new key, hs_streams = [], hs_log = []\<rparr>"

text \<open>
  The task relaying one stream: what it selects, one event after the other, and what it
  writes to the target. The data it reads from the target goes nowhere.
\<close>

datatype relay_event =
    TargetEof
  | TargetRead bytes
  | TargetError
  | Received bytes bool

fun relay_task :: "relay_event list \<Rightarrow> bytes list" where
  "relay_task [] = []"
| "relay_task (TargetEof # es) = []"
| "relay_task (TargetRead bs # es) = relay_task es"
| "relay_task (TargetError # es) = []"
| "relay_task (Received out_data written # es) = (if written then out_data # relay_task es else [])"

section \<open>The SOCKS5 client\<close>

datatype client_error =
    ClientIo | UnsupportedVersion | OnlyConnect | UnsupportedAddressType | InvalidUtf8

datatype client_out = ToApp bytes | ToTunnel bytes

record client_state =
  ci_in :: bytes
  ci_out :: "client_out list"
  stream_counter :: u32

definition sock_read :: "nat \<Rightarrow> client_state \<Rightarrow> (client_error + bytes, client_state) outcome" where
  "sock_read n s =
     (case read_exact n (ci_in s) of
        None \<Rightarrow> Ret (Inl ClientIo) (s\<lparr>ci_in := []\<rparr>)
      | Some (xs, ys) \<Rightarrow> Ret (Inr xs) (s\<lparr>ci_in := ys\<rparr>))"

definition sock_write :: "(client_out list \<Rightarrow> bool) \<Rightarrow> client_out \<Rightarrow> client_state \<Rightarrow> (client_error + unit, client_state) outcome" where
  "sock_write fails out s =
     (if fails (ci_out s) then Ret (Inl ClientIo) s else Ret (Inr ()) (s\<lparr>ci_out := ci_out s @ [out]\<rparr>))"

definition show_ipv4 :: "bytes \<Rightarrow> string" where
  "show_ipv4 ip =
     show_nat (unat (ip ! 0)) @ ''.'' @ show_nat (unat (ip ! 1)) @ ''.'' @
     show_nat (unat (ip ! 2)) @ ''.'' @ show_nat (unat (ip ! 3))"

definition read_target :: "u8 \<Rightarrow> client_state \<Rightarrow> (client_error + string, client_state) outcome" where
  "read_target atyp s =
     (if atyp = 0x01 then
        try_then (sock_read 4 s) (\<lambda>ip s. Ret (Inr (show_ipv4 ip)) s)
      else if atyp = 0x03 then
        try_then (sock_read 1 s) (\<lambda>len s.
        try_then (sock_read (unat (hd len)) s) (\<lambda>domain s.
          if utf8_ok domain then Ret (Inr (string_of_bytes domain)) s else Ret (Inl InvalidUtf8) s))
      else Ret (Inl UnsupportedAddressType) s)"

definition socks_negotiate ::
  "(client_out list \<Rightarrow> bool) \<Rightarrow> client_state \<Rightarrow> (client_error + string \<times> u16, client_state) outcome" where
  "socks_negotiate fails s =
     try_then (sock_read 2 s) (\<lambda>header s.
       if header ! 0 \<noteq> 0x05 then Ret (Inl UnsupportedVersion) s
       else try_then (sock_read (unat (header ! 1)) s) (\<lambda>methods s.
         try_then (sock_write fails (ToApp [0x05, 0x00]) s) (\<lambda>_ s.
         try_then (sock_read 4 s) (\<lambda>req_header s.
           if req_header ! 1 \<noteq> 0x01
           then try_then (sock_write fails (ToApp [0x05, 0x07, 0x00, 0x01, 0, 0, 0, 0, 0, 0]) s)
             (\<lambda>_ s. Ret (Inl OnlyConnect) s)
           else try_then (read_target (req_header ! 3) s) (\<lambda>target_host s.
             try_then (sock_read 2 s) (\<lambda>port s. Ret (Inr (target_host, of_be_bytes port)) s))))))"

definition send_frame ::
  "(client_out list \<Rightarrow> bool) \<Rightarrow> bytes \<Rightarrow> client_state \<Rightarrow> (client_error + unit, client_state) outcome" where
  "send_frame fails enc s =
     try_then (sock_write fails (ToTunnel (be_bytes 4 (word_of_nat (length enc) :: u32))) s)
       (\<lambda>_ s. sock_write fails (ToTunnel enc) s)"

text \<open>
  Encrypting with a cipher that is local to the client: its panic is the client's.
\<close>

definition client_encrypt ::
  "env \<Rightarrow> frame_codec \<Rightarrow> tunnel_frame \<Rightarrow> tunnel_cipher \<Rightarrow> client_state \<Rightarrow>
     (bytes \<Rightarrow> tunnel_cipher \<Rightarrow> ('a, client_state) outcome) \<Rightarrow> ('a, client_state) outcome" where
  "client_encrypt E T f c s k =
     or_panic (frame_to_bytes T f) s (\<lambda>plain.
       case encrypt E plain c of
         Ret enc c' \<Rightarrow> k enc c'
       | Panic _ \<Rightarrow> Panic s
       | Blocked _ \<Rightarrow> Blocked s
       | Spin \<Rightarrow> Spin)"

text \<open>
  The forwarding loop: \<open>reads\<close> are the chunks the application's socket delivers, an empty
  one ending the loop, and the end of the list is a read error.
\<close>

fun client_forward ::
  "env \<Rightarrow> frame_codec \<Rightarrow> (client_out list \<Rightarrow> bool) \<Rightarrow> u32 \<Rightarrow> bytes list \<Rightarrow> tunnel_cipher \<Rightarrow> client_state \<Rightarrow>
     (client_error + unit, client_state) outcome" where
  "client_forward E T fails stream_id [] c s = Ret (Inl ClientIo) s"
| "client_forward E T fails stream_id (chunk # reads) c s =
     (if chunk = [] then Ret (Inr ()) s
      else client_encrypt E T (Data stream_id chunk) c s (\<lambda>enc c'.
        try_then (send_frame fails enc s) (\<lambda>_ s.
          client_forward E T fails stream_id reads c' s)))"

definition handle_socks5_connection ::
  "env \<Rightarrow> frame_codec \<Rightarrow> (client_out list \<Rightarrow> bool) \<Rightarrow> bool \<Rightarrow> 256 word \<Rightarrow> bytes list \<Rightarrow> client_state \<Rightarrow>
     (client_error + unit, client_state) outcome" where
  "handle_socks5_connection E T fails host_up key reads s =
     try_then (socks_negotiate fails s) (\<lambda>(target_host, target_port) s.
       if \<not> host_up then Ret (Inl ClientIo) s
       else
         let cipher = cipher_new key;
             stream_id = stream_counter s;
             s = s\<lparr>stream_counter := stream_counter s + 1\<rparr>
         in client_encrypt E T (ConnectTcp stream_id target_host target_port) cipher s (\<lambda>enc _.
           try_then (send_frame fails enc s) (\<lambda>_ s.
           try_then (sock_write fails (ToApp [0x05, 0x00, 0x00, 0x01, 127, 0, 0, 1, 0, 0]) s) (\<lambda>_ s.
             let local_cipher = cipher_new key in
             andThen (client_forward E T fails stream_id reads local_cipher s) (\<lambda>_ s. Ret (Inr ()) s)))))"

section \<open>Lemmas on the exit node\<close>

lemma host_frame_cipher: "host_frame connects f (st\<lparr>hs_cipher := c\<rparr>) = (host_frame connects f st)\<lparr>hs_cipher := c\<rparr>"
  by (cases f) (simp_all add: host_frame_def Let_def split: option.split)

lemma fold_host_frame_cipher:
  "fold (host_frame connects) fs (st\<lparr>hs_cipher := c\<rparr>) = (fold (host_frame connects) fs st)\<lparr>hs_cipher := c\<rparr>"
  by (induction fs arbitrary: st) (simp_all add: host_frame_cipher)

lemma host_state_cipher [simp]: "hs_cipher (host_frame connects f st) = hs_cipher st"
  by (cases f) (simp_all add: host_frame_def Let_def split: option.split)

text \<open>Frames on the wire, each behind its length.\<close>

definition framed :: "bytes \<Rightarrow> bytes" where
  "framed enc = be_bytes 4 (word_of_nat (length enc) :: u32) @ enc"

definition on_wire :: "bytes list \<Rightarrow> bytes" where
  "on_wire encs = concat (map framed encs)"

lemma host_reads_frame:
  assumes "length enc < 2 ^ 32"
  shows "handle_tunnel_client E T connects (framed enc @ rest) st =
    (case decrypt E enc (hs_cipher st) of
       Panic c \<Rightarrow> Panic (st\<lparr>hs_cipher := c\<rparr>)
     | Blocked c \<Rightarrow> Blocked (st\<lparr>hs_cipher := c\<rparr>)
     | Spin \<Rightarrow> Spin
     | Ret (Inl e) c \<Rightarrow> Ret (Inl (HostCipher e)) (st\<lparr>hs_cipher := c\<rparr>)
     | Ret (Inr plain_bytes) c \<Rightarrow>
         (case frame_from_bytes T plain_bytes of
            None \<Rightarrow> Ret (Inl HostBincode) (st\<lparr>hs_cipher := c\<rparr>)
          | Some f \<Rightarrow> handle_tunnel_client E T connects rest
              (host_frame connects f (st\<lparr>hs_cipher := c\<rparr>))))"
proof -
  have "unat (of_be_bytes (be_bytes 4 (word_of_nat (length enc) :: u32)) :: u32) = length enc"
    using assms by (simp add: of_be_bytes_be_bytes unat_of_nat)
  then show ?thesis
    by (subst handle_tunnel_client.simps) (simp add: framed_def)
qed

lemma host_reads_nothing: "handle_tunnel_client E T connects [] st = Ret (Inr ()) st"
  by (subst handle_tunnel_client.simps) (simp add: read_exact_def)

lemma length_encrypt: "encrypt E p c = Ret enc c' \<Longrightarrow> length enc = 40 + length p"
  using encrypt_Ret(1) [of E p c enc c'] by simp

lemma decrypt_own:
  assumes "encrypt E p s = Ret enc s'" and "session_key r = session_key s" and "rx_seq r \<le> tx_seq s"
  shows "decrypt E enc r = Ret (Inr p) (r\<lparr>rx_seq := tx_seq s + 1\<rparr>)"
  using encrypt_Ret(3) [OF assms(1)] assms(2,3)
  unfolding encrypt_Ret(1) [OF assms(1)] by (subst decrypt_frame) simp_all

text \<open>Which streams are open after a log, and that data went only to open ones.\<close>

fun log_wf :: "u32 set \<Rightarrow> host_event list \<Rightarrow> bool" where
  "log_wf S [] \<longleftrightarrow> True"
| "log_wf S (Opened i t # es) \<longleftrightarrow> log_wf (insert i S) es"
| "log_wf S (Queued i d # es) \<longleftrightarrow> i \<in> S \<and> log_wf S es"
| "log_wf S (Closed i # es) \<longleftrightarrow> log_wf (S - {i}) es"

fun log_open :: "u32 set \<Rightarrow> host_event list \<Rightarrow> u32 set" where
  "log_open S [] = S"
| "log_open S (Opened i t # es) = log_open (insert i S) es"
| "log_open S (Queued i d # es) = log_open S es"
| "log_open S (Closed i # es) = log_open (S - {i}) es"

lemma log_append:
  "log_wf S (es @ es') \<longleftrightarrow> log_wf S es \<and> log_wf (log_open S es) es'"
  "log_open S (es @ es') = log_open (log_open S es) es'"
  by (induction S es rule: log_wf.induct) simp_all

definition host_ok :: "host_state \<Rightarrow> bool" where
  "host_ok st \<longleftrightarrow> log_wf {} (hs_log st) \<and>
     (\<forall>i. i \<in> log_open {} (hs_log st) \<longleftrightarrow> hm_get (hs_streams st) i \<noteq> None)"

lemma host_frame_ok: "host_ok st \<Longrightarrow> host_ok (host_frame connects f st)"
  by (cases f) (auto simp: host_ok_def host_frame_def Let_def log_append hm_get_insert hm_get_remove
      split: option.split)

lemma host_loop_ok:
  assumes "host_ok st"
  shows "case handle_tunnel_client E T connects inp st of
    Ret r st' \<Rightarrow> host_ok st' | Panic st' \<Rightarrow> host_ok st' | Blocked st' \<Rightarrow> host_ok st' | Spin \<Rightarrow> True"
  using assms
proof (induction E T connects inp st rule: handle_tunnel_client.induct)
  case (1 E T connects inp st)
  have same: "host_ok (st\<lparr>hs_cipher := c\<rparr>)" for c using "1.prems" by (simp add: host_ok_def)
  show ?case
  proof (cases "read_exact 4 inp")
    case None
    with "1.prems" show ?thesis by (subst handle_tunnel_client.simps) simp
  next
    case len: (Some p)
    obtain len_buf inp1 where p: "p = (len_buf, inp1)" by (cases p)
    show ?thesis
    proof (cases "read_exact (unat (of_be_bytes len_buf :: u32)) inp1")
      case None
      with len p "1.prems" show ?thesis by (subst handle_tunnel_client.simps) simp
    next
      case enc: (Some q)
      obtain enc inp2 where q: "q = (enc, inp2)" by (cases q)
      show ?thesis
      proof (cases "\<exists>plain c f. decrypt E enc (hs_cipher st) = Ret (Inr plain) c \<and> frame_from_bytes T plain = Some f")
        case True
        then obtain plain c f where d: "decrypt E enc (hs_cipher st) = Ret (Inr plain) c"
          "frame_from_bytes T plain = Some f" by blast
        have "handle_tunnel_client E T connects inp st =
            handle_tunnel_client E T connects inp2 (host_frame connects f (st\<lparr>hs_cipher := c\<rparr>))"
          using enc by (subst handle_tunnel_client.simps) (simp add: len p q d)
        with "1.IH" [OF len p [symmetric] enc [unfolded p] q [symmetric] d(1) refl d(2) host_frame_ok [OF same]]
        show ?thesis by simp
      next
        case False
        with len enc p q same "1.prems" show ?thesis
          by (subst handle_tunnel_client.simps) (auto split: outcome.split sum.split option.split)
      qed
    qed
  qed
qed

section \<open>Lemmas on the client\<close>

lemma try_then_simps [simp]:
  "try_then (Ret (Inl e) s) k = Ret (Inl e) s" "try_then (Ret (Inr a) s) k = k a s"
  "try_then (Panic s) k = Panic s"
  by (simp_all add: try_then_def)

lemma try_then_Inr:
  "try_then m k = Ret (Inr b) t \<longleftrightarrow> (\<exists>a s. m = Ret (Inr a) s \<and> k a s = Ret (Inr b) t)"
  by (cases m) (auto simp: try_then_def split: sum.split)

fun tunnel_bytes :: "client_out list \<Rightarrow> bytes" where
  "tunnel_bytes [] = []"
| "tunnel_bytes (ToApp bs # out) = tunnel_bytes out"
| "tunnel_bytes (ToTunnel bs # out) = bs @ tunnel_bytes out"

lemma tunnel_bytes_append [simp]: "tunnel_bytes (a @ b) = tunnel_bytes a @ tunnel_bytes b"
  by (induction a rule: tunnel_bytes.induct) simp_all

abbreviation never :: "client_out list \<Rightarrow> bool" where
  "never \<equiv> (\<lambda>_. False)"

lemma send_frame_never:
  "send_frame never enc s =
     Ret (Inr ()) (s\<lparr>ci_out := ci_out s @ [ToTunnel (be_bytes 4 (word_of_nat (length enc) :: u32)), ToTunnel enc]\<rparr>)"
  by (simp add: send_frame_def sock_write_def)

lemma client_encrypt_Ret:
  "client_encrypt E T f c s k = Ret b t \<longleftrightarrow>
     (\<exists>plain enc c'. frame_enc T f = Some plain \<and> encrypt E plain c = Ret enc c' \<and> k enc c' = Ret b t)"
proof (cases "frame_enc T f")
  case (Some plain)
  then show ?thesis
    by (cases "encrypt E plain c") (simp_all add: client_encrypt_def frame_to_bytes_def)
qed (simp add: client_encrypt_def frame_to_bytes_def)

lemma client_forward_extends:
  "client_forward E T never i reads c s = Ret r s' \<Longrightarrow>
     \<exists>more. tunnel_bytes (ci_out s') = tunnel_bytes (ci_out s) @ more"
proof (induction reads arbitrary: c s)
  case (Cons chunk reads)
  show ?case
  proof (cases "chunk = []")
    case False
    with Cons.prems obtain enc c' where
      "client_forward E T never i reads c'
        (s\<lparr>ci_out := ci_out s @ [ToTunnel (be_bytes 4 (word_of_nat (length enc) :: u32)), ToTunnel enc]\<rparr>) = Ret r s'"
      by (auto simp: client_encrypt_Ret send_frame_never)
    from Cons.IH [OF this] show ?thesis by auto
  qed (use Cons.prems in auto)
qed auto

text \<open>The first frame of the forwarding loop.\<close>

lemma client_forward_first:
  assumes "client_forward E T never i (chunk # reads) c s = Ret r s'" and "chunk \<noteq> []"
  shows "\<exists>plain enc c' more. frame_enc T (Data i chunk) = Some plain \<and> encrypt E plain c = Ret enc c' \<and>
    tunnel_bytes (ci_out s') = tunnel_bytes (ci_out s) @ framed enc @ more"
proof -
  from assms obtain plain enc c' where e: "frame_enc T (Data i chunk) = Some plain"
    "encrypt E plain c = Ret enc c'"
    and f: "client_forward E T never i reads c'
      (s\<lparr>ci_out := ci_out s @ [ToTunnel (be_bytes 4 (word_of_nat (length enc) :: u32)), ToTunnel enc]\<rparr>) = Ret r s'"
    by (auto simp: client_encrypt_Ret send_frame_never)
  from client_forward_extends [OF f] e show ?thesis by (auto simp: framed_def)
qed

lemma sock_read_Inr:
  "sock_read n s = Ret (Inr xs) s' \<Longrightarrow> length xs = n \<and> ci_out s' = ci_out s \<and> stream_counter s' = stream_counter s"
  by (auto simp: sock_read_def read_exact_def split: if_splits)

lemma read_target_length:
  assumes "read_target atyp s = Ret (Inr h) s'"
  shows "length h \<le> 255" and "ci_out s' = ci_out s" and "stream_counter s' = stream_counter s"
proof -
  have u8: "length (show_nat (unat b)) \<le> 3" for b :: u8
    using length_show_nat [of "unat b" 2] unat_bound [of b] by simp
  have "length (show_ipv4 ip) \<le> 15" for ip
    using u8 [of "ip ! 0"] u8 [of "ip ! 1"] u8 [of "ip ! 2"] u8 [of "ip ! 3"] by (simp add: show_ipv4_def)
  then have ip: "length (show_ipv4 ip) \<le> 255" for ip by (rule order_trans) simp
  have len: "unat (b :: u8) \<le> 255" for b using unat_bound [of b] by simp
  have "length h \<le> 255 \<and> ci_out s' = ci_out s \<and> stream_counter s' = stream_counter s"
    using assms ip len
    by (auto simp: read_target_def try_then_Inr string_of_bytes_def dest!: sock_read_Inr split: if_splits)
  then show "length h \<le> 255" "ci_out s' = ci_out s" "stream_counter s' = stream_counter s" by auto
qed

lemma socks_negotiate_Inr:
  assumes "socks_negotiate never s = Ret (Inr (h, port)) s'"
  shows "length h \<le> 255" and "ci_out s' = ci_out s @ [ToApp [0x05, 0x00]]"
    and "stream_counter s' = stream_counter s"
proof -
  have "length h \<le> 255 \<and> ci_out s' = ci_out s @ [ToApp [0x05, 0x00]] \<and> stream_counter s' = stream_counter s"
    using assms
    by (auto simp: socks_negotiate_def try_then_Inr sock_write_def dest!: sock_read_Inr
        dest: read_target_length split: if_splits)
  then show "length h \<le> 255" "ci_out s' = ci_out s @ [ToApp [0x05, 0x00]]"
    "stream_counter s' = stream_counter s" by auto
qed

text \<open>
  Documented behaviour of bincode on frames: what was written is read back, and the sizes of
  a connection request and of a data frame in its fixed-width encoding.
\<close>

definition frame_codec_laws :: "frame_codec \<Rightarrow> bool" where
  "frame_codec_laws T \<longleftrightarrow>
     (\<forall>f p. frame_enc T f = Some p \<longrightarrow> frame_dec T p = Some f) \<and>
     (\<forall>i h n p. frame_enc T (ConnectTcp i h n) = Some p \<longrightarrow> length p = 18 + length h) \<and>
     (\<forall>i d p. frame_enc T (Data i d) = Some p \<longrightarrow> length p = 16 + length d)"

lemma frame_codec_lawsD:
  assumes "frame_codec_laws T"
  shows "frame_enc T f = Some p \<Longrightarrow> frame_dec T p = Some f"
    and "frame_enc T (ConnectTcp i h n) = Some p \<Longrightarrow> length p = 18 + length h"
    and "frame_enc T (Data i d) = Some p \<Longrightarrow> length p = 16 + length d"
  using assms unfolding frame_codec_laws_def by blast+

section \<open>Properties\<close>

text \<open>
  C30: the exit node undoes the sender: the frames one cipher encrypted, written each behind
  its length, are all decrypted, decoded and handled in order, and the session then waits
  for more.
\<close>
theorem tunnel_delivers:
  assumes "frame_codec_laws T" and "map (frame_enc T) fs = map Some ps"
    and "\<forall>p \<in> set ps. length p + 40 < 2 ^ 32"
    and "encrypt_all E ps s = Ret encs s'"
    and "session_key (hs_cipher st) = session_key s" and "rx_seq (hs_cipher st) = tx_seq s"
  shows "\<exists>c. handle_tunnel_client E T connects (on_wire encs) st =
      Ret (Inr ()) ((fold (host_frame connects) fs st)\<lparr>hs_cipher := c\<rparr>) \<and> rx_seq c = tx_seq s'"
  using assms(2-6)
proof (induction ps arbitrary: fs s st encs)
  case Nil
  then have "(fold (host_frame connects) fs st)\<lparr>hs_cipher := hs_cipher st\<rparr> = st" by simp
  with Nil show ?case by (intro exI [of _ "hs_cipher st"]) (auto simp: on_wire_def host_reads_nothing)
next
  case (Cons p ps)
  then obtain f fs' where fs: "fs = f # fs'" "frame_enc T f = Some p" "map (frame_enc T) fs' = map Some ps"
    by (cases fs) auto
  from Cons.prems(3) obtain e s1 encs' where e: "encrypt E p s = Ret e s1" "encrypt_all E ps s1 = Ret encs' s'"
    "encs = e # encs'" by (auto simp: andThen_Ret_iff)
  let ?c = "(hs_cipher st)\<lparr>rx_seq := tx_seq s + 1\<rparr>"
  have len: "length e < 2 ^ 32" using length_encrypt [OF e(1)] Cons.prems(2) by simp
  have d: "decrypt E e (hs_cipher st) = Ret (Inr p) ?c"
    by (rule decrypt_own [OF e(1)]) (simp_all add: Cons.prems)
  let ?st = "host_frame connects f (st\<lparr>hs_cipher := ?c\<rparr>)"
  have step: "handle_tunnel_client E T connects (on_wire encs) st = handle_tunnel_client E T connects (on_wire encs') ?st"
    using host_reads_frame [OF len] frame_codec_lawsD(1) [OF assms(1) fs(2)]
    by (simp add: e(3) on_wire_def d frame_from_bytes_def)
  have "\<exists>c. handle_tunnel_client E T connects (on_wire encs') ?st =
      Ret (Inr ()) ((fold (host_frame connects) fs' ?st)\<lparr>hs_cipher := c\<rparr>) \<and> rx_seq c = tx_seq s'"
    using Cons.prems(2,4) encrypt_Ret(2) [OF e(1)] by (intro Cons.IH [OF fs(3) _ e(2)]) auto
  then show ?case
    unfolding step fs(1) by (simp add: host_frame_cipher fold_host_frame_cipher)
qed

text \<open>
  No data gets through the tunnel: the client encrypts its data with a second cipher whose
  numbers start at 0 again, so the exit node refuses the first data frame as a replay of the
  connection request and drops the session, with nothing queued for any stream.
\<close>
theorem tunnel_forwards_nothing:
  assumes "frame_codec_laws T"
    and "handle_socks5_connection E T never True key (chunk # reads) s = Ret (Inr ()) s'"
    and "ci_out s = []" and "chunk \<noteq> []" and "length chunk \<le> 16384"
  shows "\<exists>st. host_session E T connects key (tunnel_bytes (ci_out s')) =
      Ret (Inl (HostCipher (ReplayDetected 1 0))) st \<and>
    (\<forall>i d. Queued i d \<notin> set (hs_log st))"
proof -
  from assms(2) obtain h port s1 where n: "socks_negotiate never s = Ret (Inr (h, port)) s1"
    unfolding handle_socks5_connection_def by (auto simp: try_then_Inr)
  let ?i = "stream_counter s1" and ?s2 = "s1\<lparr>stream_counter := stream_counter s1 + 1\<rparr>"
  from assms(2) obtain plain enc c r where
    p: "frame_enc T (ConnectTcp ?i h port) = Some plain" and e: "encrypt E plain (cipher_new key) = Ret enc c" and
    fw: "client_forward E T never ?i (chunk # reads) (cipher_new key)
      (?s2\<lparr>ci_out := ci_out s1 @ [ToTunnel (be_bytes 4 (word_of_nat (length enc) :: u32)), ToTunnel enc,
         ToApp [0x05, 0x00, 0x00, 0x01, 127, 0, 0, 1, 0, 0]]\<rparr>) = Ret r s'"
    unfolding handle_socks5_connection_def n try_then_simps
    by (auto simp: client_encrypt_Ret send_frame_never sock_write_def andThen_Ret_iff Let_def
        simp del: client_forward.simps)
  obtain plain2 enc2 c2 more where
    p2: "frame_enc T (Data ?i chunk) = Some plain2" and e2: "encrypt E plain2 (cipher_new key) = Ret enc2 c2" and
    out: "tunnel_bytes (ci_out s') = framed enc @ framed enc2 @ more"
    using client_forward_first [OF fw assms(4)] socks_negotiate_Inr(2) [OF n] assms(3)
    by (auto simp: framed_def)
  have len: "length enc < 2 ^ 32" "length enc2 < 2 ^ 32"
    using length_encrypt [OF e] length_encrypt [OF e2] frame_codec_lawsD(2) [OF assms(1) p]
      frame_codec_lawsD(3) [OF assms(1) p2] socks_negotiate_Inr(1) [OF n] assms(5) by simp_all
  let ?st = "\<lparr>hs_cipher = cipher_new key, hs_streams = [], hs_log = []\<rparr>"
  let ?c1 = "(cipher_new key)\<lparr>rx_seq := 1\<rparr>"
  have d: "decrypt E enc (cipher_new key) = Ret (Inr plain) ?c1"
    using decrypt_own [OF e refl] by (simp add: cipher_new_def)
  let ?st1 = "host_frame connects (ConnectTcp ?i h port) (?st\<lparr>hs_cipher := ?c1\<rparr>)"
  have "frame_seq enc2 = 0" "\<not> length enc2 < 40"
    unfolding frame_seq_def encrypt_Ret(1) [OF e2] by (simp_all add: cipher_new_def of_be_bytes_be_bytes)
  then have d2: "decrypt E enc2 ?c1 = Ret (Inl (ReplayDetected 1 0)) ?c1"
    by (simp add: decrypt_def frame_seq_def Let_def)
  have "host_session E T connects key (tunnel_bytes (ci_out s')) =
      handle_tunnel_client E T connects (framed enc2 @ more) ?st1"
    unfolding host_session_def out using host_reads_frame [OF len(1)] frame_codec_lawsD(1) [OF assms(1) p]
    by (simp add: d frame_from_bytes_def)
  also have "\<dots> = Ret (Inl (HostCipher (ReplayDetected 1 0))) (?st1\<lparr>hs_cipher := ?c1\<rparr>)"
    using host_reads_frame [OF len(2)] by (simp add: d2)
  finally show ?thesis by (auto simp: host_frame_def Let_def)
qed

text \<open>
  The exit node queues data only for a stream that is open at that moment, whatever bytes
  the client sends and however the session ends.
\<close>
theorem host_streams_open:
  shows "case host_session E T connects key inp of
      Ret r st \<Rightarrow> log_wf {} (hs_log st) | Panic st \<Rightarrow> log_wf {} (hs_log st)
    | Blocked st \<Rightarrow> log_wf {} (hs_log st) | Spin \<Rightarrow> True"
  using host_loop_ok [of "\<lparr>hs_cipher = cipher_new key, hs_streams = [], hs_log = []\<rparr>" E T connects inp]
  unfolding host_session_def by (auto simp: host_ok_def split: outcome.splits)

text \<open>
  A target's answers change nothing: the relay writes the same with them as without.
\<close>
theorem responses_dropped:
  "relay_task (filter (\<lambda>e. case e of TargetRead _ \<Rightarrow> False | _ \<Rightarrow> True) es) = relay_task es"
  by (induction es rule: relay_task.induct) simp_all

lemma sock_read_append:
  "length xs = n \<Longrightarrow> sock_read n (s\<lparr>ci_in := xs @ ys\<rparr>) = Ret (Inr xs) (s\<lparr>ci_in := ys\<rparr>)"
  by (simp add: sock_read_def)

lemma unat_length_u8: "length xs < 256 \<Longrightarrow> unat (word_of_nat (length xs) :: u8) = length xs"
  by (simp add: unat_of_nat)

text \<open>
  What the SOCKS5 negotiation answers to a complete request: another version is
  refused with nothing written, a command other than CONNECT gets the reply \<open>7\<close>, an address
  type other than IPv4 and domain name gets no reply, a domain that is not UTF-8 is refused,
  and otherwise it returns the target host and port, having read the request exactly.
\<close>
theorem socks_negotiate_exact:
  assumes "ci_in s = [ver, word_of_nat (length methods)] @ methods @ [v, cmd, rsv, atyp] @
      (if atyp = 0x01 then ip else word_of_nat (length domain) # domain) @ port @ rest"
    and "length methods < 256" and "length ip = 4" and "length domain < 256" and "length port = 2"
  shows "\<exists>left. socks_negotiate never s =
    (if ver \<noteq> 0x05 then Ret (Inl UnsupportedVersion) (s\<lparr>ci_in := left\<rparr>)
     else if cmd \<noteq> 0x01
     then Ret (Inl OnlyConnect) (s\<lparr>ci_in := left, ci_out := ci_out s @
       [ToApp [0x05, 0x00], ToApp [0x05, 0x07, 0x00, 0x01, 0, 0, 0, 0, 0, 0]]\<rparr>)
     else if atyp = 0x01
     then Ret (Inr (show_ipv4 ip, of_be_bytes port)) (s\<lparr>ci_in := rest, ci_out := ci_out s @ [ToApp [0x05, 0x00]]\<rparr>)
     else if atyp \<noteq> 0x03
     then Ret (Inl UnsupportedAddressType) (s\<lparr>ci_in := left, ci_out := ci_out s @ [ToApp [0x05, 0x00]]\<rparr>)
     else if utf8_ok domain
     then Ret (Inr (string_of_bytes domain, of_be_bytes port))
       (s\<lparr>ci_in := rest, ci_out := ci_out s @ [ToApp [0x05, 0x00]]\<rparr>)
     else Ret (Inl InvalidUtf8) (s\<lparr>ci_in := left, ci_out := ci_out s @ [ToApp [0x05, 0x00]]\<rparr>))"
proof -
  let ?addr = "if atyp = 0x01 then ip else word_of_nat (length domain) # domain"
  let ?tail = "?addr @ port @ rest"
  let ?s = "\<lambda>xs. s\<lparr>ci_in := xs\<rparr>" and ?t = "\<lambda>xs. s\<lparr>ci_in := xs, ci_out := ci_out s @ [ToApp [0x05, 0x00]]\<rparr>"
  have rd: "sock_read n (?t (xs @ ys)) = Ret (Inr xs) (?t ys)" if "length xs = n" for n xs ys
    using that by (simp add: sock_read_def)
  have r1: "sock_read 2 s = Ret (Inr [ver, word_of_nat (length methods)]) (?s (methods @ [v, cmd, rsv, atyp] @ ?tail))"
    unfolding sock_read_def assms(1) by (simp add: read_exact_def)
  have r2: "sock_read (unat (word_of_nat (length methods) :: u8)) (?s (methods @ [v, cmd, rsv, atyp] @ ?tail)) =
      Ret (Inr methods) (?s ([v, cmd, rsv, atyp] @ ?tail))"
    using assms(2) by (intro sock_read_append) (simp add: unat_length_u8)
  have r3: "sock_read 4 (?t ([v, cmd, rsv, atyp] @ ?tail)) = Ret (Inr [v, cmd, rsv, atyp]) (?t ?tail)"
    by (rule rd) simp
  have target: "read_target atyp (?t ?tail) =
      (if atyp = 0x01 then Ret (Inr (show_ipv4 ip)) (?t (port @ rest))
       else if atyp \<noteq> 0x03 then Ret (Inl UnsupportedAddressType) (?t ?tail)
       else if utf8_ok domain then Ret (Inr (string_of_bytes domain)) (?t (port @ rest))
       else Ret (Inl InvalidUtf8) (?t (port @ rest)))"
    using rd [OF assms(3)] rd [of "[word_of_nat (length domain)]" 1 "domain @ port @ rest"]
      rd [of domain "length domain" "port @ rest"] assms(4)
    by (simp add: read_target_def unat_length_u8)
  have run: "socks_negotiate never s =
      (if ver \<noteq> 0x05 then Ret (Inl UnsupportedVersion) (?s (methods @ [v, cmd, rsv, atyp] @ ?tail))
       else if cmd \<noteq> 0x01
       then Ret (Inl OnlyConnect) (?t ?tail\<lparr>ci_out := ci_out s @
         [ToApp [0x05, 0x00], ToApp [0x05, 0x07, 0x00, 0x01, 0, 0, 0, 0, 0, 0]]\<rparr>)
       else try_then (read_target atyp (?t ?tail)) (\<lambda>target_host s.
         try_then (sock_read 2 s) (\<lambda>port s. Ret (Inr (target_host, of_be_bytes port)) s)))"
    unfolding socks_negotiate_def r1 try_then_simps
    using r2 r3 by (simp add: sock_write_def)
  show ?thesis
    unfolding run target using rd [OF assms(5), of rest]
    by (cases "ver \<noteq> 0x05"; cases "cmd \<noteq> 0x01"; cases "atyp = 0x01"; cases "atyp = 0x03"; cases "utf8_ok domain")
       auto
qed

section \<open>Examples\<close>

text \<open>A codec of the two frames the client sends, with bincode's sizes.\<close>

definition sample_frame_enc :: "tunnel_frame \<Rightarrow> bytes option" where
  "sample_frame_enc f =
     (case f of
        ConnectTcp i h n \<Rightarrow>
          Some (be_bytes 4 (0 :: u32) @ be_bytes 4 i @ be_bytes 8 (0 :: u64) @ be_bytes 2 n @ str_bytes h)
      | Data i d \<Rightarrow> Some (be_bytes 4 (3 :: u32) @ be_bytes 4 i @ be_bytes 8 (0 :: u64) @ d)
      | _ \<Rightarrow> None)"

definition sample_frame_dec :: "bytes \<Rightarrow> tunnel_frame option" where
  "sample_frame_dec bs =
     (if take 4 bs = be_bytes 4 (0 :: u32)
      then Some (ConnectTcp (of_be_bytes (take 4 (drop 4 bs))) (string_of_bytes (drop 18 bs))
        (of_be_bytes (take 2 (drop 16 bs))))
      else Some (Data (of_be_bytes (take 4 (drop 4 bs))) (drop 16 bs)))"

definition sample_frames :: frame_codec where
  "sample_frames = \<lparr>frame_enc = sample_frame_enc, frame_dec = sample_frame_dec\<rparr>"

lemma frame_codec_laws_sample: "frame_codec_laws sample_frames"
proof -
  have "sample_frame_enc f = Some p \<Longrightarrow> sample_frame_dec p = Some f" for f p
    by (cases f) (auto simp: sample_frame_enc_def sample_frame_dec_def be_bytes_inject of_be_bytes_be_bytes
        string_of_str_bytes)
  then show ?thesis
    by (auto simp: frame_codec_laws_def sample_frames_def sample_frame_enc_def)
qed

theorem tunnel_delivers_witness:
  "\<exists>encs s' c. encrypt_all toy_env (map (the \<circ> sample_frame_enc) [ConnectTcp 1 ''a'' 80, Data 1 [7]]) (cipher_new 9) = Ret encs s' \<and>
     host_session toy_env sample_frames (\<lambda>_ _. True) 9 (on_wire encs) =
       Ret (Inr ()) \<lparr>hs_cipher = c, hs_streams = [(1, target_addr ''a'' 80)],
         hs_log = [Opened 1 (target_addr ''a'' 80), Queued 1 [7]]\<rparr>"
proof -
  let ?ps = "map (the \<circ> sample_frame_enc) [ConnectTcp 1 ''a'' 80, Data 1 [7]]"
  obtain encs s' where e: "encrypt_all toy_env ?ps (cipher_new 9) = Ret encs s'"
    by (simp add: encrypt_def Let_def add_ck_def cipher_new_def)
  have m: "map (frame_enc sample_frames) [ConnectTcp 1 ''a'' 80, Data 1 [7]] = map Some ?ps"
    by (simp add: sample_frames_def sample_frame_enc_def)
  have "\<forall>p \<in> set ?ps. length p + 40 < 2 ^ 32" by (simp add: sample_frame_enc_def)
  from tunnel_delivers [OF frame_codec_laws_sample m this e, of
      "\<lparr>hs_cipher = cipher_new 9, hs_streams = [], hs_log = []\<rparr>" "\<lambda>_ _. True"] e
  show ?thesis
    by (auto simp: host_session_def cipher_new_def host_frame_def hm_insert_def hm_get_def Let_def)
qed

definition socks_request :: client_state where
  "socks_request = \<lparr>ci_in = [5, 1, 0, 5, 1, 0, 3, 1, 0x61, 0, 80], ci_out = [], stream_counter = 1\<rparr>"

lemma text_a: "utf8_ok [0x61]" "string_of_bytes [0x61] = ''a''"
  by (simp_all add: utf8_ok.simps string_of_bytes_def char_of_eq_iff)

lemma request_negotiated:
  "socks_negotiate never socks_request =
     Ret (Inr (''a'', 80)) (socks_request\<lparr>ci_in := [], ci_out := [ToApp [5, 0]]\<rparr>)"
  by (simp add: socks_request_def socks_negotiate_def sock_read_def read_exact_def sock_write_def
      read_target_def text_a of_be_bytes_def be_nat_def)

theorem socks_negotiate_exact_witness:
  "socks_negotiate never socks_request =
     Ret (Inr (''a'', 80)) (socks_request\<lparr>ci_in := [], ci_out := [ToApp [5, 0]]\<rparr>)"
  using socks_negotiate_exact [of socks_request 5 "[0]" 5 1 0 3 "[0, 0, 0, 0]" "[0x61]" "[0, 80]" "[]"]
  by (simp add: socks_request_def text_a of_be_bytes_def be_nat_def)

theorem tunnel_forwards_nothing_witness:
  "\<exists>s' st. handle_socks5_connection toy_env sample_frames never True 9 [[7], []] socks_request = Ret (Inr ()) s' \<and>
     host_session toy_env sample_frames (\<lambda>_ _. True) 9 (tunnel_bytes (ci_out s')) =
       Ret (Inl (HostCipher (ReplayDetected 1 0))) st"
proof -
  obtain s' where r: "handle_socks5_connection toy_env sample_frames never True 9 [[7], []] socks_request = Ret (Inr ()) s'"
    unfolding handle_socks5_connection_def request_negotiated try_then_simps
    by (simp add: client_encrypt_def frame_to_bytes_def sample_frames_def sample_frame_enc_def encrypt_def Let_def
        add_ck_def cipher_new_def send_frame_never sock_write_def)
  from tunnel_forwards_nothing [OF frame_codec_laws_sample r, of "\<lambda>_ _. True"] r
  show ?thesis by (auto simp: socks_request_def)
qed

end
