(* ===== verification/Tunnel_Run.thy ===== *)
theory Tunnel_Run
  imports Tunnel Peers
begin

text \<open>
  The two listening programs of \<open>aura-tunnel\<close>: \<open>HostExitNode::run\<close> and
  \<open>Socks5TunnelClient::run\<close>. Each accepts connections for as long as accepting works and hands
  every one to a task of its own; the tasks share nothing on the exit node, and the counter of
  stream identifiers on the client. A list of arrivals is what accepting yields, in order; its end
  means that the program waits for the next one.
\<close>

section \<open>The exit node\<close>

record host_exit_node =
  listen_addr :: socket_addr

definition host_new :: "socket_addr \<Rightarrow> host_exit_node" where
  "host_new addr = \<lparr>listen_addr = addr\<rparr>"

text \<open>
  An arrival: what connecting to targets answers and what the client sends, or \<open>None\<close> when
  accepting fails, which ends the program. The result is the error \<open>run\<close> returns, if it
  returns, and how each session ends.
\<close>

type_synonym arrival = "((host_event list \<Rightarrow> string \<Rightarrow> bool) \<times> bytes) option"

fun host_accept ::
  "env \<Rightarrow> frame_codec \<Rightarrow> 256 word \<Rightarrow> arrival list \<Rightarrow>
     host_error option \<times> (host_error + unit, host_state) outcome list" where
  "host_accept E T key [] = (None, [])"
| "host_accept E T key (None # arrivals) = (Some HostIo, [])"
| "host_accept E T key (Some (connects, inp) # arrivals) =
     (let (err, sessions) = host_accept E T key arrivals
      in (err, host_session E T connects key inp # sessions))"

definition host_run ::
  "env \<Rightarrow> frame_codec \<Rightarrow> (socket_addr \<Rightarrow> bool) \<Rightarrow> 256 word \<Rightarrow> arrival list \<Rightarrow> host_exit_node \<Rightarrow>
     host_error option \<times> (host_error + unit, host_state) outcome list" where
  "host_run E T binds key arrivals node =
     (if \<not> binds (listen_addr node) then (Some HostIo, []) else host_accept E T key arrivals)"

section \<open>The SOCKS5 client\<close>

record socks5_tunnel_client =
  socks_addr :: socket_addr
  host_tunnel_addr :: socket_addr
  client_key :: "256 word"

definition client_new :: "socket_addr \<Rightarrow> socket_addr \<Rightarrow> 256 word \<Rightarrow> socks5_tunnel_client" where
  "client_new socks host key = \<lparr>socks_addr = socks, host_tunnel_addr = host, client_key = key\<rparr>"

text \<open>
  A connection of an application: which writes fail, whether the exit node can be reached,
  the bytes of the negotiation and the chunks read after it. The connections are handled in the
  order in which they take their stream identifier from the shared counter.
\<close>

record app_connection =
  ac_fails :: "client_out list \<Rightarrow> bool"
  ac_host_up :: bool
  ac_request :: bytes
  ac_reads :: "bytes list"

fun next_counter :: "(client_error + unit, client_state) outcome \<Rightarrow> u32 \<Rightarrow> u32" where
  "next_counter (Ret r s) n = stream_counter s"
| "next_counter (Panic s) n = stream_counter s"
| "next_counter (Blocked s) n = stream_counter s"
| "next_counter Spin n = n"

fun client_accept ::
  "env \<Rightarrow> frame_codec \<Rightarrow> 256 word \<Rightarrow> u32 \<Rightarrow> app_connection option list \<Rightarrow>
     client_error option \<times> (client_error + unit, client_state) outcome list" where
  "client_accept E T key counter [] = (None, [])"
| "client_accept E T key counter (None # arrivals) = (Some ClientIo, [])"
| "client_accept E T key counter (Some ac # arrivals) =
     (let out = handle_socks5_connection E T (ac_fails ac) (ac_host_up ac) key (ac_reads ac)
            \<lparr>ci_in = ac_request ac, ci_out = [], stream_counter = counter\<rparr>;
          (err, connections) = client_accept E T key (next_counter out counter) arrivals
      in (err, out # connections))"

definition client_run ::
  "env \<Rightarrow> frame_codec \<Rightarrow> (socket_addr \<Rightarrow> bool) \<Rightarrow> app_connection option list \<Rightarrow> socks5_tunnel_client \<Rightarrow>
     client_error option \<times> (client_error + unit, client_state) outcome list" where
  "client_run E T binds arrivals client =
     (if \<not> binds (socks_addr client) then (Some ClientIo, [])
      else client_accept E T (client_key client) 1 arrivals)"

section \<open>What holds of the listening programs\<close>

lemma host_accept_sessions:
  "host_accept E T key (map Some cs) = (None, map (\<lambda>(connects, inp). host_session E T connects key inp) cs)"
  by (induction cs) auto

lemma host_accept_prefix:
  "host_accept E T key (map Some cs @ None # arrivals) =
     (Some HostIo, map (\<lambda>(connects, inp). host_session E T connects key inp) cs)"
  by (induction cs) auto

text \<open>
  However its sessions end, in an error or a panic, the exit node goes on listening: only a
  failure to bind or to accept ends it. Each connection is handled as if it were the first, so what
  was sent in one is accepted again in any later one.
\<close>
theorem exit_node_listens:
  shows "fst (host_run E T binds key arrivals node) \<noteq> None \<longleftrightarrow> \<not> binds (listen_addr node) \<or> None \<in> set arrivals"
    and "binds (listen_addr node) \<Longrightarrow> host_run E T binds key (map Some (before @ [(connects, inp)] @ between @ [(connects, inp)])) node =
      (None, map (\<lambda>(c, i). host_session E T c key i) before @ [host_session E T connects key inp] @
        map (\<lambda>(c, i). host_session E T c key i) between @ [host_session E T connects key inp])"
proof -
  have "fst (host_accept E T key as) \<noteq> None \<longleftrightarrow> None \<in> set as" for as
    by (induction as rule: host_accept.induct) (auto split: prod.split)
  then show "fst (host_run E T binds key arrivals node) \<noteq> None \<longleftrightarrow> \<not> binds (listen_addr node) \<or> None \<in> set arrivals"
    by (simp add: host_run_def)
qed (simp add: host_run_def host_accept_sessions del: map_append, simp)

text \<open>Where a call on the client's side leaves the counter.\<close>

definition counter_in :: "u32 set \<Rightarrow> ('a, client_state) outcome \<Rightarrow> bool" where
  "counter_in S m =
     (case m of Ret _ s \<Rightarrow> stream_counter s \<in> S | Panic s \<Rightarrow> stream_counter s \<in> S
        | Blocked s \<Rightarrow> stream_counter s \<in> S | Spin \<Rightarrow> True)"

lemma counter_in_simps [simp]:
  "counter_in S (Ret r s) \<longleftrightarrow> stream_counter s \<in> S" "counter_in S (Panic s) \<longleftrightarrow> stream_counter s \<in> S"
  "counter_in S (Blocked s) \<longleftrightarrow> stream_counter s \<in> S" "counter_in S Spin"
  by (simp_all add: counter_in_def)

lemma counter_andThen:
  "counter_in S m \<Longrightarrow> (\<And>a s. stream_counter s \<in> S \<Longrightarrow> counter_in S (k a s)) \<Longrightarrow> counter_in S (andThen m k)"
  by (cases m) simp_all

lemma counter_try_then:
  "counter_in S m \<Longrightarrow> (\<And>a s. stream_counter s \<in> S \<Longrightarrow> counter_in S (k a s)) \<Longrightarrow> counter_in S (try_then m k)"
  unfolding try_then_def by (rule counter_andThen) (auto split: sum.split)

lemma counter_widen:
  assumes "counter_in S m" and "S \<subseteq> S'" and "\<And>a s. stream_counter s \<in> S \<Longrightarrow> counter_in S' (k a s)"
  shows "counter_in S' (try_then m k)"
  using assms by (cases m) (auto simp: try_then_def split: sum.split)

lemma counter_socket [simp]:
  "counter_in S (sock_read n s) \<longleftrightarrow> stream_counter s \<in> S" "counter_in S (sock_write fails out s) \<longleftrightarrow> stream_counter s \<in> S"
  by (simp_all add: sock_read_def sock_write_def split: option.split)

lemma counter_negotiate: "stream_counter s \<in> S \<Longrightarrow> counter_in S (socks_negotiate fails s)"
  unfolding socks_negotiate_def read_target_def
  by (rule counter_try_then | intro conjI impI | simp)+

lemma counter_encrypt:
  "stream_counter s \<in> S \<Longrightarrow> (\<And>enc c. counter_in S (k enc c)) \<Longrightarrow> counter_in S (client_encrypt E T f c0 s k)"
  unfolding client_encrypt_def by (cases "frame_to_bytes T f") (auto split: outcome.split)

lemma counter_send: "stream_counter s \<in> S \<Longrightarrow> counter_in S (send_frame fails enc s)"
  unfolding send_frame_def by (rule counter_try_then | simp)+

lemma counter_forward: "stream_counter s \<in> S \<Longrightarrow> counter_in S (client_forward E T fails i reads c s)"
  by (induction reads arbitrary: c s) (auto intro!: counter_encrypt counter_try_then counter_send)

text \<open>
  The client goes on listening whatever becomes of its connections, and each of them takes at
  most one stream identifier.
\<close>
theorem client_listens:
  shows "fst (client_run E T binds arrivals client) \<noteq> None \<longleftrightarrow> \<not> binds (socks_addr client) \<or> None \<in> set arrivals"
    and "counter_in {stream_counter s, stream_counter s + 1} (handle_socks5_connection E T fails up key reads s)"
proof -
  have "fst (client_accept E T key n as) \<noteq> None \<longleftrightarrow> None \<in> set as" for key n as
    by (induction E T key n as rule: client_accept.induct) (auto simp: Let_def split: prod.split)
  then show "fst (client_run E T binds arrivals client) \<noteq> None \<longleftrightarrow> \<not> binds (socks_addr client) \<or> None \<in> set arrivals"
    by (simp add: client_run_def)
  let ?S = "{stream_counter s, stream_counter s + 1}"
  have tail: "counter_in S (client_encrypt E T f (cipher_new key) s (\<lambda>enc _.
        try_then (send_frame fails enc s) (\<lambda>_ s.
        try_then (sock_write fails out s) (\<lambda>_ s.
          andThen (client_forward E T fails i reads (cipher_new key) s) (\<lambda>_ s. Ret (Inr ()) s)))))"
    if "stream_counter s \<in> S" for S f i out s
    by (rule counter_encrypt | rule counter_try_then | rule counter_send | rule counter_andThen |
      rule counter_forward | simp add: that)+
  show "counter_in ?S (handle_socks5_connection E T fails up key reads s)"
    unfolding handle_socks5_connection_def
    by (rule counter_widen [OF counter_negotiate [OF singletonI]]) (auto simp: Let_def intro!: tail)
qed

end
