(* ===== verification/Unit_Tests.thy ===== *)
theory Unit_Tests
  imports System Tunnel Wal Wallet
begin

unbundle bit_operations_syntax

text \<open>
  The unit tests of the workspace (the test modules of each crate's \<open>lib.rs\<close>) as programs over
  the development's definitions, and what they come to. A test passes, fails (an assertion, an
  \<open>unwrap\<close> or an \<open>expect\<close> panics) or hangs. The random bytes a test draws, the clock and the
  libraries are arguments. The tests of the mempool and of the consensus engine are in
  \<open>Engine_Tests\<close>.
\<close>

section \<open>Tests as programs\<close>

datatype verdict = Passed | Failed | Hangs

definition assert_that :: "bool \<Rightarrow> verdict \<Rightarrow> verdict" where
  "assert_that b k = (if b then k else Failed)"

fun expect :: "'a option \<Rightarrow> ('a \<Rightarrow> verdict) \<Rightarrow> verdict" where
  "expect None k = Failed"
| "expect (Some a) k = k a"

fun unwrap :: "'e + 'a \<Rightarrow> ('a \<Rightarrow> verdict) \<Rightarrow> verdict" where
  "unwrap (Inl e) k = Failed"
| "unwrap (Inr a) k = k a"

text \<open>A call that can panic, wait for ever or loop, and the rest of the test.\<close>

fun after :: "('a, 's) outcome \<Rightarrow> ('a \<Rightarrow> 's \<Rightarrow> verdict) \<Rightarrow> verdict" where
  "after (Ret a s) k = k a s"
| "after (Panic s) k = Failed"
| "after (Blocked s) k = Hangs"
| "after Spin k = Hangs"

text \<open>A loop over the elements of a list.\<close>

fun each :: "('a \<Rightarrow> verdict) \<Rightarrow> 'a list \<Rightarrow> verdict \<Rightarrow> verdict" where
  "each f [] k = k"
| "each f (x # xs) k = (case f x of Passed \<Rightarrow> each f xs k | v \<Rightarrow> v)"

lemma assert_that_simps [simp]: "assert_that True k = k" "assert_that False k = Failed"
  by (simp_all add: assert_that_def)

lemma passed_iff:
  "assert_that b k = Passed \<longleftrightarrow> b \<and> k = Passed"
  "expect x f = Passed \<longleftrightarrow> (\<exists>a. x = Some a \<and> f a = Passed)"
  "unwrap y g = Passed \<longleftrightarrow> (\<exists>a. y = Inr a \<and> g a = Passed)"
  "after m h = Passed \<longleftrightarrow> (\<exists>a s. m = Ret a s \<and> h a s = Passed)"
  subgoal by (cases b) simp_all
  subgoal by (cases x) simp_all
  subgoal by (cases y) simp_all
  subgoal by (cases m) simp_all
  done

lemma each_passed: "each f xs k = Passed \<longleftrightarrow> (\<forall>x \<in> set xs. f x = Passed) \<and> k = Passed"
  by (induction xs) (auto split: verdict.split)

definition accepted :: "'e + 'a \<Rightarrow> bool" where
  "accepted r = (case r of Inl _ \<Rightarrow> False | Inr _ \<Rightarrow> True)"

lemma accepted_simps [simp]: "accepted (Inl e) = False" "accepted (Inr a) = True"
  by (simp_all add: accepted_def)

section \<open>\<open>aura-crypto\<close>\<close>

definition test_blake3_hashing_and_domain_separation :: "env \<Rightarrow> verdict" where
  "test_blake3_hashing_and_domain_separation E =
     (let msg = str_bytes ''aura blockchain transaction payload'';
          h1 = hash_bytes E msg;
          h2 = hash_with_domain E DOMAIN_TX msg;
          h3 = hash_with_domain E DOMAIN_BLOCK_HEADER msg
      in assert_that (h1 \<noteq> h2) (assert_that (h2 \<noteq> h3) (assert_that (h1 = hash_bytes E msg) Passed)))"

definition test_ed25519_sign_and_verify :: "env \<Rightarrow> 256 word \<Rightarrow> verdict" where
  "test_ed25519_sign_and_verify E drawn =
     (let keypair = keypair_generate E drawn;
          message = str_bytes ''transfer 1000000 AUR to aura1receiver'';
          sg = kp_sign E keypair message;
          corrupted_message = str_bytes ''transfer 9999999 AUR to aura1receiver''
      in assert_that (accepted (pk_verify E (kp_public keypair) message sg))
           (assert_that (\<not> accepted (pk_verify E (kp_public keypair) corrupted_message sg)) Passed))"

definition test_bech32_address_derivation_and_roundtrip :: "env \<Rightarrow> 256 word \<Rightarrow> verdict" where
  "test_bech32_address_derivation_and_roundtrip E drawn =
     (let addr = address_from_pubkey E (kp_public (keypair_generate E drawn))
      in unwrap (to_bech32 E addr DEFAULT_HRP) (\<lambda>bech32_str.
         assert_that (take 5 bech32_str = ''aura1'')
        (expect (from_bech32 E bech32_str DEFAULT_HRP) (\<lambda>r. unwrap r (\<lambda>decoded_addr.
         assert_that (addr = decoded_addr)
        (expect (from_bech32 E bech32_str ''eth'') (\<lambda>r. assert_that (\<not> accepted r) Passed)))))))"

text \<open>The words of a phrase, which is ASCII text.\<close>

definition is_space :: "char \<Rightarrow> bool" where
  "is_space c \<longleftrightarrow> c = CHR '' '' \<or> (9 \<le> (of_char c :: nat) \<and> of_char c \<le> (13 :: nat))"

fun split_whitespace :: "string \<Rightarrow> string list" where
  "split_whitespace [] = []"
| "split_whitespace (c # s) =
     (if is_space c then split_whitespace s
      else case s of
        [] \<Rightarrow> [[c]]
      | d # _ \<Rightarrow>
          if is_space d then [c] # split_whitespace s
          else case split_whitespace s of [] \<Rightarrow> [[c]] | w # ws \<Rightarrow> (c # w) # ws)"

definition test_hd_wallet_bip39_and_slip0010 :: "env \<Rightarrow> 'm bip39 \<Rightarrow> bytes \<Rightarrow> verdict" where
  "test_hd_wallet_bip39_and_slip0010 E B drawn =
     unwrap (generate_mnemonic B drawn 12) (\<lambda>mnemonic.
     assert_that (length (split_whitespace mnemonic) = 12)
    (expect (seed_from_mnemonic B mnemonic '''') (\<lambda>r. unwrap r (\<lambda>seed.
     unwrap (derive_keypair E seed 0 0 0) (\<lambda>keypair_0.
     unwrap (derive_keypair E seed 0 0 1) (\<lambda>keypair_1.
     assert_that (pk_bytes (kp_public keypair_0) \<noteq> pk_bytes (kp_public keypair_1))
    (unwrap (derive_keypair E seed 0 0 0) (\<lambda>keypair_0_again.
     assert_that (pk_bytes (kp_public keypair_0) = pk_bytes (kp_public keypair_0_again)) Passed))))))))"

section \<open>\<open>aura-primitives\<close>\<close>

definition test_transaction_signing_and_verification :: "env \<Rightarrow> 256 word \<Rightarrow> 256 word \<Rightarrow> verdict" where
  "test_transaction_signing_and_verification E drawn1 drawn2 =
     (let sender_kp = keypair_generate E drawn1;
          sender_addr = address_from_pubkey E (kp_public sender_kp);
          receiver_kp = keypair_generate E drawn2;
          receiver_addr = address_from_pubkey E (kp_public receiver_kp)
      in unwrap (tx_sign E sender_kp (tx_new_unsigned sender_addr receiver_addr 500000000 1000 1 Transfer []
           (kp_public sender_kp))) (\<lambda>tx.
         assert_that (accepted (tx_verify E tx))
        (let tampered_tx = tx\<lparr>tx_amount := 999999999\<rparr>
         in assert_that (\<not> accepted (tx_verify E tampered_tx)) Passed)))"

definition test_merkle_tree_root_and_inclusion_proof :: "env \<Rightarrow> verdict" where
  "test_merkle_tree_root_and_inclusion_proof E =
     (let payloads = map str_bytes
            [''tx_001_transfer_alice_bob'', ''tx_002_stake_validator_1'', ''tx_003_transfer_carol_dave'',
             ''tx_004_register_validator_2'', ''tx_005_transfer_eve_frank''];
          tree = from_leaf_payloads E payloads;
          root = tree_root tree
      in assert_that (root \<noteq> HASH_ZERO)
        (each (\<lambda>(i, payload).
           expect (generate_proof tree i) (\<lambda>found. expect found (\<lambda>proof.
           assert_that (proof_verify E proof root payload)
          (assert_that (\<not> proof_verify E proof root (str_bytes ''tampered_payload_data'')) Passed))))
         (enumerate 0 payloads) Passed))"

definition test_tamper_detection_in_block :: "env \<Rightarrow> 256 word \<Rightarrow> 256 word \<Rightarrow> verdict" where
  "test_tamper_detection_in_block E drawn1 drawn2 =
     (let proposer_kp = keypair_generate E drawn1;
          proposer_addr = address_from_pubkey E (kp_public proposer_kp);
          sender_kp = keypair_generate E drawn2;
          sender_addr = address_from_pubkey E (kp_public sender_kp)
      in unwrap (tx_sign E sender_kp (tx_new_unsigned sender_addr proposer_addr 100 10 1 Transfer []
           (kp_public sender_kp))) (\<lambda>tx1.
         let b0 = \<lparr>b_header = header_new_unsigned 1 ''aura-testnet-1'' 1 0 HASH_ZERO HASH_ZERO HASH_ZERO HASH_ZERO
                     1700000000 proposer_addr,
                   b_transactions = [tx1], b_last_commit_qc = None\<rparr>;
             b1 = b0\<lparr>b_header := (b_header b0)\<lparr>h_merkle_root := compute_merkle_root E b0\<rparr>\<rparr>
         in unwrap (header_sign E proposer_kp (b_header b1)) (\<lambda>signed_header.
            let block = b1\<lparr>b_header := signed_header\<rparr>
            in assert_that (accepted (validate_basic E block))
              (let tampered_block =
                     block\<lparr>b_transactions := (b_transactions block)[0 := (b_transactions block ! 0)\<lparr>tx_amount := 50000\<rparr>]\<rparr>
               in assert_that (\<not> accepted (validate_basic E tampered_block)) Passed))))"

definition test_bft_quorum_certificate :: verdict where
  "test_bft_quorum_certificate =
     (let qc_valid = \<lparr>qc_block_hash = HASH_ZERO, qc_height = 10, qc_round = 0, qc_votes = [],
            qc_total_voting_power = 100, qc_signers_voting_power = 67\<rparr>;
          qc_invalid = \<lparr>qc_block_hash = HASH_ZERO, qc_height = 10, qc_round = 0, qc_votes = [],
            qc_total_voting_power = 100, qc_signers_voting_power = 66\<rparr>
      in assert_that (is_valid_quorum qc_valid) (assert_that (\<not> is_valid_quorum qc_invalid) Passed))"

section \<open>\<open>aura-storage\<close>\<close>

definition test_smt_deterministic_root_and_updates :: "env \<Rightarrow> verdict" where
  "test_smt_deterministic_root_and_updates E =
     (let initial_root = smt_root E smt_new
      in assert_that (initial_root = empty_root E SMT_DEPTH)
        (let key1 = Hash (of_be_bytes (replicate 32 1));
             smt1 = smt_update E key1 (str_bytes ''balance:1000'') smt_new;
             root1 = smt_root E smt1
         in assert_that (root1 \<noteq> initial_root)
           (let key2 = Hash (of_be_bytes (replicate 32 2));
                smt2 = smt_update E key2 (str_bytes ''balance:5000'') smt1;
                root2 = smt_root E smt2
            in assert_that (root2 \<noteq> root1)
              (assert_that (smt_root E (smt_update E key2 [] smt2) = root1) Passed))))"

definition storage_genesis :: "address \<Rightarrow> public_key \<Rightarrow> address \<Rightarrow> genesis_config" where
  "storage_genesis alice_addr alice_key bob_addr =
     \<lparr>g_chain_id = ''aura-testnet'', g_timestamp = 1700000000,
      g_accounts = [\<lparr>ga_address = alice_addr, ga_balance = 1000000000\<rparr>,
        \<lparr>ga_address = bob_addr, ga_balance = 500000000\<rparr>],
      g_validators = [\<lparr>gv_address = alice_addr, gv_pubkey = alice_key, gv_stake = 500000000\<rparr>],
      g_initial_state_root = HASH_ZERO\<rparr>"

definition test_state_db_genesis_and_commit_block :: "env \<Rightarrow> codec \<Rightarrow> 256 word \<Rightarrow> 256 word \<Rightarrow> verdict" where
  "test_state_db_genesis_and_commit_block E C drawn1 drawn2 =
     (let alice_kp = keypair_generate E drawn1;
          alice_addr = address_from_pubkey E (kp_public alice_kp);
          bob_addr = address_from_pubkey E (kp_public (keypair_generate E drawn2));
          genesis = storage_genesis alice_addr (kp_public alice_kp) bob_addr;
          (applied, db) = apply_genesis E C genesis (state_db_new E open_in_memory)
      in unwrap applied (\<lambda>root_genesis.
         assert_that (root_genesis \<noteq> HASH_ZERO)
        (let alice_acc = get_account C db alice_addr
         in assert_that (balance alice_acc = 1000000000)
           (assert_that (staked_amount alice_acc = 500000000)
           (assert_that (is_validator alice_acc)
           (expect (sub_ck (prof E) (balance alice_acc) 100000) (\<lambda>alice_balance.
            expect (add_ck (prof E) (nonce alice_acc) 1) (\<lambda>alice_nonce.
            let overlay1 = overlay_set alice_addr (alice_acc\<lparr>balance := alice_balance, nonce := alice_nonce\<rparr>) [];
                bob_acc = get_account C db bob_addr
            in expect (add_ck (prof E) (balance bob_acc) 100000) (\<lambda>bob_balance.
            let overlay2 = overlay_set bob_addr (bob_acc\<lparr>balance := bob_balance\<rparr>) overlay1;
                block1 = \<lparr>b_header = header_new_unsigned 1 ''aura-testnet'' 1 0
                            (block_hash E (to_genesis_block E genesis)) HASH_ZERO HASH_ZERO
                            (validator_set_hash E genesis) 1700000005 alice_addr,
                          b_transactions = [], b_last_commit_qc = None\<rparr>;
                (committed, db1) = commit_block E C block1 overlay2 db
            in unwrap committed (\<lambda>root_b1.
               assert_that (root_b1 \<noteq> root_genesis)
              (assert_that (get_latest_height db1 = 1)
              (assert_that (balance (get_account C db1 alice_addr) = 999900000)
              (assert_that (balance (get_account C db1 bob_addr) = 500100000) Passed)))))))))))))"

definition test_wal_write_and_recover :: "(bytes \<Rightarrow> u32) \<Rightarrow> verdict" where
  "test_wal_write_and_recover crc =
     (let file = wal_open None;
          (a1, file) = wal_append crc None (str_bytes ''record_1'') file
      in unwrap a1 (\<lambda>_.
      let (a2, file) = wal_append crc None (str_bytes ''record_2'') file
      in unwrap a2 (\<lambda>_.
      let (a3, file) = wal_append crc None (str_bytes ''record_3'') file
      in unwrap a3 (\<lambda>_.
      let file = wal_open (Some file);
          (r, file) = wal_recover crc file
      in unwrap r (\<lambda>recovered.
      assert_that (length recovered = 3)
     (assert_that (recovered ! 0 = str_bytes ''record_1'')
     (assert_that (recovered ! 1 = str_bytes ''record_2'')
     (assert_that (recovered ! 2 = str_bytes ''record_3'') Passed))))))))"

section \<open>\<open>aura-network\<close>\<close>

definition test_peer_manager_scoring_and_banning :: "env \<Rightarrow> bytes \<Rightarrow> verdict" where
  "test_peer_manager_scoring_and_banning E drawn =
     (let peer_id = peer_id_random drawn;
          peer = \<lparr>pr_id = peer_id, pr_addr = None, best_height = 50, best_hash = HASH_ZERO,
            reputation_score = 10, is_banned = False\<rparr>;
          pm = add_peer peer peer_manager_new
      in assert_that (active_peer_count pm = 1)
        (after (reward E peer_id 20 pm) (\<lambda>_ pm.
         expect (get_highest_peer pm) (\<lambda>best.
         assert_that (reputation_score best = 30)
        (after (penalize E peer_id 150 pm) (\<lambda>_ pm.
         assert_that (active_peer_count pm = 0) Passed))))))"

text \<open>The genesis with one validator that the tests of four crates write.\<close>

definition one_validator_genesis :: "address \<Rightarrow> public_key \<Rightarrow> genesis_config" where
  "one_validator_genesis val_addr val_key =
     \<lparr>g_chain_id = ''aura-testnet'', g_timestamp = 1700000000,
      g_accounts = [\<lparr>ga_address = val_addr, ga_balance = 10000000\<rparr>],
      g_validators = [\<lparr>gv_address = val_addr, gv_pubkey = val_key, gv_stake = 1000000\<rparr>],
      g_initial_state_root = HASH_ZERO\<rparr>"

definition test_sync_apply_blocks_in_sequence :: "env \<Rightarrow> codec \<Rightarrow> 256 word \<Rightarrow> verdict" where
  "test_sync_apply_blocks_in_sequence E C drawn =
     (let val_kp = keypair_generate E drawn;
          val_addr = address_from_pubkey E (kp_public val_kp);
          genesis = one_validator_genesis val_addr (kp_public val_kp);
          (applied, db) = apply_genesis E C genesis (state_db_new E open_in_memory)
      in unwrap applied (\<lambda>_.
         let block1 = \<lparr>b_header = header_new_unsigned 1 ''aura-testnet'' 1 0
                         (block_hash E (to_genesis_block E genesis)) HASH_ZERO HASH_ZERO
                         (validator_set_hash E genesis) 1700000005 val_addr,
                       b_transactions = [], b_last_commit_qc = None\<rparr>
         in unwrap (header_sign E val_kp (b_header block1)) (\<lambda>signed_header.
            after (apply_block_batch E C [block1\<lparr>b_header := signed_header\<rparr>] db) (\<lambda>r db.
            unwrap r (\<lambda>new_height.
            assert_that (new_height = 1) (assert_that (get_latest_height db = 1) Passed))))))"

section \<open>\<open>aura-tunnel\<close>\<close>

definition test_tunnel_cipher_encrypt_decrypt_and_tamper_detection :: "env \<Rightarrow> verdict" where
  "test_tunnel_cipher_encrypt_decrypt_and_tamper_detection E =
     (let key = of_be_bytes (replicate 32 0x42);
          crlf = [CHR 0x0D, CHR 0x0A];
          secret_payload = str_bytes (''GET /watch?v=dQw4w9WgXcQ HTTP/1.1'' @ crlf @ ''Host: youtube.com'' @ crlf @ crlf)
      in after (encrypt E secret_payload (cipher_new key)) (\<lambda>encrypted_frame client_cipher.
         after (decrypt E encrypted_frame (cipher_new key)) (\<lambda>r host_cipher.
         unwrap r (\<lambda>decrypted.
         assert_that (decrypted = secret_payload)
        (assert_that (42 < length encrypted_frame)
        (let tampered_frame = encrypted_frame[42 := encrypted_frame ! 42 XOR 1]
         in after (decrypt E tampered_frame host_cipher) (\<lambda>r _.
            assert_that (r = Inl TagMismatch) Passed)))))))"

definition test_ephemeral_handshake_session_key_derivation :: "env \<Rightarrow> 256 word \<Rightarrow> 256 word \<Rightarrow> verdict" where
  "test_ephemeral_handshake_session_key_derivation E drawn1 drawn2 =
     (let client_kp = keypair_generate E drawn1;
          host_kp = keypair_generate E drawn2;
          session_key_1 = derive_session_key E (kp_public client_kp) (kp_public host_kp);
          session_key_2 = derive_session_key E (kp_public client_kp) (kp_public host_kp)
      in assert_that (session_key_1 = session_key_2) (assert_that (session_key_1 \<noteq> 0) Passed))"

definition test_bandwidth_voucher_signing_and_verification :: "env \<Rightarrow> 256 word \<Rightarrow> verdict" where
  "test_bandwidth_voucher_signing_and_verification E drawn =
     (let voucher = voucher_new_signed E 1001 52428800 50000 (keypair_generate E drawn)
      in assert_that (voucher_verify E voucher)
        (assert_that (\<not> voucher_verify E (voucher\<lparr>bv_aur_amount := 1\<rparr>)) Passed))"

section \<open>\<open>aura-rpc\<close>\<close>

text \<open>
  The request goes through the router. \<open>read_request\<close> is the web framework's reading of a body,
  which answers with another status when it fails; an answer of the handler has status 200.
\<close>

definition test_rpc_get_block_height_and_node_info ::
  "env \<Rightarrow> codec \<Rightarrow> 'j json_lib \<Rightarrow> (string \<Rightarrow> 'j rpc_request option) \<Rightarrow> 256 word \<Rightarrow> verdict" where
  "test_rpc_get_block_height_and_node_info E C J read_request drawn =
     (let val_kp = keypair_generate E drawn;
          val_addr = address_from_pubkey E (kp_public val_kp);
          (applied, db) = apply_genesis E C (one_validator_genesis val_addr (kp_public val_kp)) (state_db_new E open_in_memory)
      in unwrap applied (\<lambda>_.
         let state = \<lparr>rs_db = db, rs_pool = mempool_new mempool_config_default, rs_peers = peer_manager_new,
               rs_chain_id = ''aura-testnet'', rs_sent = []\<rparr>;
             body = js_text J (js_object J [(''jsonrpc'', js_str J ''2.0''), (''id'', js_uint J 1),
               (''method'', js_str J ''getNodeInfo''), (''params'', js_object J [])])
         in assert_that (route ''POST'' ''/rpc'' = Some HandleRpc)
           (expect (read_request body) (\<lambda>req.
            after (handle_rpc E C J req state) (\<lambda>response _. Passed)))))"

section \<open>\<open>aura-metrics\<close>\<close>

definition test_metrics_collection :: "(metric_family list \<Rightarrow> bytes option) \<Rightarrow> verdict" where
  "test_metrics_collection encode =
     (let m = metrics_new\<lparr>BLOCK_HEIGHT := Some 42\<rparr>;
          m = m\<lparr>MEMPOOL_TXS := Some 10\<rparr>;
          m = processed_inc_by 5 m
      in expect (gather_metrics encode m) (\<lambda>output.
         assert_that (sublist ''aura_block_height 42'' output)
        (assert_that (sublist ''aura_mempool_transactions 10'' output) Passed)))"

section \<open>What the tests come to\<close>

lemma kp_ok_generate [simp]: "kp_ok E (keypair_generate E drawn)"
  by (simp add: kp_ok_def keypair_generate_def)

lemma own_signature [simp]:
  "ed25519_laws E \<Longrightarrow> pk_verify E (kp_public (keypair_generate E drawn)) m (kp_sign E (keypair_generate E drawn) m) = Inr ()"
  by (simp add: pk_verify_kp_sign)

lemma accepted_unit [simp]: "accepted r \<longleftrightarrow> r = Inr ()"
  by (cases r) simp_all

lemma verdict_if: "assert_that b Passed = (if b then Passed else Failed)"
  by simp

lemma ones_twos: "(of_be_bytes (replicate 32 1) :: 256 word) \<noteq> of_be_bytes (replicate 32 2)"
proof
  assume "(of_be_bytes (replicate 32 1) :: 256 word) = of_be_bytes (replicate 32 2)"
  then have "be_bytes 32 (of_be_bytes (replicate 32 1) :: 256 word) = be_bytes 32 (of_be_bytes (replicate 32 2) :: 256 word)"
    by (simp only:)
  then show False by (simp add: be_bytes_of_be_bytes)
qed

lemma genesis_applied:
  obtains h where "apply_genesis E C g memory_db = (Inr h, write_all E C (genesis_writes C g memory_db) (to_genesis_block E g) 0 memory_db)"
proof -
  have "kv_faults (db_kv memory_db) = []" by (simp add: memory_db_def open_in_memory_def)
  from genesis_no_faults [OF this] show ?thesis using that by blast
qed

text \<open>
  The hash test fails exactly on a collision of BLAKE3 between two of its three preimages,
  which all differ.
\<close>
theorem hash_test_exact:
  fixes msg defines "msg \<equiv> str_bytes ''aura blockchain transaction payload''"
  shows "test_blake3_hashing_and_domain_separation E =
    (if blake3_collision E msg (domain_preimage DOMAIN_TX msg) \<or>
        blake3_collision E (domain_preimage DOMAIN_TX msg) (domain_preimage DOMAIN_BLOCK_HEADER msg)
     then Failed else Passed)"
proof -
  have len: "length (domain_preimage d msg) = 8 + length d + length msg" for d
    by (simp add: domain_preimage_def le_len_def)
  have "length msg \<noteq> length (domain_preimage DOMAIN_TX msg)"
    "length (domain_preimage DOMAIN_TX msg) \<noteq> length (domain_preimage DOMAIN_BLOCK_HEADER msg)"
    unfolding len by (simp_all add: DOMAIN_TX_def DOMAIN_BLOCK_HEADER_def)
  then have "msg \<noteq> domain_preimage DOMAIN_TX msg" "domain_preimage DOMAIN_TX msg \<noteq> domain_preimage DOMAIN_BLOCK_HEADER msg"
    by metis+
  then show ?thesis
    unfolding test_blake3_hashing_and_domain_separation_def Let_def hash_bytes_def hash_with_domain_def
        blake3_collision_def msg_def [symmetric] assert_that_def by simp
qed

theorem signature_test_exact:
  assumes "ed25519_laws E"
  shows "test_ed25519_sign_and_verify E drawn =
    (if verify_strict E (ed_public E drawn) (str_bytes ''transfer 9999999 AUR to aura1receiver'')
        (ed_sign E drawn (str_bytes ''transfer 1000000 AUR to aura1receiver''))
     then Failed else Passed)"
  using assms
  by (simp add: test_ed25519_sign_and_verify_def Let_def pk_verify_def keypair_generate_def keypair_from_secret_bytes_def
      kp_sign_def ed25519_laws_def)

theorem bech32_test_passes:
  assumes "bech32_laws E" and "\<And>bs s. bech32_encode E DEFAULT_HRP bs = Inr s \<Longrightarrow> take 5 s = DEFAULT_HRP @ ''1''"
  shows "test_bech32_address_derivation_and_roundtrip E drawn = Passed"
proof -
  let ?a = "address_from_pubkey E (kp_public (keypair_generate E drawn))"
  obtain s where s: "bech32_encode E DEFAULT_HRP (addr_bytes ?a) = Inr s"
    using assms(1) unfolding bech32_laws_def by (metis addr_arr.length_to_bytes)
  then have "bech32_decode E s = Inr (DEFAULT_HRP, addr_bytes ?a)" "hrp_error E DEFAULT_HRP = None"
    using assms(1) unfolding bech32_laws_def by blast+
  with s assms(2) [OF s] show ?thesis
    by (simp add: test_bech32_address_derivation_and_roundtrip_def Let_def to_bech32_def from_bech32_def
        DEFAULT_HRP_def copy_from_slice_def)
qed

theorem quorum_test_passes: "test_bft_quorum_certificate = Passed"
  by (simp add: test_bft_quorum_certificate_def Let_def passed_iff is_valid_quorum_def exceeds_two_thirds_unat)

theorem wal_test_passes: "test_wal_write_and_recover crc = Passed"
proof -
  let ?rs = "map str_bytes [''record_1'', ''record_2'', ''record_3'']"
  have "wal_recover crc (WAL_MAGIC @ frames crc ?rs @ []) = (Inr ?rs, WAL_MAGIC @ frames crc ?rs)"
    by (rule wal_recover_log) simp_all
  moreover have "WAL_MAGIC \<noteq> []" using length_WAL_MAGIC by (metis length_0_conv zero_neq_numeral)
  ultimately show ?thesis
    by (simp add: test_wal_write_and_recover_def Let_def wal_append_def wal_open_def passed_iff)
qed

theorem peer_test_passes: "test_peer_manager_scoring_and_banning E drawn = Passed"
proof -
  have "sadd_ck p 10 20 = Some 30" "ssub_ck p 30 150 = Some (- 120)" for p
    by (cases p; simp add: sadd_ck_def ssub_ck_def)+
  then show ?thesis
    by (simp add: test_peer_manager_scoring_and_banning_def Let_def add_peer_def peer_manager_new_def hm_insert_def
        hm_get_def active_peer_count_def active_peers_def reward_def penalize_def get_highest_peer_def)
qed

text \<open>
  The tunnel test fails whatever the hash function: the tampered copy has the number of the
  frame already received, so it is refused as a replay before its tag is looked at.
\<close>
theorem tamper_test_fails: "test_tunnel_cipher_encrypt_decrypt_and_tamper_detection E = Failed"
proof -
  have one: "add_ck (prof E) (0 :: u64) 1 = Some 1" by (cases "prof E") (simp_all add: add_ck_def)
  let ?c = "cipher_new k" and ?ct = "\<lambda>k p. xor_stream (stream_key E k 0) p"
  have enc: "encrypt E p (cipher_new k) =
      Ret (be_bytes 8 (0 :: u64) @ auth_tag E k 0 (?ct k p) @ ?ct k p) ((cipher_new k)\<lparr>tx_seq := 1\<rparr>)" for k p
    by (simp add: encrypt_def Let_def cipher_new_def one)
  have dec: "decrypt E (be_bytes 8 (0 :: u64) @ auth_tag E k 0 (?ct k p) @ ?ct k p) (cipher_new k) =
      Ret (Inr p) ((cipher_new k)\<lparr>rx_seq := 1\<rparr>)" for k p
    using decrypt_frame [of "auth_tag E k 0 (?ct k p)" "cipher_new k" 0 E "?ct k p"] one
    by (simp add: cipher_new_def)
  have again: "decrypt E ((be_bytes 8 (0 :: u64) @ xs)[42 := x]) ((cipher_new k)\<lparr>rx_seq := 1\<rparr>) =
      Ret (Inl (ReplayDetected 1 0)) ((cipher_new k)\<lparr>rx_seq := 1\<rparr>)" if "32 \<le> length xs" for k xs x
    using that by (simp add: decrypt_def Let_def of_be_bytes_be_bytes)
  show ?thesis
    by (simp add: test_tunnel_cipher_encrypt_decrypt_and_tamper_detection_def Let_def enc dec again assert_that_def)
qed

theorem handshake_test_exact:
  "test_ephemeral_handshake_session_key_derivation E drawn1 drawn2 =
    (if derive_session_key E (kp_public (keypair_generate E drawn1)) (kp_public (keypair_generate E drawn2)) = 0
     then Failed else Passed)"
  by (simp add: test_ephemeral_handshake_session_key_derivation_def Let_def)

text \<open>
  The storage test of genesis and commit fails: Alice is a validator and has an account in
  the configuration, and the validator pass drops the balance configured for her.
\<close>
theorem genesis_test_fails:
  assumes "account_codec_laws C"
  shows "test_state_db_genesis_and_commit_block E C drawn1 drawn2 = Failed"
proof -
  let ?kp = "keypair_generate E drawn1"
  let ?a = "address_from_pubkey E (kp_public ?kp)"
  let ?g = "storage_genesis ?a (kp_public ?kp) (address_from_pubkey E (kp_public (keypair_generate E drawn2)))"
  obtain h db where h: "apply_genesis E C ?g memory_db = (Inr h, db)"
    using genesis_applied by blast
  have "get_account C memory_db a = account_default" for a
    by (simp add: get_account_def memory_db_def open_in_memory_def kv_get_def)
  then have "balance (get_account C db ?a) = 0"
    using get_account_genesis [OF om_ok_memory_db assms, of E ?g ?a] h
    by (simp add: genesis_writes_def storage_genesis_def genesis_validator_account_def account_default_def)
  then show ?thesis
    unfolding test_state_db_genesis_and_commit_block_def Let_def state_db_new_memory h prod.case unwrap.simps
      assert_that_def by simp
qed

text \<open>One entry of a tree and its proof: it verifies, and a different payload does not.\<close>

lemma merkle_entry:
  assumes "i < length ps" and "ps ! i \<noteq> bad"
    and "\<And>p u v. generate_proof (from_leaf_payloads E ps) i = Some (Some p) \<Longrightarrow>
      merkle_collision E p p (ps ! i) bad = Some (u, v) \<Longrightarrow> \<not> blake3_collision E u v"
  shows "\<exists>p. generate_proof (from_leaf_payloads E ps) i = Some (Some p) \<and>
    proof_verify E p (tree_root (from_leaf_payloads E ps)) (ps ! i) \<and>
    \<not> proof_verify E p (tree_root (from_leaf_payloads E ps)) bad"
proof -
  let ?tree = "from_leaf_payloads E ps" and ?ls = "map (hash_leaf E) ps" and ?x = "ps ! i"
  obtain p where p: "generate_proof ?tree i = Some (Some p)" "climb E (hash_leaf E ?x) (audit_path p) = tree_root ?tree"
    using generate_proof_climb [of i ?ls E] assms(1) by (auto simp: from_leaf_payloads_def)
  moreover have "\<not> proof_verify E p (tree_root ?tree) bad"
  proof
    assume "proof_verify E p (tree_root ?tree) bad"
    with p(2) have same: "climb E (hash_leaf E ?x) (audit_path p) = climb E (hash_leaf E bad) (audit_path p)"
      by (simp add: proof_verify_def)
    have "\<exists>u v. merkle_collision E p p ?x bad = Some (u, v) \<and> blake3_collision E u v"
    proof (cases "hash_leaf E ?x = hash_leaf E bad")
      case True
      then have "blake3_collision E (leaf_input ?x) (leaf_input bad)"
        using assms(2)
        by (simp add: blake3_collision_def leaf_input_inject hash_leaf_def hash_with_domain_def)
          (simp add: leaf_input_def)
      with True show ?thesis by (simp add: merkle_collision_def)
    next
      case False
      from clash_sound [OF False refl same] False show ?thesis by (simp add: merkle_collision_def)
    qed
    with assms(3) [OF p(1)] show False by blast
  qed
  ultimately show ?thesis by (auto simp: proof_verify_def)
qed

text \<open>
  The Merkle test passes for every hash function whose root of the five payloads is not the
  zero digest, unless one of its proofs verifies the tampered payload too and so yields a
  collision of BLAKE3.
\<close>
theorem merkle_test_exact:
  fixes ps bad defines "ps \<equiv> map str_bytes
      [''tx_001_transfer_alice_bob'', ''tx_002_stake_validator_1'', ''tx_003_transfer_carol_dave'',
       ''tx_004_register_validator_2'', ''tx_005_transfer_eve_frank'']"
    and "bad \<equiv> str_bytes ''tampered_payload_data''"
  assumes "tree_root (from_leaf_payloads E ps) \<noteq> HASH_ZERO"
    and "\<And>i p u v. i < 5 \<Longrightarrow> generate_proof (from_leaf_payloads E ps) i = Some (Some p) \<Longrightarrow>
      merkle_collision E p p (ps ! i) bad = Some (u, v) \<Longrightarrow> \<not> blake3_collision E u v"
  shows "test_merkle_tree_root_and_inclusion_proof E = Passed"
proof -
  let ?tree = "from_leaf_payloads E ps"
  have len: "length ps = 5" and diff: "ps ! i \<noteq> bad" if "i < 5" for i
    using that by (auto simp: ps_def bad_def less_Suc_eq numeral_eq_Suc)
  have "\<exists>p. generate_proof ?tree i = Some (Some p) \<and> proof_verify E p (tree_root ?tree) (ps ! i) \<and>
      \<not> proof_verify E p (tree_root ?tree) bad" if "i < 5" for i
    using that len [OF that] diff [OF that] assms(4) [OF that] by (intro merkle_entry) simp_all
  then have "each (\<lambda>(i, payload). expect (generate_proof ?tree i) (\<lambda>found. expect found (\<lambda>proof.
      assert_that (proof_verify E proof (tree_root ?tree) payload)
     (assert_that (\<not> proof_verify E proof (tree_root ?tree) bad) Passed)))) (enumerate 0 ps) Passed = Passed"
    unfolding each_passed using len [of 0] by (fastforce simp: in_set_enumerate_eq simp del: One_nat_def)
  with assms(3) show ?thesis
    unfolding test_merkle_tree_root_and_inclusion_proof_def Let_def ps_def [symmetric] bad_def [symmetric]
    by simp
qed

text \<open>
  The test of the sparse tree fails exactly when inserting one of its keys leaves the root as
  it was; that deleting a key restores the root never fails.
\<close>
theorem smt_test_exact:
  fixes E :: env and s1 s2 defines "s1 \<equiv> smt_update E (Hash (of_be_bytes (replicate 32 1))) (str_bytes ''balance:1000'') smt_new"
    and "s2 \<equiv> smt_update E (Hash (of_be_bytes (replicate 32 2))) (str_bytes ''balance:5000'') s1"
  shows "test_smt_deterministic_root_and_updates E =
    (if smt_root E s1 = smt_root E smt_new \<or> smt_root E s2 = smt_root E s1 then Failed else Passed)"
proof -
  have "hm_ok (smt_leaves smt_new)" by (simp add: smt_new_def hm_ok_def)
  then have ok: "hm_ok (smt_leaves s1)" unfolding s1_def by (rule smt_ok_update)
  have "smt_root E (smt_update E (Hash (of_be_bytes (replicate 32 2))) [] s2) = smt_root E s1"
    using ok ones_twos by (intro smt_root_cong)
      (auto simp: s2_def smt_ok_update smt_get_update s1_def smt_new_def hm_get_def fun_eq_iff)
  moreover have "smt_root E smt_new = empty_root E SMT_DEPTH" by (simp add: smt_root_def smt_new_def)
  ultimately show ?thesis
    unfolding test_smt_deterministic_root_and_updates_def Let_def s1_def [symmetric] s2_def [symmetric] assert_that_def
    by simp
qed

text \<open>The syncer's test passes, when the genesis block survives its encoding.\<close>

theorem sync_test_passes:
  fixes E :: env and drawn :: "256 word" and kp g defines "kp \<equiv> keypair_generate E drawn"
    and "g \<equiv> one_validator_genesis (address_from_pubkey E (kp_public kp)) (kp_public kp)"
  assumes "block_dec C (block_enc C (to_genesis_block E g)) = Some (to_genesis_block E g)"
  shows "test_sync_apply_blocks_in_sequence E C drawn = Passed"
proof -
  obtain h db where gen: "apply_genesis E C g memory_db = (Inr h, db)"
    and db: "db = write_all E C (genesis_writes C g memory_db) (to_genesis_block E g) 0 memory_db"
    using genesis_applied by blast
  have om: "om_ok (kv_map (db_kv db))" by (simp add: db om_ok_write_all)
  have reads: "get_latest_height db = 0" "get_block_by_height C db 0 = Some (to_genesis_block E g)"
    using assms(3) by (simp_all add: db get_latest_height_write_all get_block_by_height_write_all)
  have mem: "kv_path (db_kv db) = None"
    by (simp add: db write_all_def apply_batch_def memory_db_def open_in_memory_def)
  have one: "add_ck (prof E) (0 :: u64) 1 = Some 1" by (cases "prof E") (simp_all add: add_ck_def)
  have "\<exists>r. commit_block E C b ov db = (Inr r, write_all E C ov b (h_height (b_header b)) db)" for b ov
    by (rule commit_block_memory [OF mem])
  then obtain r where "\<And>b ov. commit_block E C b ov db = (Inr (r b ov), write_all E C ov b (h_height (b_header b)) db)"
    by metis
  then show ?thesis
    using gen reads one
    by (simp add: test_sync_apply_blocks_in_sequence_def Let_def state_db_new_memory kp_def [symmetric]
        g_def [symmetric] header_sign_def header_new_unsigned_def apply_block_batch_def sync_block_def
        validate_basic_def compute_merkle_root_def tree_root_def from_leaf_hashes_def get_latest_height_write_all [OF om])
qed

lemma tx_sign_own:
  assumes "tx_pubkey tx = kp_public kp" and "tx_sender tx = address_from_pubkey E (kp_public kp)"
  shows "tx_sign E kp tx = Inr (tx\<lparr>tx_signature := kp_sign E kp (tx_signing_bytes tx)\<rparr>)"
proof -
  have "tx\<lparr>tx_pubkey := kp_public kp\<rparr> = tx" by (simp add: assms(1) [symmetric])
  with assms(2) show ?thesis by (simp add: tx_sign_def Let_def)
qed

theorem hd_wallet_test_exact:
  assumes "bip39_laws B" and "\<And>k d. hmac512 E k d \<noteq> None"
    and "length (split_whitespace (new_phrase B 12 drawn)) = 12"
  shows "\<exists>seed kp0 kp1. seed_from_mnemonic B (new_phrase B 12 drawn) '''' = Some (Inr seed) \<and>
    derive_keypair E seed 0 0 0 = Inr kp0 \<and> derive_keypair E seed 0 0 1 = Inr kp1 \<and>
    test_hd_wallet_bip39_and_slip0010 E B drawn = (if kp_public kp0 = kp_public kp1 then Failed else Passed)"
proof -
  have phrase: "generate_mnemonic B drawn 12 = Inr (new_phrase B 12 drawn)" by (simp add: generate_mnemonic_def)
  obtain seed where seed: "seed_from_mnemonic B (new_phrase B 12 drawn) '''' = Some (Inr seed)"
    using mnemonic_seed [OF assms(1) phrase] by blast
  obtain kp0 kp1 where "derive_keypair E seed 0 0 0 = Inr kp0" "derive_keypair E seed 0 0 1 = Inr kp1"
    using derive_keypair_total [OF assms(2)] by metis
  with phrase seed assms(3) show ?thesis
    by (auto simp: test_hd_wallet_bip39_and_slip0010_def assert_that_def dest: pk_arr.to_bytes_inject)
qed

text \<open>
  The three tests that tamper with something signed fail exactly when the signature of the
  original verifies for what it was changed into (for a block: and the hashes collide too).
\<close>
theorem transaction_test_exact:
  fixes E :: env and drawn1 drawn2 :: "256 word" and tx
  defines "tx \<equiv> tx_new_unsigned (address_from_pubkey E (kp_public (keypair_generate E drawn1)))
      (address_from_pubkey E (kp_public (keypair_generate E drawn2))) 500000000 1000 1 Transfer []
      (kp_public (keypair_generate E drawn1))"
  assumes "ed25519_laws E"
  shows "test_transaction_signing_and_verification E drawn1 drawn2 =
    (if verify_strict E (ed_public E drawn1) (tx_signing_bytes (tx\<lparr>tx_amount := 999999999\<rparr>))
        (ed_sign E drawn1 (tx_signing_bytes tx)) then Failed else Passed)"
proof -
  let ?kp = "keypair_generate E drawn1"
  let ?t = "tx\<lparr>tx_signature := kp_sign E ?kp (tx_signing_bytes tx)\<rparr>"
  have key: "tx_pubkey tx = kp_public ?kp" "tx_sender tx = address_from_pubkey E (kp_public ?kp)"
    "kp_public ?kp = PublicKey (ed_public E drawn1)" "vk_error E (ed_public E drawn1) = None"
    using assms(2) by (simp_all add: tx_def tx_new_unsigned_def keypair_generate_def ed25519_laws_def)
  then have "tx_sign E ?kp tx = Inr ?t" using tx_sign_own [of tx ?kp E] by simp
  moreover have "tx_verify E ?t = Inr ()" using key(1,2) assms(2) by (simp add: tx_verify_def)
  moreover have "tx_verify E (?t\<lparr>tx_amount := 999999999\<rparr>) = Inr () \<longleftrightarrow>
      verify_strict E (ed_public E drawn1) (tx_signing_bytes (tx\<lparr>tx_amount := 999999999\<rparr>))
        (ed_sign E drawn1 (tx_signing_bytes tx))"
    using key by (simp add: tx_verify_Inr kp_sign_def keypair_generate_def tx_signing_bytes_def)
  ultimately show ?thesis
    unfolding test_transaction_signing_and_verification_def Let_def tx_def [symmetric] by (simp add: assert_that_def)
qed

theorem voucher_test_exact:
  assumes "ed25519_laws E"
  shows "test_bandwidth_voucher_signing_and_verification E drawn =
    (let v = voucher_new_signed E 1001 52428800 50000 (keypair_generate E drawn)
     in if verify_strict E (ed_public E drawn) (hash_bytes_of (voucher_hash E (v\<lparr>bv_aur_amount := 1\<rparr>)))
          (ed_sign E drawn (hash_bytes_of (voucher_hash E v))) then Failed else Passed)"
proof -
  have "vk_error E (ed_public E drawn) = None" using assms by (simp add: ed25519_laws_def)
  then have "voucher_verify E (voucher_new_signed E 1001 52428800 50000 (keypair_generate E drawn))"
    using assms by (simp add: voucher_verify_def voucher_new_signed_def voucher_hash_def Let_def)
  then show ?thesis
    using \<open>vk_error E (ed_public E drawn) = None\<close>
    by (simp add: test_bandwidth_voucher_signing_and_verification_def Let_def assert_that_def)
      (simp add: voucher_verify_def voucher_new_signed_def voucher_hash_def Let_def pk_verify_def kp_sign_def
        keypair_generate_def)
qed

theorem block_test_exact:
  fixes E :: env and drawn1 drawn2 :: "256 word" and tx
  defines "tx \<equiv> tx_new_unsigned (address_from_pubkey E (kp_public (keypair_generate E drawn2)))
      (address_from_pubkey E (kp_public (keypair_generate E drawn1))) 100 10 1 Transfer []
      (kp_public (keypair_generate E drawn2))"
  assumes "ed25519_laws E"
    and "\<not> blake3_collision E (tx_input (tx\<lparr>tx_signature := s\<rparr>)) (tx_input (tx\<lparr>tx_signature := s, tx_amount := 50000\<rparr>))"
    and "s = kp_sign E (keypair_generate E drawn2) (tx_signing_bytes tx)"
  shows "test_tamper_detection_in_block E drawn1 drawn2 = Passed"
proof -
  let ?kp = "keypair_generate E drawn2"
  let ?t = "tx\<lparr>tx_signature := s\<rparr>" and ?u = "tx\<lparr>tx_signature := s, tx_amount := 50000\<rparr>"
  have key: "tx_pubkey tx = kp_public ?kp" "tx_sender tx = address_from_pubkey E (kp_public ?kp)"
    "tx_payload tx = []" "tx_amount tx = 100"
    by (simp_all add: tx_def tx_new_unsigned_def)
  have sign: "tx_sign E ?kp tx = Inr ?t" using tx_sign_own [OF key(1,2)] assms(4) by simp
  have verify: "tx_verify E ?t = Inr ()" using key assms(2,4) by (simp add: tx_verify_def)
  have "?t \<noteq> ?u"
  proof
    assume "?t = ?u"
    then have "tx_amount ?t = tx_amount ?u" by (rule arg_cong)
    then show False using key(4) by simp
  qed
  then have "tx_hash E ?t \<noteq> tx_hash E ?u"
    using assms(3) tx_input_inject [of ?t ?u] key(3) by (simp add: tx_hash_input blake3_collision_def)
  then show ?thesis
    using sign verify
    unfolding test_tamper_detection_in_block_def Let_def tx_def [symmetric]
    by (simp add: assert_that_def header_sign_def header_new_unsigned_def validate_basic_def compute_merkle_root_def
        tree_root_from_leaf_hashes build_levels.simps Let_def)
qed

text \<open>The server's test passes when the framework reads its request.\<close>

theorem rpc_test_passes:
  assumes "read_request (js_text J (js_object J [(''jsonrpc'', js_str J ''2.0''), (''id'', js_uint J 1),
      (''method'', js_str J ''getNodeInfo''), (''params'', js_object J [])])) = Some req"
    and "rq_method req = ''getNodeInfo''"
  shows "test_rpc_get_block_height_and_node_info E C J read_request drawn = Passed"
proof -
  let ?kp = "keypair_generate E drawn"
  obtain h db where "apply_genesis E C (one_validator_genesis (address_from_pubkey E (kp_public ?kp)) (kp_public ?kp))
      memory_db = (Inr h, db)"
    using genesis_applied by blast
  then show ?thesis
    using assms
    by (simp add: test_rpc_get_block_height_and_node_info_def Let_def state_db_new_memory route_def handle_rpc_def
        rpc_node_info_def)
qed

text \<open>The metrics test passes with every encoder that writes gauges the documented way.\<close>

theorem metrics_test_passes:
  assumes "text_encoder_laws encode"
  shows "test_metrics_collection encode = Passed"
proof -
  have "show_gauge 42 = ''42''" "show_gauge 10 = ''10''"
    by (simp_all add: show_gauge_def show_nat.simps char_of_eq_iff)
  with gauges_on_page [OF assms, of "processed_inc_by 5 (metrics_new\<lparr>BLOCK_HEIGHT := Some 42, MEMPOOL_TXS := Some 10\<rparr>)"]
  show ?thesis by (auto simp: test_metrics_collection_def Let_def processed_inc_by_def passed_iff)
qed

end
