(* ===== verification/Engine_Tests.thy ===== *)
theory Engine_Tests
  imports Unit_Tests Payment
begin

text \<open>
  The unit tests of \<open>aura-mempool\<close> and \<open>aura-consensus\<close>, over the definitions of the pool and the
  engine, and what they come to: which of them pass depends on the locks.
\<close>

section \<open>\<open>aura-mempool\<close>\<close>

definition setup_test_state :: "env \<Rightarrow> codec \<Rightarrow> 256 word \<Rightarrow> 256 word \<Rightarrow> (state_db \<times> key_pair \<times> key_pair) option" where
  "setup_test_state E C drawn1 drawn2 =
     (let alice_kp = keypair_generate E drawn1;
          bob_kp = keypair_generate E drawn2;
          genesis = \<lparr>g_chain_id = ''aura-testnet'', g_timestamp = 1700000000,
            g_accounts = [\<lparr>ga_address = address_from_pubkey E (kp_public alice_kp), ga_balance = 10000000\<rparr>,
              \<lparr>ga_address = address_from_pubkey E (kp_public bob_kp), ga_balance = 5000000\<rparr>],
            g_validators = [], g_initial_state_root = HASH_ZERO\<rparr>
      in case apply_genesis E C genesis (state_db_new E open_in_memory) of
           (Inl _, _) \<Rightarrow> None
         | (Inr _, db) \<Rightarrow> Some (db, alice_kp, bob_kp))"

text \<open>The transfers the tests sign: amount, fee and nonce vary.\<close>

definition test_transfer :: "env \<Rightarrow> key_pair \<Rightarrow> address \<Rightarrow> u64 \<Rightarrow> u64 \<Rightarrow> u64 \<Rightarrow> primitive_error + transaction" where
  "test_transfer E kp recipient amount fee n =
     tx_sign E kp (tx_new_unsigned (address_from_pubkey E (kp_public kp)) recipient amount fee n Transfer []
       (kp_public kp))"

definition test_mempool_add_and_harvest_by_priority :: "env \<Rightarrow> codec \<Rightarrow> 256 word \<Rightarrow> 256 word \<Rightarrow> verdict" where
  "test_mempool_add_and_harvest_by_priority E C drawn1 drawn2 =
     expect (setup_test_state E C drawn1 drawn2) (\<lambda>(db, alice_kp, bob_kp).
     let alice_addr = address_from_pubkey E (kp_public alice_kp);
         bob_addr = address_from_pubkey E (kp_public bob_kp);
         mempool = mempool_new mempool_config_default
     in unwrap (test_transfer E alice_kp bob_addr 1000 100 1) (\<lambda>tx1.
        unwrap (test_transfer E bob_kp alice_addr 2000 10000 1) (\<lambda>tx2.
        after (add_transaction E C db tx1 mempool) (\<lambda>r mempool. unwrap r (\<lambda>_.
        after (add_transaction E C db tx2 mempool) (\<lambda>r mempool. unwrap r (\<lambda>_.
        assert_that (mempool_len mempool = 2)
       (let harvested = harvest (1024 * 1024) mempool
        in assert_that (length harvested = 2)
          (assert_that (tx_hash E (harvested ! 0) = tx_hash E tx2) Passed)))))))))"

definition test_mempool_rbf_fee_bump :: "env \<Rightarrow> codec \<Rightarrow> 256 word \<Rightarrow> 256 word \<Rightarrow> verdict" where
  "test_mempool_rbf_fee_bump E C drawn1 drawn2 =
     expect (setup_test_state E C drawn1 drawn2) (\<lambda>(db, alice_kp, bob_kp).
     let bob_addr = address_from_pubkey E (kp_public bob_kp);
         mempool = mempool_new mempool_config_default
     in unwrap (test_transfer E alice_kp bob_addr 1000 1000 1) (\<lambda>tx_orig.
        after (add_transaction E C db tx_orig mempool) (\<lambda>r mempool. unwrap r (\<lambda>_.
        unwrap (test_transfer E alice_kp bob_addr 1000 1050 1) (\<lambda>tx_insufficient.
        after (add_transaction E C db tx_insufficient mempool) (\<lambda>r mempool.
        assert_that (case r of Inl (InsufficientRbfBump _) \<Rightarrow> True | _ \<Rightarrow> False)
       (unwrap (test_transfer E alice_kp bob_addr 1000 1200 1) (\<lambda>tx_valid_rbf.
        after (add_transaction E C db tx_valid_rbf mempool) (\<lambda>r mempool.
        assert_that (accepted r) (assert_that (mempool_len mempool = 1) Passed))))))))))"

section \<open>\<open>aura-consensus\<close>\<close>

text \<open>The loop of the election test counts the heights whose proposer is \<open>v2\<close>.\<close>

fun count_elections :: "env \<Rightarrow> validator_info list \<Rightarrow> address \<Rightarrow> u64 list \<Rightarrow> nat \<Rightarrow> (nat \<Rightarrow> verdict) \<Rightarrow> verdict" where
  "count_elections E validators v2_addr [] v2_count k = k v2_count"
| "count_elections E validators v2_addr (h # hs) v2_count k =
     expect (select_proposer E h 0 validators) (\<lambda>found. expect found (\<lambda>p.
       count_elections E validators v2_addr hs (if vi_address p = v2_addr then v2_count + 1 else v2_count) k))"

definition test_proposer_election_deterministic_and_weighted :: "env \<Rightarrow> 256 word \<Rightarrow> 256 word \<Rightarrow> verdict" where
  "test_proposer_election_deterministic_and_weighted E drawn1 drawn2 =
     (let v1_kp = keypair_generate E drawn1;
          v2_kp = keypair_generate E drawn2;
          v2_addr = address_from_pubkey E (kp_public v2_kp);
          validators =
            [\<lparr>vi_address = address_from_pubkey E (kp_public v1_kp), vi_pubkey = kp_public v1_kp, vi_power = 100\<rparr>,
             \<lparr>vi_address = v2_addr, vi_pubkey = kp_public v2_kp, vi_power = 900\<rparr>]
      in expect (select_proposer E 1 0 validators) (\<lambda>found. expect found (\<lambda>p1.
         expect (select_proposer E 1 0 validators) (\<lambda>again. expect again (\<lambda>p1_again.
         assert_that (vi_address p1 = vi_address p1_again)
        (count_elections E validators v2_addr (map word_of_nat [1..<101]) 0 (\<lambda>v2_count.
         assert_that (60 < v2_count) Passed)))))))"

definition test_double_sign_evidence_verification_and_slashing :: "env \<Rightarrow> codec \<Rightarrow> 256 word \<Rightarrow> verdict" where
  "test_double_sign_evidence_verification_and_slashing E C drawn =
     (let val_kp = keypair_generate E drawn;
          val_addr = address_from_pubkey E (kp_public val_kp);
          block_hash_1 = Hash (of_be_bytes (replicate 32 1));
          block_hash_2 = Hash (of_be_bytes (replicate 32 2));
          ev = \<lparr>vote_a = vote_new_signed E block_hash_1 5 0 PreVoteType val_kp,
            vote_b = vote_new_signed E block_hash_2 5 0 PreVoteType val_kp\<rparr>
      in unwrap (evidence_verify E ev) (\<lambda>culprit.
         assert_that (culprit = val_addr)
        (let (applied, db) = apply_genesis E C (one_validator_genesis val_addr (kp_public val_kp))
               (state_db_new E open_in_memory)
         in unwrap applied (\<lambda>_.
            let (slashed, overlay) = apply_slashing E C db ev []
            in unwrap slashed (\<lambda>_.
               let slashed_acc = overlay_get C overlay db val_addr
               in assert_that (staked_amount slashed_acc = 800000)
                 (assert_that (\<not> is_validator slashed_acc) Passed))))))"

definition test_consensus_engine_proposal_and_commit_cycle ::
  "env \<Rightarrow> codec \<Rightarrow> u64 option \<Rightarrow> 256 word \<Rightarrow> verdict" where
  "test_consensus_engine_proposal_and_commit_cycle E C clock drawn =
     (let val_kp = keypair_generate E drawn;
          val_addr = address_from_pubkey E (kp_public val_kp);
          (applied, db) = apply_genesis E C (one_validator_genesis val_addr (kp_public val_kp))
            (state_db_new E open_in_memory)
      in unwrap applied (\<lambda>_.
         expect (engine_new E val_kp db (mempool_new mempool_config_default) ''aura-testnet'') (\<lambda>en.
         after (create_proposal E C clock en) (\<lambda>r en. unwrap r (\<lambda>proposal.
         assert_that (h_height (b_header proposal) = 1)
        (after (handle_proposal E C proposal en) (\<lambda>r en. unwrap r (\<lambda>prevote.
         assert_that (v_type prevote = PreVoteType)
        (after (handle_prevote E C prevote en) (\<lambda>r en. expect r (\<lambda>precommit.
         after (handle_precommit E C [] precommit en) (\<lambda>r en. expect r (\<lambda>qc.
         assert_that (is_valid_quorum qc)
        (assert_that (get_latest_height (en_db en) = 1) Passed))))))))))))))"

section \<open>What the mempool's tests come to\<close>

definition own_transfer :: "env \<Rightarrow> key_pair \<Rightarrow> address \<Rightarrow> u64 \<Rightarrow> u64 \<Rightarrow> u64 \<Rightarrow> transaction" where
  "own_transfer E kp recipient amount fee n =
     (let tx = tx_new_unsigned (address_from_pubkey E (kp_public kp)) recipient amount fee n Transfer [] (kp_public kp)
      in tx\<lparr>tx_signature := kp_sign E kp (tx_signing_bytes tx)\<rparr>)"

lemma own_transfer_simps [simp]:
  "tx_sender (own_transfer E kp r a f n) = address_from_pubkey E (kp_public kp)"
  "tx_recipient (own_transfer E kp r a f n) = r" "tx_amount (own_transfer E kp r a f n) = a"
  "tx_fee (own_transfer E kp r a f n) = f" "tx_nonce (own_transfer E kp r a f n) = n"
  "tx_type (own_transfer E kp r a f n) = Transfer" "tx_payload (own_transfer E kp r a f n) = []"
  "tx_pubkey (own_transfer E kp r a f n) = kp_public kp" "size_bytes (own_transfer E kp r a f n) = 165"
  by (simp_all add: own_transfer_def Let_def tx_new_unsigned_def size_bytes_def)

lemma test_transfer_signs: "test_transfer E kp r a f n = Inr (own_transfer E kp r a f n)"
proof -
  let ?tx = "tx_new_unsigned (address_from_pubkey E (kp_public kp)) r a f n Transfer [] (kp_public kp)"
  have "tx_pubkey ?tx = kp_public kp" "tx_sender ?tx = address_from_pubkey E (kp_public kp)"
    by (simp_all add: tx_new_unsigned_def)
  from tx_sign_own [OF this] show ?thesis by (simp add: test_transfer_def own_transfer_def Let_def)
qed

lemma own_transfer_verifies:
  assumes "ed25519_laws E" and "kp_ok E kp"
  shows "tx_verify E (own_transfer E kp r a f n) = Inr ()"
proof -
  let ?tx = "tx_new_unsigned (address_from_pubkey E (kp_public kp)) r a f n Transfer [] (kp_public kp)"
  have "tx_pubkey ?tx = kp_public kp" "tx_sender ?tx = address_from_pubkey E (kp_public kp)"
    by (simp_all add: tx_new_unsigned_def)
  then show ?thesis using pk_verify_kp_sign [OF assms] by (simp add: tx_verify_def own_transfer_def Let_def)
qed

lemma own_transfer_neq: "f \<noteq> f' \<Longrightarrow> own_transfer E kp r a f n \<noteq> own_transfer E kp' r' a' f' n'"
  by (metis own_transfer_simps(4))

lemma own_transfer_stateless:
  assumes "ed25519_laws E" and "kp_ok E kp" and "100 \<le> f" and "a \<noteq> 0"
  shows "validate_stateless E (own_transfer E kp r a f n) = Inr ()"
  using own_transfer_verifies [OF assms(1,2)] assms(3,4)
  by (simp add: validate_stateless_def Let_def MAX_TRANSACTION_SIZE_def MIN_TRANSACTION_FEE_def)

lemma own_transfer_stateful:
  assumes "acc = account_new b 0" and "b \<noteq> - 1" and "unat a + unat f \<le> unat b"
  shows "validate_stateful E (own_transfer E kp r a f 1) acc = Some (Inr ())"
  using validate_stateful_accepts [of acc E "own_transfer E kp r a f 1"] sat_add_le_iff [OF assms(2), of a f] assms(1,3)
  by (simp add: account_new_def)

text \<open>
  The database the tests start from: each of the two holds what the genesis gives it, the
  second one's balance if the two have one address.
\<close>

lemma test_state:
  assumes "account_codec_laws C"
  obtains db where "setup_test_state E C drawn1 drawn2 = Some (db, keypair_generate E drawn1, keypair_generate E drawn2)"
    and "get_account C db (address_from_pubkey E (kp_public (keypair_generate E drawn2))) = account_new 5000000 0"
    and "get_account C db (address_from_pubkey E (kp_public (keypair_generate E drawn1))) \<in>
      {account_new 5000000 0, account_new 10000000 0}"
proof -
  let ?alice = "address_from_pubkey E (kp_public (keypair_generate E drawn1))"
  let ?bob = "address_from_pubkey E (kp_public (keypair_generate E drawn2))"
  let ?g = "\<lparr>g_chain_id = ''aura-testnet'', g_timestamp = 1700000000,
      g_accounts = [\<lparr>ga_address = ?alice, ga_balance = 10000000\<rparr>, \<lparr>ga_address = ?bob, ga_balance = 5000000\<rparr>],
      g_validators = [], g_initial_state_root = HASH_ZERO\<rparr>"
  obtain h db where gen: "apply_genesis E C ?g memory_db = (Inr h, db)" using genesis_applied by blast
  have "get_account C db a = (case map_of [(?bob, account_new 5000000 0), (?alice, account_new 10000000 0)] a of
      Some acc \<Rightarrow> acc | None \<Rightarrow> get_account C memory_db a)" for a
    using get_account_genesis [OF om_ok_memory_db assms, of E ?g a] gen by (simp add: genesis_writes_def)
  then show ?thesis
    using gen by (intro that [of db]) (simp_all add: setup_test_state_def Let_def state_db_new_memory)
qed

text \<open>
  The harvest test passes for two senders with addresses of their own, whatever the locks:
  the higher fee comes first.
\<close>
theorem harvest_test_passes:
  fixes E :: env and drawn1 drawn2 :: "256 word"
  defines "alice \<equiv> keypair_generate E drawn1" and "bob \<equiv> keypair_generate E drawn2"
  defines "a \<equiv> address_from_pubkey E (kp_public alice)" and "b \<equiv> address_from_pubkey E (kp_public bob)"
  assumes "ed25519_laws E" and "account_codec_laws C" and "a \<noteq> b"
    and "\<not> blake3_collision E (tx_input (own_transfer E alice b 1000 100 1)) (tx_input (own_transfer E bob a 2000 10000 1))"
  shows "test_mempool_add_and_harvest_by_priority E C drawn1 drawn2 = Passed"
proof -
  obtain db where db: "setup_test_state E C drawn1 drawn2 = Some (db, alice, bob)"
    "get_account C db b = account_new 5000000 0"
    "get_account C db a \<in> {account_new 5000000 0, account_new 10000000 0}"
    using test_state [OF assms(6), of E drawn1 drawn2] unfolding a_def b_def alice_def bob_def by blast
  let ?t = "own_transfer E alice b 1000 100 1" and ?u = "own_transfer E bob a 2000 10000 1"
  have kp: "kp_ok E alice" "kp_ok E bob" by (simp_all add: alice_def bob_def)
  note senders = a_def [symmetric] b_def [symmetric]
  have valid: "validate_stateless E ?t = Inr ()" "validate_stateless E ?u = Inr ()"
    using own_transfer_stateless [OF assms(5)] kp by simp_all
  have paid: "validate_stateful E ?t (get_account C db (tx_sender ?t)) = Some (Inr ())"
    "validate_stateful E ?u (get_account C db (tx_sender ?u)) = Some (Inr ())"
    using db(2,3) by (auto simp: senders intro!: own_transfer_stateful)
  obtain mp1 where t1: "add_transaction E C db ?t new_pool = Ret (Inr (tx_hash E ?t)) mp1"
    using add_succeeds [OF valid(1) paid(1)] new_pool_facts by blast
  note one = one_pooled [OF t1]
  have apart: "tx_sender ?t \<noteq> tx_sender ?u \<or> tx_nonce ?t \<noteq> tx_nonce ?u" using assms(7) by (simp add: senders)
  have "sender_lookup mp1 (tx_sender ?u) (tx_nonce ?u) = None"
    by (rule no_nonce [OF one(3)]) (use one(4) apart in auto)
  moreover have "\<not> over_capacity (size_bytes ?u) mp1" by (rule roomy [OF one(3,8)]) (use one(6,7) in simp_all)
  moreover have "tx_hash E ?t \<noteq> tx_hash E ?u"
    using assms(8) tx_input_inject [of ?t ?u] own_transfer_neq [of 100 10000]
    by (simp add: tx_hash_input blake3_collision_def)
  then have "hm_get (by_hash mp1) (tx_hash E ?u) = None"
    using one(4) mp_inv_get [OF one(3)] by (cases "hm_get (by_hash mp1) (tx_hash E ?u)") auto
  ultimately obtain mp where u1: "add_transaction E C db ?u mp1 = Ret (Inr (tx_hash E ?u)) mp"
    using add_goes_through [OF valid(2) paid(2)] by blast
  note two = two_pooled [OF t1 u1 apart]
  have dense: "fee_per_byte ?t < fee_per_byte ?u" by (simp add: fee_per_byte_def Let_def)
  have "harvest (1024 * 1024) mp \<noteq> [?t, ?u]"
    using harvest_sorted [OF two(4), of "1024 * 1024"] dense
    by (auto simp: entry_key_def less_priority_key_def priority_key_of_def)
  with two(3) have "harvest (1024 * 1024) mp = [?u, ?t]" by blast
  then show ?thesis
    using t1 u1 two(5) db(1)
    by (simp add: test_mempool_add_and_harvest_by_priority_def test_transfer_signs senders mempool_len_def)
qed

text \<open>A pool of one transaction, offered a second one of the same sender and nonce.\<close>

lemma replacement:
  assumes one: "add_transaction E C db t new_pool = Ret (Inr h) mp"
    and same: "mp' = mp \<or> mp' = touch_sender s mp" "tx_sender u = tx_sender t" "tx_nonce u = tx_nonce t"
    and fees: "tx_fee t = 1000" "tx_hash E u \<noteq> tx_hash E t"
    and ok: "validate_stateless E u = Inr ()" "validate_stateful E u (get_account C db (tx_sender u)) = Some (Inr ())"
  shows "tx_fee u < 1100 \<Longrightarrow> add_transaction E C db u mp' = Ret (Inl (InsufficientRbfBump 10)) (touch_sender (tx_sender u) mp')"
    and "1100 \<le> tx_fee u \<Longrightarrow> \<not> locks E [ReadGuard] WriteGuard \<Longrightarrow> \<exists>q. add_transaction E C db u mp' = Blocked q"
    and "1100 \<le> tx_fee u \<Longrightarrow> locks E [ReadGuard] WriteGuard \<Longrightarrow>
      \<exists>q. add_transaction E C db u mp' = Ret (Inr (tx_hash E u)) q \<and> mempool_len q = 1"
proof -
  note one = one_pooled [OF one]
  have inv: "mp_inv E mp'" and pool: "set (by_hash mp') = {(tx_hash E t, t)}" "length (by_hash mp') = 1"
    and cfg: "mp_config mp' = mempool_config_default"
    using same(1) one(1,3,4,7,8) mp_inv_touch [OF one(3)] by auto
  then have entry: "by_hash mp' = [(tx_hash E t, t)]" by (cases "by_hash mp'") auto
  have look: "sender_lookup mp' (tx_sender u) (tx_nonce u) = Some t"
    using mp_invD(6) [OF inv] pool(1) same(2,3) by simp
  then obtain m where m: "hm_get (by_sender mp') (tx_sender u) = Some m" "om_get m (tx_nonce u) = Some t"
    by (auto simp: sender_lookup_def split: option.splits)
  have percent: "mul_ck (prof E) (1000 :: u64) (ucast (10 :: u32)) = Some 10000"
    "add_ck (prof E) (1000 :: u64) (10000 div 100) = Some 1100"
    by (cases "prof E"; simp add: mul_ck_def add_ck_def)+
  have rbf: "tx_fee u < 1100 \<Longrightarrow> rbf_check E u mp' = Ret (Inl (InsufficientRbfBump 10)) (touch_sender (tx_sender u) mp')"
    "1100 \<le> tx_fee u \<Longrightarrow> \<not> locks E [ReadGuard] WriteGuard \<Longrightarrow> \<exists>q. rbf_check E u mp' = Blocked q"
    "1100 \<le> tx_fee u \<Longrightarrow> locks E [ReadGuard] WriteGuard \<Longrightarrow> \<exists>q. rbf_check E u mp' = Ret (Inr ()) q"
    using percent m(1) by (simp_all add: rbf_check_def Let_def m cfg mempool_config_default_def fees(1) release_bytes_def
      touch_sender_def)
  have fresh: "hm_get (by_hash mp') (tx_hash E u) = None" using fees(2) by (simp add: entry hm_get_def)
  note add = add_transaction_def [of E C db u mp'] ok fresh
  show "add_transaction E C db u mp' = Ret (Inl (InsufficientRbfBump 10)) (touch_sender (tx_sender u) mp')"
    if "tx_fee u < 1100" using rbf(1) [OF that] by (simp add: add Let_def)
  show "\<exists>q. add_transaction E C db u mp' = Blocked q" if "1100 \<le> tx_fee u" "\<not> locks E [ReadGuard] WriteGuard"
    using rbf(2) [OF that] by (auto simp: add Let_def)
  show "\<exists>q. add_transaction E C db u mp' = Ret (Inr (tx_hash E u)) q \<and> mempool_len q = 1"
    if free: "1100 \<le> tx_fee u" "locks E [ReadGuard] WriteGuard"
  proof -
    obtain q where q: "rbf_check E u mp' = Ret (Inr ()) q" using rbf(3) [OF free] by blast
    note kept = rbf_check_keeps [OF inv q]
    have "sender_lookup q (tx_sender u) (tx_nonce u) = None" by (rule kept(6)) (rule refl)
    then have "(tx_hash E t, t) \<notin> set (by_hash q)"
      using mp_invD(6) [OF kept(1), of "tx_sender u" "tx_nonce u" t] same(2,3) by simp
    moreover have "set (by_hash q) \<subseteq> {(tx_hash E t, t)}" using kept(4) pool(1) by simp
    ultimately have "set (by_hash q) = {}" by (metis subset_singletonD singletonI)
    then have none: "by_hash q = []" by (simp only: set_empty)
    have "\<not> over_capacity (size_bytes u) q"
      using stateless_size [OF ok(1)] kept(1,2) cfg none by (intro roomy) (simp_all add: pool_size_def)
    then have "make_room E u (size_bytes u) q = Ret (Inr ()) q"
      by (simp add: make_room_def make_room_loop.simps over_capacity_def)
    then show ?thesis using q none by (simp add: add Let_def mempool_len_def hm_insert_def)
  qed
qed

text \<open>
  The replacement test passes only with locks that grant a writer what its own thread reads:
  with those the crate documents it hangs, on releasing the bytes of the replaced transaction.
\<close>
theorem rbf_test_hangs:
  fixes E :: env and drawn1 drawn2 :: "256 word"
  defines "t \<equiv> own_transfer E (keypair_generate E drawn1)
      (address_from_pubkey E (kp_public (keypair_generate E drawn2))) 1000"
  assumes "ed25519_laws E" and "account_codec_laws C"
    and "\<not> blake3_collision E (tx_input (t 1000 1)) (tx_input (t 1050 1))"
    and "\<not> blake3_collision E (tx_input (t 1000 1)) (tx_input (t 1200 1))"
  shows "test_mempool_rbf_fee_bump E C drawn1 drawn2 = (if locks E [ReadGuard] WriteGuard then Passed else Hangs)"
proof -
  let ?alice = "keypair_generate E drawn1"
  let ?a = "address_from_pubkey E (kp_public ?alice)"
  obtain db where db: "setup_test_state E C drawn1 drawn2 = Some (db, ?alice, keypair_generate E drawn2)"
    "get_account C db ?a \<in> {account_new 5000000 0, account_new 10000000 0}"
    using test_state [OF assms(3), of E drawn1 drawn2] by blast
  have valid: "validate_stateless E (t f 1) = Inr ()" if "100 \<le> f" for f
    unfolding t_def using own_transfer_stateless [OF assms(2) kp_ok_generate that, of 1000] by simp
  have paid: "validate_stateful E (t f 1) (get_account C db (tx_sender (t f 1))) = Some (Inr ())" if "f \<le> 2000" for f
    using db(2) that by (auto simp: t_def word_le_nat_alt intro!: own_transfer_stateful)
  obtain mp where first: "add_transaction E C db (t 1000 1) new_pool = Ret (Inr (tx_hash E (t 1000 1))) mp"
    using add_succeeds [OF valid [of 1000] paid [of 1000] new_pool_facts(1,2,4)] by auto
  have apart: "tx_hash E (t 1050 1) \<noteq> tx_hash E (t 1000 1)" "tx_hash E (t 1200 1) \<noteq> tx_hash E (t 1000 1)"
    using assms(4,5) tx_input_inject [of "t 1000 1"] own_transfer_neq [of 1000]
    by (auto simp: t_def tx_hash_input blake3_collision_def)
  have sender: "tx_sender (t f 1) = ?a" "tx_nonce (t f 1) = 1" "tx_fee (t f 1) = f" for f by (simp_all add: t_def)
  have low: "add_transaction E C db (t 1050 1) mp = Ret (Inl (InsufficientRbfBump 10)) (touch_sender ?a mp)"
    using replacement(1) [where mp' = mp and u = "t 1050 1", OF first] apart(1) valid [of 1050] paid [of 1050] by (simp add: sender)
  note high = replacement(2,3) [where mp' = "touch_sender ?a mp" and s = ?a and u = "t 1200 1", OF first]
  have test: "test_mempool_rbf_fee_bump E C drawn1 drawn2 =
      after (add_transaction E C db (t 1200 1) (touch_sender ?a mp)) (\<lambda>r mempool.
        assert_that (accepted r) (assert_that (mempool_len mempool = 1) Passed))"
    using db(1) first low by (simp add: test_mempool_rbf_fee_bump_def test_transfer_signs Let_def t_def)
  show ?thesis
  proof (cases "locks E [ReadGuard] WriteGuard")
    case True
    then show ?thesis using high(2) apart(2) valid [of 1200] paid [of 1200] by (auto simp: test sender)
  next
    case False
    then show ?thesis using high(1) apart(2) valid [of 1200] paid [of 1200] by (auto simp: test sender)
  qed
qed

section \<open>What the engine's tests come to\<close>

lemma two_stakes:
  assumes "vi_power v1 = 100" and "vi_power v2 = 900"
  shows "select_proposer E h 0 [v1, v2] =
    Some (Some (if 100 \<le> unat (proposer_seed E h 0) mod 1000 then v2 else v1))"
proof -
  have stake: "total_stake [v1, v2] = 1000" by (simp add: total_stake_def assms)
  have "(1000 :: nat) < 2 ^ 64" "(0 :: nat) < 1000" by simp_all
  from select_proposer_exists [of "[v1, v2]" E h 0, unfolded stake, OF this] obtain i where
    i: "i < length [v1, v2]" "select_proposer E h 0 [v1, v2] = Some (Some ([v1, v2] ! i))"
      "total_stake (take i [v1, v2]) \<le> unat (proposer_seed E h 0) mod 1000"
      "unat (proposer_seed E h 0) mod 1000 < total_stake (take i [v1, v2]) + unat (vi_power ([v1, v2] ! i))"
    by blast
  have "i = 0 \<or> i = 1" using i(1) by auto
  then show ?thesis by (elim disjE) (use i(2-4) assms in \<open>simp_all add: total_stake_def\<close>)
qed

text \<open>
  The election test: with two addresses, its outcome depends on the hash function alone; it
  counts the heights whose seed falls into the heavier validator's part of the stake line.
\<close>
theorem election_test_exact:
  fixes E :: env and drawn1 drawn2 :: "256 word"
  assumes "address_from_pubkey E (kp_public (keypair_generate E drawn1)) \<noteq>
      address_from_pubkey E (kp_public (keypair_generate E drawn2))"
  shows "test_proposer_election_deterministic_and_weighted E drawn1 drawn2 =
    (if 60 < length (filter (\<lambda>h. 100 \<le> unat (proposer_seed E (word_of_nat h) 0) mod 1000) [1..<101])
     then Passed else Failed)"
proof -
  let ?v1 = "\<lparr>vi_address = address_from_pubkey E (kp_public (keypair_generate E drawn1)),
      vi_pubkey = kp_public (keypair_generate E drawn1), vi_power = 100\<rparr>"
  let ?v2 = "\<lparr>vi_address = address_from_pubkey E (kp_public (keypair_generate E drawn2)),
      vi_pubkey = kp_public (keypair_generate E drawn2), vi_power = 900\<rparr>"
  let ?late = "\<lambda>h. 100 \<le> unat (proposer_seed E h 0) mod 1000"
  note sel = two_stakes [of ?v1 ?v2 E, simplified]
  have "count_elections E [?v1, ?v2] (vi_address ?v2) hs n k =
      k (n + length (filter ?late hs))" for hs n k
    by (induction hs arbitrary: n) (simp_all add: sel assms)
  from this [of "map word_of_nat [1..<101]" 0] show ?thesis
    by (simp add: test_proposer_election_deterministic_and_weighted_def Let_def sel filter_map comp_def assert_that_def
        del: upt_Suc upt_rec_numeral)
qed

text \<open>The evidence test passes with every hash function and every sound signature scheme.\<close>

theorem slashing_test_passes:
  assumes "ed25519_laws E" and "account_codec_laws C"
  shows "test_double_sign_evidence_verification_and_slashing E C drawn = Passed"
proof -
  let ?kp = "keypair_generate E drawn"
  let ?a = "address_from_pubkey E (kp_public ?kp)"
  let ?g = "one_validator_genesis ?a (kp_public ?kp)"
  let ?ev = "\<lparr>vote_a = vote_new_signed E (Hash (of_be_bytes (replicate 32 1))) 5 0 PreVoteType ?kp,
      vote_b = vote_new_signed E (Hash (of_be_bytes (replicate 32 2))) 5 0 PreVoteType ?kp\<rparr>"
  have ev: "evidence_verify E ?ev = Inr ?a"
    using assms(1) ones_twos by (simp add: evidence_verify_def vote_verify_def vote_new_signed_def Let_def vote_data_def)
  obtain h db where gen: "apply_genesis E C ?g memory_db = (Inr h, db)"
    using genesis_applied by blast
  have "get_account C memory_db a = account_default" for a
    by (simp add: get_account_def memory_db_def open_in_memory_def kv_get_def)
  then have "get_account C db ?a = account_default\<lparr>staked_amount := 1000000, is_validator := True,
      validator_pubkey := Some (kp_public ?kp)\<rparr>"
    using get_account_genesis [OF om_ok_memory_db assms(2), of E ?g ?a] gen
    by (simp add: genesis_writes_def one_validator_genesis_def genesis_validator_account_def account_default_def)
  then have "overlay_get C [] db ?a = account_default\<lparr>staked_amount := 1000000, is_validator := True,
      validator_pubkey := Some (kp_public ?kp)\<rparr>"
    by (simp add: overlay_get_def hm_get_def)
  then show ?thesis
    using ev gen
    by (simp add: test_double_sign_evidence_verification_and_slashing_def Let_def state_db_new_memory apply_slashing_def
        overlay_get_set sat_sub_def word_le_nat_alt unat_div)
qed

text \<open>
  The test of a whole height never passes: handling the proposal has already handled its
  prevote, so the precommit it expects from handling that prevote again is not there. With the
  locks the crate documents it does not even get that far, and hangs in handling the proposal.
\<close>
theorem engine_test_never_passes:
  "test_consensus_engine_proposal_and_commit_cycle E C clock drawn \<noteq> Passed"
proof
  assume "test_consensus_engine_proposal_and_commit_cycle E C clock drawn = Passed"
  then show False
    unfolding test_consensus_engine_proposal_and_commit_cycle_def Let_def case_prod_beta passed_iff
    by (blast dest: prevote_again)
qed

text \<open>An engine started on a genesis in memory whose one account is its one validator.\<close>

lemma first_proposal_blocks:
  assumes "exclusive_writes (locks E)" and "account_codec_laws C"
    and gen: "g_accounts g = [\<lparr>ga_address = address_from_pubkey E (kp_public kp), ga_balance = x\<rparr>]"
      "g_validators g = [\<lparr>gv_address = address_from_pubkey E (kp_public kp), gv_pubkey = kp_public kp, gv_stake = stake\<rparr>]"
      "0 < stake"
    and dec: "block_dec C (block_enc C (to_genesis_block E g)) = Some (to_genesis_block E g)"
    and applied: "apply_genesis E C g memory_db = (Inr h, db)"
  shows "\<exists>en b en0 en'. engine_new E kp db (mempool_new config) cid = Some en \<and>
    create_proposal E C (Some t) en = Ret (Inr b) en0 \<and> h_height (b_header b) = 1 \<and>
    handle_proposal E C b en0 = Blocked en'"
proof -
  have mem: "kv_map (db_kv memory_db) = []" "kv_faults (db_kv memory_db) = []"
    by (simp_all add: memory_db_def open_in_memory_def)
  have one: "add_ck (prof E) (0 :: u64) 1 = Some 1" "add_ck (prof E) (1 :: u64) 1 = Some 2"
    by (cases "prof E"; simp add: add_ck_def)+
  have "get_latest_height db = 0"
    using apply_genesis_write_all [of E C g memory_db] applied by (simp add: get_latest_height_write_all)
  then obtain en where new: "engine_new E kp db (mempool_new config) cid = Some en"
    by (simp add: engine_new_def one)
  note fresh = sole_genesis [OF mem assms(2) gen(1,2) refl gen(3) dec applied new]
  have "harvest (1024 * 1024) (en_pool en) = []" using fresh(1) by (simp add: harvest_def mempool_new_def)
  moreover have "ready E C stake 0 (to_genesis_block E g) en" using fresh(2-5,7,9,11) by (simp add: ready_def)
  ultimately obtain b qc v en0 en1 where b: "h_height (b_header b) = 1" and en1: "cur_height en1 = 1"
    and run: "create_proposal E C (Some t) en = Ret (Inr b) en0"
      "handle_proposal E C b en0 = andThen (advance_height E [WriteGuard] qc en1) (\<lambda>_ en. Ret (Inr v) en)"
    using sole_round [of E C stake 0 "to_genesis_block E g" en "[]" "[]" "()" "en_pool en" t] by auto
  have "\<exists>en'. advance_height E [WriteGuard] qc en1 = Blocked en'"
    using assms(1) by (simp add: advance_height_def Let_def exclusive_writes_def en1 one)
  with run new b show ?thesis by auto
qed

theorem engine_test_hangs:
  fixes E :: env and drawn :: "256 word" and kp g
  defines "kp \<equiv> keypair_generate E drawn"
    and "g \<equiv> one_validator_genesis (address_from_pubkey E (kp_public kp)) (kp_public kp)"
  assumes "exclusive_writes (locks E)" and "account_codec_laws C"
    and "block_dec C (block_enc C (to_genesis_block E g)) = Some (to_genesis_block E g)"
  shows "test_consensus_engine_proposal_and_commit_cycle E C (Some t) drawn = Hangs"
proof -
  obtain h db where gen: "apply_genesis E C g memory_db = (Inr h, db)" using genesis_applied by blast
  have g: "g_accounts g = [\<lparr>ga_address = address_from_pubkey E (kp_public kp), ga_balance = 10000000\<rparr>]"
    "g_validators g = [\<lparr>gv_address = address_from_pubkey E (kp_public kp), gv_pubkey = kp_public kp, gv_stake = 1000000\<rparr>]"
    "(0 :: u64) < 1000000"
    by (simp_all add: g_def one_validator_genesis_def)
  from first_proposal_blocks [OF assms(3,4) g assms(5) gen, of mempool_config_default "''aura-testnet''" t] gen
  show ?thesis
    by (auto simp: test_consensus_engine_proposal_and_commit_cycle_def state_db_new_memory Let_def
        kp_def [symmetric] g_def [symmetric])
qed

end
