(* ===== verification/Tier_Tests.thy ===== *)
theory Tier_Tests
  imports Engine_Tests
begin

text \<open>
  The tier tests of \<open>aura-test-harness/tests\<close> as programs over the model, and what they come
  to. Key pairs are drawn from the arguments.
\<close>

section \<open>Tier 1: primitives\<close>

definition test_tamper_detection_breaks_hash_chain :: "env \<Rightarrow> 256 word \<Rightarrow> verdict" where
  "test_tamper_detection_breaks_hash_chain E drawn =
     (let kp = keypair_generate E drawn;
          addr = address_from_pubkey E (kp_public kp)
      in unwrap (header_sign E kp (header_new_unsigned 1 ''aura-mainnet'' 1 0 HASH_ZERO HASH_ZERO HASH_ZERO HASH_ZERO
           1700000000 addr)) (\<lambda>header.
         let original_hash = header_hash E header
         in assert_that (original_hash \<noteq> header_hash E (header\<lparr>h_height := 2\<rparr>))
           (expect (add_ck (prof E) (h_timestamp header) 1) (\<lambda>later.
            assert_that (original_hash \<noteq> header_hash E (header\<lparr>h_timestamp := later\<rparr>)) Passed))))"

definition tier_payloads :: "bytes list" where
  "tier_payloads = map (\<lambda>i. str_bytes (''aura_tx_payload_'' @ show_nat i)) [0..<16]"

definition test_rfc6962_merkle_tree_consistency_and_proofs :: "env \<Rightarrow> verdict" where
  "test_rfc6962_merkle_tree_consistency_and_proofs E =
     (let tree = from_leaf_payloads E tier_payloads;
          root = tree_root tree
      in each (\<lambda>(idx, payload).
           expect (generate_proof tree idx) (\<lambda>found. expect found (\<lambda>proof.
           assert_that (proof_verify E proof root payload)
          (let tampered = payload @ [0xFF]
           in assert_that (\<not> proof_verify E proof root tampered) Passed))))
         (enumerate 0 tier_payloads) Passed)"

definition test_bech32_address_prefix_and_checksum :: "env \<Rightarrow> 256 word \<Rightarrow> verdict" where
  "test_bech32_address_prefix_and_checksum E drawn =
     (let addr = address_from_pubkey E (kp_public (keypair_generate E drawn))
      in unwrap (to_bech32 E addr DEFAULT_HRP) (\<lambda>bech32_str.
         assert_that (take 5 bech32_str = ''aura1'')
        (expect (from_bech32 E bech32_str DEFAULT_HRP) (\<lambda>r. unwrap r (\<lambda>decoded.
         assert_that (addr = decoded) Passed)))))"

section \<open>Tier 2: storage\<close>

definition test_sparse_merkle_tree_root_determinism :: "env \<Rightarrow> verdict" where
  "test_sparse_merkle_tree_root_determinism E =
     (let key_a = Hash (of_be_bytes (replicate 32 0x11));
          key_b = Hash (of_be_bytes (replicate 32 0x22));
          tree1 = smt_update E key_b (str_bytes ''val_2'') (smt_update E key_a (str_bytes ''val_1'') smt_new);
          tree2 = smt_update E key_a (str_bytes ''val_1'') (smt_update E key_b (str_bytes ''val_2'') smt_new)
      in assert_that (smt_root E tree1 = smt_root E tree2) Passed)"

definition test_wal_crash_resilience_and_recovery :: "(bytes \<Rightarrow> u32) \<Rightarrow> verdict" where
  "test_wal_crash_resilience_and_recovery crc =
     (let file = wal_open None;
          (a1, file) = wal_append crc None (str_bytes ''entry_1'') file
      in unwrap a1 (\<lambda>_.
      let (a2, file) = wal_append crc None (str_bytes ''entry_2'') file
      in unwrap a2 (\<lambda>_.
      let file = wal_open (Some file);
          (r, file) = wal_recover crc file
      in unwrap r (\<lambda>recovered.
      assert_that (length recovered = 2)
     (assert_that (recovered ! 0 = str_bytes ''entry_1'')
     (assert_that (recovered ! 1 = str_bytes ''entry_2'') Passed))))))"

section \<open>Tier 3: the mempool\<close>

definition one_account_genesis :: "address \<Rightarrow> genesis_config" where
  "one_account_genesis alice_addr =
     \<lparr>g_chain_id = ''aura-testnet'', g_timestamp = 1700000000,
      g_accounts = [\<lparr>ga_address = alice_addr, ga_balance = 50000\<rparr>], g_validators = [],
      g_initial_state_root = HASH_ZERO\<rparr>"

definition test_mempool_stateless_and_stateful_validation :: "env \<Rightarrow> codec \<Rightarrow> 256 word \<Rightarrow> 256 word \<Rightarrow> verdict" where
  "test_mempool_stateless_and_stateful_validation E C drawn1 drawn2 =
     (let alice_kp = keypair_generate E drawn1;
          alice_addr = address_from_pubkey E (kp_public alice_kp);
          bob_addr = address_from_pubkey E (kp_public (keypair_generate E drawn2));
          (applied, db) = apply_genesis E C (one_account_genesis alice_addr) (state_db_new E open_in_memory)
      in unwrap applied (\<lambda>_.
         let mempool = mempool_new mempool_config_default
         in unwrap (test_transfer E alice_kp bob_addr 10000 1000 1) (\<lambda>tx_valid.
            after (add_transaction E C db tx_valid mempool) (\<lambda>r mempool.
            assert_that (accepted r)
           (unwrap (test_transfer E alice_kp bob_addr 100000 1000 2) (\<lambda>tx_excess.
            after (add_transaction E C db tx_excess mempool) (\<lambda>r mempool.
            assert_that (\<not> accepted r) Passed)))))))"

section \<open>Tier 4: consensus\<close>

definition rich_validator_genesis :: "address \<Rightarrow> public_key \<Rightarrow> genesis_config" where
  "rich_validator_genesis val_addr val_key =
     \<lparr>g_chain_id = ''aura-testnet'', g_timestamp = 1700000000,
      g_accounts = [\<lparr>ga_address = val_addr, ga_balance = 100000000\<rparr>],
      g_validators = [\<lparr>gv_address = val_addr, gv_pubkey = val_key, gv_stake = 10000000\<rparr>],
      g_initial_state_root = HASH_ZERO\<rparr>"

text \<open>The steps that produce one block, which the test takes twice.\<close>

definition produce_block ::
  "env \<Rightarrow> codec \<Rightarrow> u64 option \<Rightarrow> u64 \<Rightarrow> engine \<Rightarrow> (engine \<Rightarrow> verdict) \<Rightarrow> verdict" where
  "produce_block E C clock height en k =
     after (create_proposal E C clock en) (\<lambda>r en. unwrap r (\<lambda>proposal.
     after (handle_proposal E C proposal en) (\<lambda>r en. unwrap r (\<lambda>prevote.
     after (handle_prevote E C prevote en) (\<lambda>r en. expect r (\<lambda>precommit.
     after (handle_precommit E C [] precommit en) (\<lambda>r en. expect r (\<lambda>qc.
     assert_that (qc_height qc = height)
    (assert_that (get_latest_height (en_db en) = height) (k en))))))))))"

definition test_bft_consensus_liveness_and_safety ::
  "env \<Rightarrow> codec \<Rightarrow> u64 option \<Rightarrow> u64 option \<Rightarrow> 256 word \<Rightarrow> verdict" where
  "test_bft_consensus_liveness_and_safety E C clock1 clock2 drawn =
     (let val_kp = keypair_generate E drawn;
          val_addr = address_from_pubkey E (kp_public val_kp);
          (applied, db) = apply_genesis E C (rich_validator_genesis val_addr (kp_public val_kp))
            (state_db_new E open_in_memory)
      in unwrap applied (\<lambda>_.
         expect (engine_new E val_kp db (mempool_new mempool_config_default) ''aura-testnet'') (\<lambda>en.
         produce_block E C clock1 1 en (\<lambda>en.
         produce_block E C clock2 2 en (\<lambda>en. Passed)))))"

definition test_byzantine_double_vote_slashing :: "env \<Rightarrow> 256 word \<Rightarrow> verdict" where
  "test_byzantine_double_vote_slashing E drawn =
     assert_that (accepted (evidence_verify E (create_double_vote_evidence E (keypair_generate E drawn) 5 0))) Passed"

section \<open>Tier 5: the cluster\<close>

definition test_multi_node_cluster_block_step ::
  "env \<Rightarrow> codec \<Rightarrow> u64 option \<Rightarrow> 256 word \<Rightarrow> 256 word \<Rightarrow> verdict" where
  "test_multi_node_cluster_block_step E C clock drawn1 drawn2 =
     expect (spawn_validators E C [drawn1, drawn2]) (\<lambda>cluster.
     assert_that (length (tc_nodes cluster) = 2)
    (after (step_block_round E C clock cluster) (\<lambda>block_hash cluster.
     assert_that (block_hash \<noteq> HASH_ZERO)
    (assert_that (get_latest_height (tn_db (tc_nodes cluster ! 0)) = 1)
    (assert_that (get_latest_height (tn_db (tc_nodes cluster ! 1)) = 1) Passed)))))"

section \<open>What the tests come to\<close>

lemma accepted_Inr [simp]: "accepted r \<longleftrightarrow> (\<exists>a. r = Inr a)"
  by (cases r) simp_all

text \<open>The header test fails exactly on a collision between the header and a changed copy.\<close>

theorem header_tamper_test_exact:
  fixes E :: env and drawn and h
  defines "h \<equiv> header_new_unsigned 1 ''aura-mainnet'' 1 0 HASH_ZERO HASH_ZERO HASH_ZERO HASH_ZERO 1700000000
      (address_from_pubkey E (kp_public (keypair_generate E drawn)))"
  shows "test_tamper_detection_breaks_hash_chain E drawn =
    (let s = h\<lparr>h_signature := kp_sign E (keypair_generate E drawn) (header_signing_bytes h)\<rparr> in
     if header_hash E s = header_hash E (s\<lparr>h_height := 2\<rparr>) \<or> header_hash E s = header_hash E (s\<lparr>h_timestamp := 1700000001\<rparr>)
     then Failed else Passed)"
proof -
  have "add_ck (prof E) (1700000000 :: u64) 1 = Some 1700000001"
    by (cases "prof E") (simp_all add: add_ck_def)
  then show ?thesis
    by (simp add: test_tamper_detection_breaks_hash_chain_def Let_def header_sign_def h_def header_new_unsigned_def
        assert_that_def)
qed

text \<open>
  The Merkle test passes for every hash function, unless a proof verifies its payload with a
  byte appended too and so yields a collision of BLAKE3.
\<close>
theorem tier_merkle_test_passes:
  assumes "\<And>i p u v. i < 16 \<Longrightarrow> generate_proof (from_leaf_payloads E tier_payloads) i = Some (Some p) \<Longrightarrow>
      merkle_collision E p p (tier_payloads ! i) (tier_payloads ! i @ [0xFF]) = Some (u, v) \<Longrightarrow> \<not> blake3_collision E u v"
  shows "test_rfc6962_merkle_tree_consistency_and_proofs E = Passed"
proof -
  let ?tree = "from_leaf_payloads E tier_payloads"
  have len: "length tier_payloads = 16" by (simp add: tier_payloads_def)
  have "\<exists>p. generate_proof ?tree i = Some (Some p) \<and> proof_verify E p (tree_root ?tree) (tier_payloads ! i) \<and>
      \<not> proof_verify E p (tree_root ?tree) (tier_payloads ! i @ [0xFF])" if "i < 16" for i
    using that len assms [OF that] by (intro merkle_entry) simp_all
  then show ?thesis
    unfolding test_rfc6962_merkle_tree_consistency_and_proofs_def Let_def each_passed
    using len by (fastforce simp: in_set_enumerate_eq)
qed

theorem tier_bech32_test_passes:
  assumes "bech32_laws E" and "\<And>bs s. bech32_encode E DEFAULT_HRP bs = Inr s \<Longrightarrow> take 5 s = DEFAULT_HRP @ ''1''"
  shows "test_bech32_address_prefix_and_checksum E drawn = Passed"
proof -
  have "test_bech32_address_derivation_and_roundtrip E drawn = Passed"
    by (rule bech32_test_passes) (use assms in auto)
  then show ?thesis
    by (auto simp: test_bech32_address_derivation_and_roundtrip_def test_bech32_address_prefix_and_checksum_def Let_def
        passed_iff)
qed

theorem smt_determinism_test_passes: "test_sparse_merkle_tree_root_determinism E = Passed"
proof -
  have new: "hm_ok (smt_leaves smt_new)" by (simp add: smt_new_def hm_ok_def)
  have "(of_be_bytes (replicate 32 0x11) :: 256 word) \<noteq> of_be_bytes (replicate 32 0x22)"
    using be_bytes_of_be_bytes [of 32 "replicate 32 0x11", where 'a = 256]
      be_bytes_of_be_bytes [of 32 "replicate 32 0x22", where 'a = 256] by force
  then have "smt_root E (smt_update E (Hash (of_be_bytes (replicate 32 0x22))) (str_bytes ''val_2'')
      (smt_update E (Hash (of_be_bytes (replicate 32 0x11))) (str_bytes ''val_1'') smt_new)) =
    smt_root E (smt_update E (Hash (of_be_bytes (replicate 32 0x11))) (str_bytes ''val_1'')
      (smt_update E (Hash (of_be_bytes (replicate 32 0x22))) (str_bytes ''val_2'') smt_new))"
    by (intro smt_root_cong) (auto simp: new smt_ok_update smt_get_update fun_eq_iff)
  then show ?thesis
    unfolding test_sparse_merkle_tree_root_determinism_def Let_def by (simp only: assert_that_simps simp_thms)
qed

theorem tier_wal_test_passes: "test_wal_crash_resilience_and_recovery crc = Passed"
proof -
  let ?rs = "map str_bytes [''entry_1'', ''entry_2'']"
  have "wal_recover crc (WAL_MAGIC @ frames crc ?rs @ []) = (Inr ?rs, WAL_MAGIC @ frames crc ?rs)"
    by (rule wal_recover_log) simp_all
  moreover have "WAL_MAGIC \<noteq> []" using length_WAL_MAGIC by (metis length_0_conv zero_neq_numeral)
  ultimately show ?thesis
    by (simp add: test_wal_crash_resilience_and_recovery_def Let_def wal_append_def wal_open_def passed_iff)
qed

text \<open>The mempool test passes with every hash function and every sound signature scheme.\<close>

theorem validation_test_passes:
  assumes "ed25519_laws E" and "account_codec_laws C"
  shows "test_mempool_stateless_and_stateful_validation E C drawn1 drawn2 = Passed"
proof -
  let ?kp = "keypair_generate E drawn1"
  let ?a = "address_from_pubkey E (kp_public ?kp)" and ?b = "address_from_pubkey E (kp_public (keypair_generate E drawn2))"
  let ?t = "own_transfer E ?kp ?b 10000 1000 1" and ?u = "own_transfer E ?kp ?b 100000 1000 2"
  obtain h db where gen: "apply_genesis E C (one_account_genesis ?a) memory_db = (Inr h, db)"
    using genesis_applied by blast
  have acc: "get_account C db ?a = account_new 50000 0"
    using get_account_genesis [OF om_ok_memory_db assms(2), of E "one_account_genesis ?a" ?a] gen
    by (simp add: genesis_writes_def one_account_genesis_def)
  have t: "validate_stateless E ?t = Inr ()" "validate_stateful E ?t (get_account C db (tx_sender ?t)) = Some (Inr ())"
    using own_transfer_stateless [OF assms(1) kp_ok_generate, of 1000 10000] own_transfer_stateful [of _ 50000 10000 1000] acc
    by simp_all
  obtain mp where "add_transaction E C db ?t new_pool = Ret (Inr (tx_hash E ?t)) mp"
    using add_succeeds [OF t] new_pool_facts by blast
  moreover have "\<exists>e q. add_transaction E C db ?u mp = Ret (Inl e) q"
  proof -
    have "validate_stateful E ?u (get_account C db (tx_sender ?u)) \<noteq> Some (Inr ())"
      using validate_stateful_accepts [of "account_new 50000 0" E ?u] sat_add_le_iff [of 50000 100000 "1000 :: u64"] acc
      by (simp add: account_new_def)
    moreover have "validate_stateful E ?u (account_new 50000 0) \<noteq> None"
      by (cases "prof E") (auto simp: validate_stateful_def account_new_def add_ck_def Let_def)
    ultimately show ?thesis
      using acc by (auto simp: add_transaction_def Let_def split: sum.split option.split)
  qed
  ultimately show ?thesis
    using gen by (auto simp: test_mempool_stateless_and_stateful_validation_def Let_def state_db_new_memory test_transfer_signs)
qed

text \<open>
  The consensus test never passes, and with the locks the crate documents it hangs in handling
  its first proposal: the two reasons are those of the engine's own unit test.
\<close>
theorem liveness_test_never_passes:
  "test_bft_consensus_liveness_and_safety E C clock1 clock2 drawn \<noteq> Passed"
proof
  assume "test_bft_consensus_liveness_and_safety E C clock1 clock2 drawn = Passed"
  then show False
    unfolding test_bft_consensus_liveness_and_safety_def produce_block_def Let_def case_prod_beta passed_iff
    by (blast dest: prevote_again)
qed

theorem liveness_test_hangs:
  fixes E :: env and drawn :: "256 word" and kp g
  defines "kp \<equiv> keypair_generate E drawn"
    and "g \<equiv> rich_validator_genesis (address_from_pubkey E (kp_public kp)) (kp_public kp)"
  assumes "exclusive_writes (locks E)" and "account_codec_laws C"
    and "block_dec C (block_enc C (to_genesis_block E g)) = Some (to_genesis_block E g)"
  shows "test_bft_consensus_liveness_and_safety E C (Some t) clock2 drawn = Hangs"
proof -
  obtain h db where gen: "apply_genesis E C g memory_db = (Inr h, db)" using genesis_applied by blast
  have g: "g_accounts g = [\<lparr>ga_address = address_from_pubkey E (kp_public kp), ga_balance = 100000000\<rparr>]"
    "g_validators g = [\<lparr>gv_address = address_from_pubkey E (kp_public kp), gv_pubkey = kp_public kp, gv_stake = 10000000\<rparr>]"
    "(0 :: u64) < 10000000"
    by (simp_all add: g_def rich_validator_genesis_def)
  from first_proposal_blocks [OF assms(3,4) g assms(5) gen, of mempool_config_default "''aura-testnet''" t] gen
  show ?thesis
    by (auto simp: test_bft_consensus_liveness_and_safety_def produce_block_def state_db_new_memory Let_def
        kp_def [symmetric] g_def [symmetric])
qed

theorem double_vote_test_passes: "ed25519_laws E \<Longrightarrow> test_byzantine_double_vote_slashing E drawn = Passed"
  using double_vote_evidence_accepted [of E "keypair_generate E drawn" 5 0]
  by (simp add: test_byzantine_double_vote_slashing_def)

text \<open>The cluster test never passes: the round it steps never returns a block hash.\<close>

theorem cluster_test_never_passes: "test_multi_node_cluster_block_step E C clock drawn1 drawn2 \<noteq> Passed"
  using step_block_round_never_returns
  by (auto simp: test_multi_node_cluster_block_step_def passed_iff)

end
