(* ===== verification/Spec2Isabelle.thy ===== *)
theory Spec2Isabelle
  imports Wallet Wal Commands Settlement Tunnel_Run Tier_Tests
begin

text \<open>
  Aura: a formal development beside the Rust workspace under \<open>src/crates\<close>.

  The program. A node keeps accounts in an ordered key-value store (\<open>aura-storage\<close>), mirrored
  in a sparse Merkle tree whose root is the state root. Clients hand signed transactions
  (\<open>aura-primitives\<close>, \<open>aura-crypto\<close>) to the JSON-RPC server (\<open>aura-rpc\<close>), which puts them in the
  mempool (\<open>aura-mempool\<close>). The consensus engine (\<open>aura-consensus\<close>) harvests the mempool into a
  proposed block, collects prevotes and precommits weighted by stake, and on a quorum executes
  the block on an overlay and commits it to the store. Other nodes take blocks over with the
  syncer (\<open>aura-network\<close>). The node binary (\<open>aura-node\<close>) builds the genesis, drives the engine
  and holds the command-line wallet. \<open>aura-tunnel\<close> is a separate encrypted proxy between a
  SOCKS5 client and an exit node. \<open>aura-test-harness\<close> drives several engines in one process.

  How the program is modelled. Structs are records, enums are datatypes, integers are words
  of their width. A Rust operation that can panic, wait for a lock for ever or loop is a function
  into \<open>outcome\<close> (\<open>Ret\<close> a result and a state, \<open>Panic\<close>, \<open>Blocked\<close>, \<open>Spin\<close>; the state is
  the one it leaves behind), a \<open>Result\<close> is a sum, and \<open>&self\<close> with interior mutability is a
  state passed along. Unchecked arithmetic is \<open>add_ck\<close>, \<open>sub_ck\<close>, \<open>mul_ck\<close>: it panics in a
  \<open>Debug\<close> profile and wraps in a \<open>Release\<close> profile, and every theorem holds for both unless it
  says otherwise. A hash map is an association list with distinct keys whose order is that of
  iteration; theorems do not depend on the order.

  Parameters. The record \<open>env\<close> holds the code that is not in the repository: BLAKE3, Ed25519,
  HMAC, hexadecimal and bech32, the build profile, and the lock policy, which says whether a
  lock is granted to a thread given the guards it holds (\<open>rwlock\<close> is the documented behaviour
  of \<open>parking_lot\<close>, for which \<open>exclusive_writes\<close> holds). \<open>codec\<close> and \<open>kv_codec\<close> hold bincode,
  \<open>json_lib\<close> holds \<open>serde_json\<close>, \<open>frame_codec\<close> the bincode of tunnel frames, \<open>bip39\<close> the phrase
  library. File contents, write failures, sockets, the clock and drawn random bytes are
  arguments. What is relied on is a named hypothesis (\<open>ed25519_laws\<close>, \<open>hex_laws\<close>,
  \<open>bech32_laws\<close>, \<open>data_codec_laws\<close>, \<open>account_codec_laws\<close>, \<open>frame_codec_laws\<close>, \<open>bip39_laws\<close>), each
  of which a concrete sample satisfies.

  Hash collisions. That BLAKE3 is injective is never assumed. Where a statement rests on its
  collision resistance it is one of two kinds. Either the conclusion names a collision as the
  alternative: the Merkle proofs and block bodies (\<open>Merkle\<close>, \<open>Block\<close>), and the state root, where
  \<open>key_clash\<close> is two different addresses stored in the database whose tree keys collide (\<open>State\<close>,
  \<open>Sync\<close>, \<open>System\<close>). Or the blocks of the run or batch at hand are assumed to be free of one: by
  \<open>good_blocks\<close> (\<open>System\<close>) and \<open>heights_apart\<close> (\<open>Sync\<close>) no two of these finitely many blocks that
  differ in height share a hash.

  Locks. \<open>parking_lot\<close> does not grant a write lock to a thread that already holds the lock, and the
  program asks for such locks in every commit of a pooled transaction and in every precommit that
  decides. So the theorems on commits say what is stored whether the call returns or waits for ever
  (\<open>Ret\<close> or \<open>Blocked\<close>), and that under \<open>exclusive_writes\<close> it waits. What is said of engines whose
  calls return, such as the certificates they issue, holds for every lock policy.
\<close>

section \<open>Theories\<close>

text \<open>
  \<^item> \<open>Aura_Prelude\<close>: words and bytes, \<open>outcome\<close>, checked arithmetic, locks, hash and ordered
    maps, both interpretations of the locale \<open>map_ops\<close>.
  \<^item> \<open>Crypto\<close> (\<open>aura-crypto/src/hash.rs\<close>, \<open>keys.rs\<close>, \<open>address.rs\<close>): newtypes, domain-separated
    hashing, parsing, bech32. \<open>Text\<close>: their printed and serialised forms, as interpretations
    of the locale \<open>wire_type\<close>; what is written is read back, and no input makes a reader panic.
    \<open>Wallet\<close> (\<open>hd.rs\<close>): phrases, seeds, SLIP-0010 derivation.
  \<^item> \<open>Merkle\<close> (\<open>aura-primitives/src/merkle.rs\<close>): proofs are complete, and binding up to an
    explicit collision. \<open>Transaction\<close> (\<open>transaction.rs\<close>): signing bytes determine the transaction.
    \<open>Block\<close> (\<open>header.rs\<close>, \<open>qc.rs\<close>, \<open>block.rs\<close>, \<open>genesis.rs\<close>): headers, votes, certificates, bodies.
  \<^item> \<open>Smt\<close> (\<open>aura-storage/src/smt.rs\<close>): after any changes the recursive root is that of the full
    tree of depth 256 over the resulting map, written out independently of the code.
    \<open>Kv\<close> (\<open>kv.rs\<close>): batches, prefix scans, persistence with failing writes. \<open>State\<close>
    (\<open>account.rs\<close>, \<open>state.rs\<close>): overlay, genesis, commit, and the mirror of accounts and tree.
    \<open>Wal\<close> (\<open>wal.rs\<close>): the log under crashes at any byte.
  \<^item> \<open>Execution\<close> (\<open>aura-consensus/src/engine.rs\<close>, lines 300 to 332): the execution loop refines
    a ledger of balances and stakes, and accounts for every unit it creates or destroys.
  \<^item> \<open>Mempool\<close> (\<open>aura-mempool/src/validation.rs\<close>, \<open>pool.rs\<close>): validation, replacement, eviction,
    harvest; the invariant \<open>mp_inv\<close> of the four indexes holds in every reachable pool.
  \<^item> \<open>Consensus\<close> (\<open>types.rs\<close>, \<open>proposer.rs\<close>, \<open>slashing.rs\<close>) and \<open>Engine\<close> (\<open>engine.rs\<close>): proposer
    choice, evidence, the handlers of proposals, prevotes and precommits, certificates.
  \<^item> \<open>Peers\<close> (\<open>aura-network/src/peer.rs\<close>, \<open>protocol.rs\<close>): reputation and bans. \<open>Sync\<close>
    (\<open>sync.rs\<close>): the syncer keeps the chain and agrees with the engine it follows.
  \<^item> \<open>Cipher\<close> (\<open>aura-tunnel/src/billing.rs\<close>, \<open>handshake.rs\<close>, \<open>cipher.rs\<close>): the session cipher,
    replay protection and its limits, vouchers. \<open>Tunnel\<close> (\<open>protocol.rs\<close>, \<open>host.rs\<close>, \<open>client.rs\<close>):
    the exit node and the SOCKS5 client over byte streams, and their composition. \<open>Tunnel_Run\<close>:
    the accept loops of both.
  \<^item> \<open>Rpc\<close> (\<open>aura-rpc/src/server.rs\<close>, \<open>types.rs\<close>): every method, the routes, the websocket loop.
  \<^item> \<open>Node\<close> (\<open>aura-node/src/main.rs\<close>, \<open>cli.rs\<close>, \<open>config.rs\<close>; \<open>aura-test-harness/src/cluster.rs\<close>,
    \<open>byzantine.rs\<close>): key generation, genesis, the block production loop on the engine, the
    wallet's commands and HTTP exchange against the routes of \<open>Rpc\<close>, a round of the cluster.
  \<^item> \<open>System\<close> (the \<open>Init\<close> and \<open>Run\<close> commands of \<open>main.rs\<close>): a whole node on its data file,
    whose server and engine share one database and mempool; a step relation of requests, ticks,
    lost calls, stops and restarts, and what holds along every run of it. \<open>Commands\<close>: what
    \<open>main\<close> does with each parsed command, and the lines it prints.
  \<^item> \<open>Metrics\<close> (\<open>aura-metrics/src/lib.rs\<close> and the page of \<open>server.rs\<close>): statics that register on
    first use, and what is gathered of them.
  \<^item> \<open>Payment\<close>: a transaction's way from the mempool through proposal and commit to the accounts.
    \<open>Settlement\<close>: from the request to the ledger on a running node: with the documented locks the
    next turn of the production loop settles what was sent, and is its last. Beside that, for locks
    a thread may take twice, the invariant \<open>ready\<close> of \<open>Node\<close> carries the loop's progress over any
    number of turns. \<open>Sample_Codec\<close>: an executable codec that reads back every block, on which the
    hypotheses of that theory hold.
  \<^item> \<open>Unit_Tests\<close>, \<open>Engine_Tests\<close> (the test modules in each crate's \<open>lib.rs\<close>), \<open>Tier_Tests\<close>
    (\<open>aura-test-harness/tests\<close>): every test as a program over these definitions that passes, fails
    or hangs, with what it comes to for all random draws: most pass (up to a stated hash collision
    or forged signature), the tests of genesis and of tampered frames fail, those of a whole
    consensus height and of a cluster never pass, and three hang on a lock.
\<close>

section \<open>What the lemmas show\<close>

text \<open>
  Safety of consensus: a certificate holds distinct voters with more than two thirds of the
  stake, and two certificates share more than a third (\<open>Engine\<close>). State: commits read back,
  the root is a function of the tree's contents, and survives reopening and agrees between
  replicas unless stored addresses collide (\<open>State\<close>, \<open>Smt\<close>, \<open>Sync\<close>). Durability: batches and log records survive or are undone whole
  (\<open>Kv\<close>, \<open>Wal\<close>). Admission: what the mempool holds, refuses and hands out, from the request to
  the harvest (\<open>Mempool\<close>, \<open>Rpc\<close>, \<open>Node\<close>). Round trips: wire and text forms, signatures, ciphers,
  framing. Composition: along every run of a node its database and its file hold one linked
  chain, stored blocks are final, a restart resumes (\<open>System\<close>), and an accepted payment is
  settled by the next block (\<open>Payment\<close>). Progress: the loop of a sole validator stores one valid
  block of what the pool offers and stops in its commit (\<open>first_tick_deadlocks\<close>,
  \<open>request_settles\<close>, \<open>loop_stops_after_one_block\<close>). Were its locks ones a thread may take twice,
  each turn would do so and leave the node ready for the next (\<open>loop_makes_progress\<close>), so the locks
  are all that stands in the way of a single validator. Termination: the session loop of the exit
  node and log recovery are total functions whose measure is the unread input and the file; the
  eviction loop never spins on a reachable pool.

  Several theorems state what the code does where that is not what it means to do: the locks a
  thread takes twice (\<open>mempool_self_deadlock\<close>, \<open>consensus_self_deadlock\<close>, \<open>first_tick_deadlocks\<close>),
  the production loop that announces nothing, transfers that are not covered, votes and synced
  blocks that are not authenticated, the second cipher of the tunnel's client, double spends and
  replays that the mempool lets through, an initialised directory that nobody can validate on.

  Bounds. The tree's recursion is structural on the level, at most 256. The eviction loop of
  the mempool, which need not end on an arbitrary pool, is a \<open>partial_function\<close> into options,
  whose \<open>None\<close> is the outcome \<open>Spin\<close>; \<open>mempool_add_returns\<close> shows that it never spins on a
  reachable pool: the addition returns, panics, or waits for a lock its thread holds. Every other loop is a total function, and no definition uses fuel.
\<close>

section \<open>Not modelled\<close>

text \<open>
  Of the RPC server, the web framework, cross-origin headers and the websocket upgrade;
  of the node, argument parsing by the command-line library and logging; of the tunnel,
  the scheduling of tasks (a session and a relay task are modelled on the events they see). A
  request and a tick are one step each in \<open>System\<close>; threads that interleave inside them are not
  modelled. Left out as errors of the machine: failures to open or read the data file (\<open>kv_open\<close>
  keeps the decoding error), the wait for room in the bounded channel to a slow target
  (\<open>host_session\<close>), and the error of printing a 20-byte address in \<open>open_node\<close>, which cannot
  happen. The Android application and the web explorer
  are in other languages and hold no ledger logic.
\<close>

end
